(* ===== verification/Rust_Std.thy ===== *)
theory Rust_Std
  imports Complex_Main "HOL-Library.Word" "HOL-Library.Multiset" "HOL-Library.Product_Lexorder"
begin

text \<open>
  The prelude: the machine integers, byte strings and vector operations of the Rust standard
  library that the program uses, written as executable functions, with the facts about them that
  the component theories share.

  A byte is a \<^typ>\<open>char\<close> and a Rust string or byte vector is a \<^typ>\<open>string\<close> of its (UTF-8) bytes.
  White space and letter case are those of ASCII. An \<open>f64\<close> is an exact \<^typ>\<open>real\<close>: the rounding of
  single floating-point operations, NaN and the infinities are not modelled, the decimal rounding
  that the program itself asks for (\<open>{:.2}\<close>) is. A \<open>Duration\<close> or an \<open>Instant\<close> is a number of
  nanoseconds. Unsigned integers that wrap in a release build are words.
\<close>

named_theorems std_simps \<open>evaluation of the string primitives\<close>
named_theorems pool_simps \<open>how the pool operations change the pooled list\<close>

type_synonym u8 = "8 word"
type_synonym u16 = "16 word"
type_synonym u32 = "32 word"
type_synonym u64 = "64 word"
type_synonym duration = nat
type_synonym instant = nat

section \<open>Vectors\<close>

text \<open>\<open>Vec::swap_remove\<close>: the removed slot is filled with the last element. The callers only pass
  an index in range; out of range Rust panics.\<close>

definition swap_remove :: "nat \<Rightarrow> 'a list \<Rightarrow> 'a list" where
  "swap_remove i xs = butlast (xs[i := last xs])"

text \<open>\<open>Vec::remove\<close>: the order of the other elements is kept.\<close>

definition vec_remove :: "nat \<Rightarrow> 'a list \<Rightarrow> 'a list" where
  "vec_remove i xs = take i xs @ drop (Suc i) xs"

text \<open>\<open>Iterator::min_by\<close>: the first of the least elements.\<close>

definition min_by :: "('a \<Rightarrow> 'a \<Rightarrow> bool) \<Rightarrow> 'a list \<Rightarrow> 'a option" where
  "min_by lt xs =
     (case xs of [] \<Rightarrow> None | x # ys \<Rightarrow> Some (foldl (\<lambda>a b. if lt b a then b else a) x ys))"

lemma mset_swap_remove:
  assumes "i < length xs"
  shows "mset (swap_remove i xs) = mset xs - {#xs ! i#}"
proof -
  let ?ys = "xs[i := last xs]"
  have ne: "xs \<noteq> []" using assms by auto
  have last_ys: "last ?ys = last xs"
    using ne by (simp add: last_list_update)
  have "mset ?ys = add_mset (last xs) (mset xs - {#xs ! i#})"
    using assms by (simp add: mset_update)
  moreover have "mset ?ys = add_mset (last ?ys) (mset (butlast ?ys))"
    using ne by (metis append_butlast_last_id list_update_nonempty mset.simps(1,2) mset_append
        union_mset_add_mset_right add.right_neutral)
  ultimately show ?thesis
    using last_ys by (simp add: swap_remove_def)
qed

lemma length_swap_remove: "length (swap_remove i xs) = length xs - 1"
  by (simp add: swap_remove_def)

lemma set_swap_remove_subset: "i < length xs \<Longrightarrow> set (swap_remove i xs) \<subseteq> set xs"
  by (metis mset_swap_remove set_mset_mset diff_subset_eq_self mset_subset_eqD subsetI)

lemma mset_vec_remove:
  assumes "i < length xs"
  shows "mset (vec_remove i xs) = mset xs - {#xs ! i#}"
proof -
  have "xs = take i xs @ xs ! i # drop (Suc i) xs"
    using assms by (simp add: id_take_nth_drop)
  then have "mset xs = add_mset (xs ! i) (mset (vec_remove i xs))"
    by (metis mset.simps(2) mset_append union_mset_add_mset_right vec_remove_def)
  then show ?thesis by simp
qed

lemma foldl_min_by:
  fixes key :: "'a \<Rightarrow> 'b::linorder"
  shows "foldl (\<lambda>a b. if key b < key a then b else a) x ys \<in> set (x # ys) \<and>
    (\<forall>z \<in> set (x # ys). key (foldl (\<lambda>a b. if key b < key a then b else a) x ys) \<le> key z)"
proof (induction ys arbitrary: x)
  case Nil
  then show ?case by simp
next
  case (Cons y ys)
  let ?m = "if key y < key x then y else x"
  have eq: "foldl (\<lambda>a b. if key b < key a then b else a) x (y # ys) =
      foldl (\<lambda>a b. if key b < key a then b else a) ?m ys"
    by simp
  show ?case unfolding eq using Cons.IH[of ?m] by (auto split: if_splits)
qed

lemma min_by_key_least:
  fixes key :: "'a \<Rightarrow> 'b::linorder"
  assumes "min_by (\<lambda>a b. key a < key b) xs = Some m"
  shows "m \<in> set xs" and "\<And>z. z \<in> set xs \<Longrightarrow> key m \<le> key z"
proof -
  obtain x ys where xs: "xs = x # ys" using assms by (cases xs) (auto simp: min_by_def)
  have m: "m = foldl (\<lambda>a b. if key b < key a then b else a) x ys"
    using assms by (simp add: xs min_by_def)
  show "m \<in> set xs" using foldl_min_by[of key x ys] by (simp add: m xs)
  show "key m \<le> key z" if "z \<in> set xs" for z
    using foldl_min_by[of key x ys] that unfolding m xs by blast
qed

lemma min_by_None_iff [simp]: "min_by lt xs = None \<longleftrightarrow> xs = []"
  by (cases xs) (auto simp: min_by_def)

section \<open>Rounding\<close>

text \<open>Round half to even, and \<open>format!("{x:.2}").parse()\<close>: the nearest multiple of 0.01.\<close>

definition round_half_even :: "real \<Rightarrow> int" where
  "round_half_even x =
     (let f = \<lfloor>x\<rfloor>; d = x - of_int f
      in if d < 1/2 then f else if 1/2 < d then f + 1 else if even f then f else f + 1)"

definition round2 :: "real \<Rightarrow> real" where
  "round2 x = of_int (round_half_even (x * 100)) / 100"

lemma round_half_even_near: "\<bar>of_int (round_half_even x) - x\<bar> \<le> 1/2"
proof -
  have "of_int \<lfloor>x\<rfloor> \<le> x" "x < of_int \<lfloor>x\<rfloor> + 1" by linarith+
  then show ?thesis by (auto simp: round_half_even_def Let_def abs_le_iff)
qed

lemma round_half_even_int [simp]: "round_half_even (of_int n) = n"
  by (simp add: round_half_even_def)

lemma round_half_even_floor_or_ceil:
  "round_half_even x = \<lfloor>x\<rfloor> \<or> (round_half_even x = \<lfloor>x\<rfloor> + 1 \<and> 1/2 \<le> x - of_int \<lfloor>x\<rfloor>)"
  by (auto simp: round_half_even_def Let_def)

lemma round_half_even_mono:
  assumes "x \<le> y"
  shows "round_half_even x \<le> round_half_even y"
proof (cases "\<lfloor>x\<rfloor> = \<lfloor>y\<rfloor>")
  case True
  with assms show ?thesis by (auto simp: round_half_even_def Let_def)
next
  case False
  with floor_mono[OF assms] have "\<lfloor>x\<rfloor> + 1 \<le> \<lfloor>y\<rfloor>" by linarith
  then show ?thesis
    using round_half_even_floor_or_ceil[of x] round_half_even_floor_or_ceil[of y] by linarith
qed

lemma round2_near: "\<bar>round2 x - x\<bar> \<le> 1/200"
  using round_half_even_near[of "x * 100"] by (simp add: round2_def abs_le_iff field_simps)

lemma round2_mono: "x \<le> y \<Longrightarrow> round2 x \<le> round2 y"
  by (simp add: round2_def divide_right_mono round_half_even_mono)

lemma round2_0 [simp]: "round2 0 = 0"
  using round_half_even_int[of 0] by (simp add: round2_def)

lemma round2_1 [simp]: "round2 1 = 1"
  using round_half_even_int[of 100] by (simp add: round2_def)

lemma round2_idem [simp]: "round2 (round2 x) = round2 x"
  by (simp add: round2_def)

lemma round2_nonneg: "0 \<le> x \<Longrightarrow> 0 \<le> round2 x"
  using round2_mono[of 0 x] by simp

lemma round2_le_1: "x \<le> 1 \<Longrightarrow> round2 x \<le> 1"
  using round2_mono[of x 1] by simp

section \<open>Durations\<close>

text \<open>\<open>Duration::as_secs_f64\<close> and \<open>Duration::from_secs_f64\<close>; the latter panics (\<open>None\<close>) on a
  negative argument and on one that overflows the 64-bit count of seconds.\<close>

definition as_secs_f64 :: "duration \<Rightarrow> real" where
  "as_secs_f64 d = real d / 10 ^ 9"

definition from_secs_f64 :: "real \<Rightarrow> duration option" where
  "from_secs_f64 x =
     (if x < 0 \<or> 2 ^ 64 \<le> x then None else Some (nat (round_half_even (x * 10 ^ 9))))"

lemma as_secs_f64_nonneg [simp]: "0 \<le> as_secs_f64 d"
  by (simp add: as_secs_f64_def)

lemma as_secs_f64_mono_iff [simp]: "as_secs_f64 a \<le> as_secs_f64 b \<longleftrightarrow> a \<le> b"
  by (simp add: as_secs_f64_def divide_le_cancel)

lemma as_secs_f64_0_iff [simp]: "as_secs_f64 d = 0 \<longleftrightarrow> d = 0"
  by (simp add: as_secs_f64_def)

lemma round_half_even_nat [simp]: "round_half_even (real n) = int n"
  using round_half_even_int[of "int n"] by simp

text \<open>A number of seconds between two durations converts to a duration between them.\<close>

lemma from_secs_f64_between:
  assumes "as_secs_f64 a \<le> x" "x \<le> as_secs_f64 b" "as_secs_f64 b < 2 ^ 64"
  obtains d where "from_secs_f64 x = Some d" "a \<le> d" "d \<le> b"
proof
  let ?d = "nat (round_half_even (x * 10 ^ 9))"
  have x: "0 \<le> x" using assms(1) as_secs_f64_nonneg[of a] by linarith
  then show "from_secs_f64 x = Some ?d"
    using assms by (simp add: from_secs_f64_def)
  have "real a \<le> x * 10 ^ 9" "x * 10 ^ 9 \<le> real b"
    using assms(1,2) by (simp_all add: as_secs_f64_def field_simps)
  then have "round_half_even (real a) \<le> round_half_even (x * 10 ^ 9)"
    "round_half_even (x * 10 ^ 9) \<le> round_half_even (real b)"
    by (simp_all only: round_half_even_mono)
  then show "a \<le> ?d" "?d \<le> b" by (simp_all add: le_nat_iff nat_le_iff)
qed

section \<open>Positions\<close>

lemma split_at: "k < length ts \<Longrightarrow> ts = take k ts @ ts ! k # drop (Suc k) ts"
  by (rule id_take_nth_drop)

lemma sum_list_split:
  fixes f :: "'a \<Rightarrow> 'b::comm_monoid_add"
  assumes "k < length ts"
  shows "sum_list (map f ts) = sum_list (map f (take k ts)) + f (ts ! k) + sum_list (map f (drop (Suc k) ts))"
  by (subst split_at[OF assms]) (simp add: ac_simps)

lemma sum_list_update_less:
  fixes f :: "'a \<Rightarrow> nat"
  assumes "i < length xs" "f x < f (xs ! i)"
  shows "sum_list (map f (xs[i := x])) < sum_list (map f xs)"
  using assms sum_list_split[OF assms(1), of f] by (simp add: upd_conv_take_nth_drop)

end
