(* ===== verification/Rust_Str.thy ===== *)
theory Rust_Str
  imports Rust_Std
begin

text \<open>
  The \<open>str\<close> and \<open>[u8]\<close> methods the program calls: searching, splitting, trimming, ASCII case,
  decimal numbers, lossy UTF-8. Every function computes; the lemmas give the laws the header and
  address code rests on (a printed number parses back, splitting and joining are inverse, lossy
  decoding keeps ASCII).
\<close>

section \<open>Characters\<close>

definition is_digit :: "char \<Rightarrow> bool" where
  "is_digit c \<longleftrightarrow> 48 \<le> (of_char c :: nat) \<and> (of_char c :: nat) \<le> 57"

definition is_alpha :: "char \<Rightarrow> bool" where
  "is_alpha c \<longleftrightarrow> (65 \<le> (of_char c :: nat) \<and> (of_char c :: nat) \<le> 90) \<or>
     (97 \<le> (of_char c :: nat) \<and> (of_char c :: nat) \<le> 122)"

definition is_ws :: "char \<Rightarrow> bool" where
  "is_ws c \<longleftrightarrow> (of_char c :: nat) \<in> {9, 10, 11, 12, 13, 32}"

definition to_lower :: "char \<Rightarrow> char" where
  "to_lower c = (if 65 \<le> (of_char c :: nat) \<and> (of_char c :: nat) \<le> 90
     then char_of ((of_char c :: nat) + 32) else c)"

definition to_upper :: "char \<Rightarrow> char" where
  "to_upper c = (if 97 \<le> (of_char c :: nat) \<and> (of_char c :: nat) \<le> 122
     then char_of ((of_char c :: nat) - 32) else c)"

definition lowercase :: "string \<Rightarrow> string" where
  "lowercase = map to_lower"

definition uppercase :: "string \<Rightarrow> string" where
  "uppercase = map to_upper"

definition eq_ignore_case :: "string \<Rightarrow> string \<Rightarrow> bool" where
  "eq_ignore_case a b \<longleftrightarrow> lowercase a = lowercase b"

definition CR :: char where "CR = CHR 0x0D"

definition LF :: char where "LF = CHR 0x0A"

definition crlf :: string where "crlf = [CR, LF]"

section \<open>Searching\<close>

definition starts_with :: "string \<Rightarrow> string \<Rightarrow> bool" where
  "starts_with p s \<longleftrightarrow> take (length p) s = p"

definition ends_with :: "string \<Rightarrow> string \<Rightarrow> bool" where
  "ends_with p s \<longleftrightarrow> length p \<le> length s \<and> drop (length s - length p) s = p"

text \<open>\<open>windows(n).position(|w| w == pat)\<close>: the first occurrence of a non-empty pattern.\<close>

fun find_sub :: "string \<Rightarrow> string \<Rightarrow> nat option" where
  "find_sub p [] = (if p = [] then Some 0 else None)"
| "find_sub p (c # s) =
     (if starts_with p (c # s) then Some 0 else map_option Suc (find_sub p s))"

definition contains :: "string \<Rightarrow> string \<Rightarrow> bool" where
  "contains p s \<longleftrightarrow> find_sub p s \<noteq> None"

lemma find_sub_bound: "find_sub p s = Some i \<Longrightarrow> i + length p \<le> length s"
proof (induction s arbitrary: i)
  case Nil
  then show ?case by (simp split: if_splits)
next
  case (Cons c s)
  show ?case
  proof (cases "starts_with p (c # s)")
    case True
    then have "length (take (length p) (c # s)) = length p" by (simp add: starts_with_def)
    with True Cons.prems show ?thesis by simp
  next
    case False
    with Cons.prems obtain j where "find_sub p s = Some j" "i = Suc j" by auto
    with Cons.IH[of j] show ?thesis by simp
  qed
qed

text \<open>\<open>s.matches(pat).count()\<close>: the non-overlapping occurrences, left to right.\<close>

function count_matches :: "string \<Rightarrow> string \<Rightarrow> nat" where
  "count_matches p s =
     (if p = [] then Suc (length s)
      else case find_sub p s of None \<Rightarrow> 0
        | Some i \<Rightarrow> Suc (count_matches p (drop (i + length p) s)))"
  by pat_completeness auto
termination
proof (relation "measure (\<lambda>(p, s). length s)", goal_cases)
  case (2 p s i)
  from 2(1) have "0 < length p" by simp
  with find_sub_bound[OF 2(2)] show ?case by (simp del: length_greater_0_conv)
qed simp

declare count_matches.simps [simp del]

section \<open>Splitting\<close>

fun split_on :: "(char \<Rightarrow> bool) \<Rightarrow> string \<Rightarrow> string list" where
  "split_on f [] = [[]]"
| "split_on f (c # s) =
     (if f c then [] # split_on f s
      else case split_on f s of [] \<Rightarrow> [[c]] | w # ws \<Rightarrow> (c # w) # ws)"

definition split_char :: "char \<Rightarrow> string \<Rightarrow> string list" where
  "split_char c = split_on ((=) c)"

definition split_ws :: "string \<Rightarrow> string list" where
  "split_ws s = filter (\<lambda>w. w \<noteq> []) (split_on is_ws s)"

text \<open>\<open>str::lines\<close>: split after each LF, drop it and a CR before it; no empty last line.\<close>

definition strip_cr :: "string \<Rightarrow> string" where
  "strip_cr l = (if l \<noteq> [] \<and> last l = CR then butlast l else l)"

definition lines :: "string \<Rightarrow> string list" where
  "lines s = (let ps = split_char LF s
     in map strip_cr (butlast ps) @ (if last ps = [] then [] else [last ps]))"

definition split_once :: "string \<Rightarrow> string \<Rightarrow> (string \<times> string) option" where
  "split_once p s = map_option (\<lambda>i. (take i s, drop (i + length p) s)) (find_sub p s)"

definition rsplit_once :: "char \<Rightarrow> string \<Rightarrow> (string \<times> string) option" where
  "rsplit_once c s = map_option (\<lambda>i. (take (length s - Suc i) s, drop (length s - i) s))
     (find_sub [c] (rev s))"

fun splitn :: "nat \<Rightarrow> char \<Rightarrow> string \<Rightarrow> string list" where
  "splitn 0 c s = []"
| "splitn (Suc 0) c s = [s]"
| "splitn (Suc (Suc n)) c s =
     (case split_once [c] s of None \<Rightarrow> [s] | Some (a, b) \<Rightarrow> a # splitn (Suc n) c b)"

definition strip_prefix :: "string \<Rightarrow> string \<Rightarrow> string option" where
  "strip_prefix p s = (if starts_with p s then Some (drop (length p) s) else None)"

definition strip_suffix :: "string \<Rightarrow> string \<Rightarrow> string option" where
  "strip_suffix p s = (if ends_with p s then Some (take (length s - length p) s) else None)"

definition trim_start :: "(char \<Rightarrow> bool) \<Rightarrow> string \<Rightarrow> string" where
  "trim_start f = dropWhile f"

definition trim_end :: "(char \<Rightarrow> bool) \<Rightarrow> string \<Rightarrow> string" where
  "trim_end f s = rev (dropWhile f (rev s))"

definition trim :: "string \<Rightarrow> string" where
  "trim s = trim_end is_ws (trim_start is_ws s)"

fun join :: "string \<Rightarrow> string list \<Rightarrow> string" where
  "join sep [] = []"
| "join sep [w] = w"
| "join sep (w # v # ws) = w @ sep @ join sep (v # ws)"

section \<open>Decimal numbers\<close>

definition digit :: "nat \<Rightarrow> char" where
  "digit n = char_of (48 + n)"

fun show_nat :: "nat \<Rightarrow> string" where
  "show_nat n = (if n < 10 then [digit n] else show_nat (n div 10) @ [digit (n mod 10)])"

declare show_nat.simps [simp del]

definition digits_val :: "string \<Rightarrow> nat" where
  "digits_val s = foldl (\<lambda>a c. 10 * a + (of_char c - 48)) 0 s"

text \<open>\<open>str::parse\<close> for an unsigned type with greatest value \<open>m\<close>: an optional plus sign, at least
  one digit, only digits, in range. Leading zeros are allowed.\<close>

definition strip_plus :: "string \<Rightarrow> string" where
  "strip_plus s = (case s of [] \<Rightarrow> [] | c # cs \<Rightarrow> if c = CHR ''+'' then cs else s)"

definition parse_uint :: "nat \<Rightarrow> string \<Rightarrow> nat option" where
  "parse_uint m s =
     (let d = strip_plus s
      in if d = [] \<or> \<not> list_all is_digit d \<or> m < digits_val d then None
         else Some (digits_val d))"

definition parse_u8 :: "string \<Rightarrow> u8 option" where
  "parse_u8 s = map_option of_nat (parse_uint 255 s)"

definition parse_u16 :: "string \<Rightarrow> u16 option" where
  "parse_u16 s = map_option of_nat (parse_uint 65535 s)"

definition show_word :: "'a::len word \<Rightarrow> string" where
  "show_word w = show_nat (unat w)"

section \<open>UTF-8\<close>

definition between :: "nat \<Rightarrow> nat \<Rightarrow> char \<Rightarrow> bool" where
  "between lo hi c \<longleftrightarrow> lo \<le> of_char c \<and> of_char c \<le> hi"

definition replacement :: string where
  "replacement = [CHR 0xEF, CHR 0xBF, CHR 0xBD]"

text \<open>The legal second bytes after a given first byte of a sequence of three or four.\<close>

definition second_ok :: "char \<Rightarrow> char \<Rightarrow> bool" where
  "second_ok a b =
     (let n = (of_char a :: nat)
      in if n = 0xE0 then between 0xA0 0xBF b
         else if n = 0xED then between 0x80 0x9F b
         else if n = 0xF0 then between 0x90 0xBF b
         else if n = 0xF4 then between 0x80 0x8F b
         else between 0x80 0xBF b)"

text \<open>The length of the valid sequence at the head of the input (0 when it is invalid) and the
  number of bytes consumed by one step of the decoder.\<close>

definition utf8_step :: "string \<Rightarrow> nat \<times> nat" where
  "utf8_step s =
     (case s of [] \<Rightarrow> (0, 0)
      | a # r \<Rightarrow>
         (if between 0 0x7F a then (1, 1)
          else if between 0xC2 0xDF a then
            (case r of b # _ \<Rightarrow> if between 0x80 0xBF b then (2, 2) else (0, 1) | [] \<Rightarrow> (0, 1))
          else if between 0xE0 0xEF a then
            (case r of b # r' \<Rightarrow>
               if second_ok a b then
                 (case r' of c # _ \<Rightarrow> if between 0x80 0xBF c then (3, 3) else (0, 2) | [] \<Rightarrow> (0, 2))
               else (0, 1)
             | [] \<Rightarrow> (0, 1))
          else if between 0xF0 0xF4 a then
            (case r of b # r' \<Rightarrow>
               if second_ok a b then
                 (case r' of c # r'' \<Rightarrow>
                    if between 0x80 0xBF c then
                      (case r'' of d # _ \<Rightarrow> if between 0x80 0xBF d then (4, 4) else (0, 3)
                       | [] \<Rightarrow> (0, 3))
                    else (0, 2)
                  | [] \<Rightarrow> (0, 2))
               else (0, 1)
             | [] \<Rightarrow> (0, 1))
          else (0, 1)))"

fun utf8_lossy_fuel :: "nat \<Rightarrow> string \<Rightarrow> string" where
  "utf8_lossy_fuel 0 s = []"
| "utf8_lossy_fuel (Suc n) s =
     (if s = [] then []
      else let (v, k) = utf8_step s
        in (if 0 < v then take v s else replacement) @ utf8_lossy_fuel n (drop k s))"

text \<open>Each step consumes at least one byte, so the length of the input is enough fuel.\<close>

definition utf8_lossy :: "string \<Rightarrow> string" where
  "utf8_lossy s = utf8_lossy_fuel (length s) s"

fun utf8_valid_fuel :: "nat \<Rightarrow> string \<Rightarrow> bool" where
  "utf8_valid_fuel 0 s \<longleftrightarrow> s = []"
| "utf8_valid_fuel (Suc n) s \<longleftrightarrow>
     s = [] \<or> (let (v, k) = utf8_step s in 0 < v \<and> utf8_valid_fuel n (drop k s))"

definition utf8_valid :: "string \<Rightarrow> bool" where
  "utf8_valid s = utf8_valid_fuel (length s) s"

section \<open>Laws\<close>

lemma find_sub_sound: "find_sub p s = Some i \<Longrightarrow> take (length p) (drop i s) = p"
  by (induction s arbitrary: i) (auto simp: starts_with_def split: if_splits)

lemma find_sub_split: "find_sub p s = Some i \<Longrightarrow> s = take i s @ p @ drop (i + length p) s"
  by (metis add.commute append_take_drop_id drop_drop find_sub_sound)

lemma find_sub_here: "find_sub p (p @ s) = Some 0"
  by (cases p; cases s) (auto simp: starts_with_def)

lemma find_sub_append_first:
  "find_sub p s = Some i \<Longrightarrow> find_sub p (s @ t) = Some i"
proof (induction s arbitrary: i)
  case Nil
  then show ?case by (cases t) (auto simp: starts_with_def split: if_splits)
next
  case (Cons c s)
  show ?case
  proof (cases "starts_with p (c # s)")
    case True
    moreover have "length p \<le> length (c # s)"
      using find_sub_bound[OF Cons.prems] by simp
    ultimately have "starts_with p (c # s @ t)"
      by (cases p) (auto simp: starts_with_def)
    with True Cons.prems show ?thesis by simp
  next
    case False
    with Cons.prems obtain j where j: "find_sub p s = Some j" "i = Suc j" by auto
    have "length p \<le> length (c # s)"
      using find_sub_bound[OF j(1)] by simp
    with False have "\<not> starts_with p (c # s @ t)"
      by (cases p) (auto simp: starts_with_def)
    with False j Cons.IH[OF j(1)] show ?thesis by simp
  qed
qed

lemma split_on_ne [simp]: "split_on f s \<noteq> []"
  by (induction s) (auto split: list.splits)

lemma split_on_free:
  "w \<in> set (split_on f s) \<Longrightarrow> c \<in> set w \<Longrightarrow> \<not> f c"
  by (induction s arbitrary: w) (fastforce split: if_splits list.splits)+

lemma split_char_join: "join [c] (split_char c s) = s"
proof (induction s)
  case Nil
  then show ?case by (simp add: split_char_def)
next
  case (Cons x s)
  obtain w ws where ws: "split_on ((=) c) s = w # ws"
    using split_on_ne[of "(=) c" s] by (cases "split_on ((=) c) s") blast+
  with Cons.IH show ?case
    by (cases ws) (auto simp: split_char_def)
qed

lemma of_char_digit [simp]: "n < 10 \<Longrightarrow> (of_char (digit n) :: nat) = 48 + n"
  by (simp add: digit_def)

lemma is_digit_digit [simp]: "n < 10 \<Longrightarrow> is_digit (digit n)"
  by (simp add: is_digit_def)

lemma show_nat_digits: "list_all is_digit (show_nat n)"
proof (induction n rule: show_nat.induct)
  case (1 n)
  then show ?case by (subst show_nat.simps) auto
qed

lemma show_nat_ne [simp]: "show_nat n \<noteq> []"
  by (subst show_nat.simps) simp

lemma digits_val_snoc [simp]: "digits_val (s @ [c]) = 10 * digits_val s + (of_char c - 48)"
  by (simp add: digits_val_def)

lemma digits_val_show [simp]: "digits_val (show_nat n) = n"
proof (induction n rule: show_nat.induct)
  case (1 n)
  show ?case
  proof (cases "n < 10")
    case True
    then show ?thesis by (subst show_nat.simps) (simp add: digits_val_def)
  next
    case False
    then have "digits_val (show_nat n) = 10 * digits_val (show_nat (n div 10)) + n mod 10"
      by (subst show_nat.simps) simp
    also have "\<dots> = n" using 1 False by simp
    finally show ?thesis .
  qed
qed

lemma strip_plus_show [simp]: "strip_plus (show_nat n) = show_nat n"
proof -
  obtain c cs where s: "show_nat n = c # cs" by (cases "show_nat n") auto
  with show_nat_digits[of n] have "is_digit c" by simp
  then have "c \<noteq> CHR ''+''" by (auto simp: is_digit_def)
  with s show ?thesis by (simp add: strip_plus_def)
qed

lemma parse_uint_show: "parse_uint m (show_nat n) = (if n \<le> m then Some n else None)"
  using show_nat_digits[of n] by (simp add: parse_uint_def)

lemma parse_uint_le: "parse_uint m s = Some n \<Longrightarrow> n \<le> m"
  by (auto simp: parse_uint_def Let_def split: if_splits)

lemma parse_u16_show [simp]: "parse_u16 (show_word (p :: u16)) = Some p"
  using unsigned_less[where 'a = nat, of p] by (simp add: parse_u16_def show_word_def parse_uint_show)

lemma parse_u8_show [simp]: "parse_u8 (show_word (b :: u8)) = Some b"
  using unsigned_less[where 'a = nat, of b] by (simp add: parse_u8_def show_word_def parse_uint_show)

definition ascii :: "string \<Rightarrow> bool" where
  "ascii s = list_all (between 0 0x7F) s"

lemma utf8_lossy_fuel_ascii: "ascii s \<Longrightarrow> length s \<le> n \<Longrightarrow> utf8_lossy_fuel n s = s"
proof (induction n arbitrary: s)
  case 0
  then show ?case by simp
next
  case (Suc n)
  show ?case
  proof (cases s)
    case Nil
    then show ?thesis by simp
  next
    case (Cons a r)
    with Suc.prems have "utf8_step s = (1, 1)" by (simp add: utf8_step_def ascii_def)
    with Suc.IH[of r] Suc.prems Cons show ?thesis by (simp add: ascii_def)
  qed
qed

lemma utf8_lossy_ascii: "ascii s \<Longrightarrow> utf8_lossy s = s"
  by (simp add: utf8_lossy_def utf8_lossy_fuel_ascii)

lemma utf8_step_le: "fst (utf8_step s) > 0 \<Longrightarrow> fst (utf8_step s) = snd (utf8_step s)"
  by (auto simp: utf8_step_def split: list.splits if_splits)

lemma utf8_lossy_fuel_valid: "utf8_valid_fuel n s \<Longrightarrow> utf8_lossy_fuel n s = s"
proof (induction n arbitrary: s)
  case 0
  then show ?case by simp
next
  case (Suc n)
  then show ?case
    using utf8_step_le[of s]
    by (auto simp: Let_def split: prod.splits)
qed

lemma utf8_lossy_valid: "utf8_valid s \<Longrightarrow> utf8_lossy s = s"
  by (simp add: utf8_valid_def utf8_lossy_def utf8_lossy_fuel_valid)

lemma lowercase_idem [simp]: "lowercase (lowercase s) = lowercase s"
  by (simp add: lowercase_def to_lower_def comp_def)

lemma eq_ignore_case_refl [simp]: "eq_ignore_case s s"
  by (simp add: eq_ignore_case_def)

text \<open>The defining equations, to evaluate a function on a literal.\<close>

lemmas str_eval = Let_def crlf_def CR_def LF_def utf8_valid_def utf8_lossy_def utf8_step_def between_def
  trim_def trim_start_def trim_end_def is_ws_def is_digit_def parse_uint_def strip_plus_def digits_val_def
  starts_with_def ends_with_def split_char_def split_ws_def lines_def strip_cr_def lowercase_def to_lower_def
  strip_prefix_def strip_suffix_def split_once_def rsplit_once_def eq_ignore_case_def contains_def

lemma split_on_word: "\<forall>c \<in> set w. \<not> f c \<Longrightarrow> split_on f w = [w]"
  by (induction w) auto

lemma split_on_sep: "\<forall>c \<in> set w. \<not> f c \<Longrightarrow> f c \<Longrightarrow> split_on f (w @ c # s) = w # split_on f s"
  by (induction w) auto

lemma split_join: "\<forall>w \<in> set ws. c \<notin> set w \<Longrightarrow> ws \<noteq> [] \<Longrightarrow> split_char c (join [c] ws) = ws"
proof (induction "[c]" ws rule: join.induct)
  case (2 w)
  have "\<forall>x \<in> set w. \<not> c = x \<Longrightarrow> split_on ((=) c) w = [w]" by (induction w) auto
  with 2 show ?case by (auto simp: split_char_def)
next
  case (3 w v ws)
  have "c \<notin> set w \<Longrightarrow> split_on ((=) c) (w @ c # s) = w # split_on ((=) c) s" for s
    by (induction w) auto
  with 3 show ?case by (auto simp: split_char_def)
qed simp

end
