(* ===== verification/Types.thy ===== *)
theory Types
  imports Rust_Str
begin

text \<open>
  The shared vocabulary, \<^verbatim>\<open>src/src/types.rs\<close> and \<^verbatim>\<open>src/src/error.rs\<close>: protocols, anonymity
  levels, schemes, type specifications, capabilities, and the two error types. The constructors
  are the source's; where two enums share a constructor name the second carries the initial of its
  type. The derived orders of \<^verbatim>\<open>Proto\<close> and \<^verbatim>\<open>AnonLevel\<close> are the declaration orders.
\<close>

section \<open>Protocols\<close>

datatype proto = Http | Https | Socks4 | Socks5 | Connect80 | Connect25

definition proto_ALL :: "proto list" where
  "proto_ALL = [Http, Https, Socks4, Socks5, Connect80, Connect25]"

fun proto_ord :: "proto \<Rightarrow> nat" where
  "proto_ord Http = 0"
| "proto_ord Https = 1"
| "proto_ord Socks4 = 2"
| "proto_ord Socks5 = 3"
| "proto_ord Connect80 = 4"
| "proto_ord Connect25 = 5"

instantiation proto :: linorder
begin

definition less_eq_proto :: "proto \<Rightarrow> proto \<Rightarrow> bool" where
  "less_eq_proto a b \<longleftrightarrow> proto_ord a \<le> proto_ord b"

definition less_proto :: "proto \<Rightarrow> proto \<Rightarrow> bool" where
  "less_proto a b \<longleftrightarrow> proto_ord a < proto_ord b"

instance
proof
  fix a b :: proto
  show "a \<le> b \<Longrightarrow> b \<le> a \<Longrightarrow> a = b"
    by (cases a; cases b) (simp_all add: less_eq_proto_def)
qed (auto simp: less_eq_proto_def less_proto_def)

end

fun proto_str :: "proto \<Rightarrow> string" where
  "proto_str Http = ''HTTP''"
| "proto_str Https = ''HTTPS''"
| "proto_str Socks4 = ''SOCKS4''"
| "proto_str Socks5 = ''SOCKS5''"
| "proto_str Connect80 = ''CONNECT:80''"
| "proto_str Connect25 = ''CONNECT:25''"

definition checks_anon_level :: "proto \<Rightarrow> bool" where
  "checks_anon_level p \<longleftrightarrow> p = Http"

definition uses_full_path :: "proto \<Rightarrow> bool" where
  "uses_full_path p \<longleftrightarrow> p = Http"

definition display_order_key :: "proto \<Rightarrow> nat \<times> nat" where
  "display_order_key p = (let s = proto_str p in (length s, of_char (s ! (length s - 1))))"

definition proto_from_str :: "string \<Rightarrow> proto option" where
  "proto_from_str s = find (\<lambda>p. eq_ignore_case (proto_str p) s) proto_ALL"

section \<open>Anonymity levels, schemes\<close>

datatype anon_level = Transparent | Anonymous | High

fun anon_ord :: "anon_level \<Rightarrow> nat" where
  "anon_ord Transparent = 0"
| "anon_ord Anonymous = 1"
| "anon_ord High = 2"

instantiation anon_level :: linorder
begin

definition less_eq_anon_level :: "anon_level \<Rightarrow> anon_level \<Rightarrow> bool" where
  "less_eq_anon_level a b \<longleftrightarrow> anon_ord a \<le> anon_ord b"

definition less_anon_level :: "anon_level \<Rightarrow> anon_level \<Rightarrow> bool" where
  "less_anon_level a b \<longleftrightarrow> anon_ord a < anon_ord b"

instance
proof
  fix a b :: anon_level
  show "a \<le> b \<Longrightarrow> b \<le> a \<Longrightarrow> a = b"
    by (cases a; cases b) (simp_all add: less_eq_anon_level_def)
qed (auto simp: less_eq_anon_level_def less_anon_level_def)

end

fun anon_str :: "anon_level \<Rightarrow> string" where
  "anon_str Transparent = ''Transparent''"
| "anon_str Anonymous = ''Anonymous''"
| "anon_str High = ''High''"

definition anon_from_str :: "string \<Rightarrow> anon_level option" where
  "anon_from_str s = find (\<lambda>l. eq_ignore_case (anon_str l) s) [Transparent, Anonymous, High]"

datatype scheme = SHttp | SHttps

datatype judge_scheme = JHttp | JHttps | JSmtp

definition judge_scheme_of :: "proto \<Rightarrow> judge_scheme" where
  "judge_scheme_of p = (case p of Https \<Rightarrow> JHttps | Connect25 \<Rightarrow> JSmtp | _ \<Rightarrow> JHttp)"

fun default_port :: "judge_scheme \<Rightarrow> u16" where
  "default_port JHttp = 80"
| "default_port JHttps = 443"
| "default_port JSmtp = 25"

section \<open>Type specifications and capabilities\<close>

record type_spec =
  ts_proto :: proto
  ts_levels :: "anon_level list option"

definition ts_any :: "proto \<Rightarrow> type_spec" where
  "ts_any p = \<lparr>ts_proto = p, ts_levels = None\<rparr>"

definition ts_accepts :: "type_spec \<Rightarrow> proto \<Rightarrow> anon_level option \<Rightarrow> bool" where
  "ts_accepts t p level \<longleftrightarrow>
     (if ts_proto t \<noteq> p then False
      else case (ts_levels t, level) of
        (None, _) \<Rightarrow> True
      | (Some want, Some got) \<Rightarrow> got \<in> set want
      | (Some _, None) \<Rightarrow> False)"

record caps =
  cookie_echo :: bool
  referer_echo :: bool

definition caps_default :: caps where
  "caps_default = \<lparr>cookie_echo = False, referer_echo = False\<rparr>"

section \<open>Errors\<close>

datatype proxy_error = ConnFailed | Timeout | Reset | EmptyRecv | BadStatus | BadResponse
  | ErrorOnStream | DisallowedStatus u16 | Resolve

fun err_str :: "proxy_error \<Rightarrow> string" where
  "err_str ConnFailed = ''connection_failed''"
| "err_str Timeout = ''connection_timeout''"
| "err_str Reset = ''connection_is_reset''"
| "err_str EmptyRecv = ''empty_response''"
| "err_str BadStatus = ''bad_status''"
| "err_str BadResponse = ''bad_response''"
| "err_str ErrorOnStream = ''error_on_stream''"
| "err_str (DisallowedStatus _) = ''disallowed_status''"
| "err_str Resolve = ''resolve_failed''"

datatype error = NoJudges | NoTypes | NoProviders | ExtIpUnknown | Config string | Io string
  | Persist string

section \<open>Properties\<close>

lemma proto_ALL_complete [simp]: "p \<in> set proto_ALL"
  by (cases p) (simp_all add: proto_ALL_def)

lemma find_first_iff:
  assumes "distinct xs" "\<And>a b. a \<in> set xs \<Longrightarrow> b \<in> set xs \<Longrightarrow> P a \<Longrightarrow> P b \<Longrightarrow> a = b"
  shows "find P xs = Some x \<longleftrightarrow> x \<in> set xs \<and> P x"
  using assms by (induction xs) auto

lemma proto_str_ci_inj: "eq_ignore_case (proto_str p) (proto_str q) \<longleftrightarrow> p = q"
  by (cases p; cases q) (simp_all add: eq_ignore_case_def lowercase_def to_lower_def)

lemma anon_str_ci_inj: "eq_ignore_case (anon_str p) (anon_str q) \<longleftrightarrow> p = q"
  by (cases p; cases q) (simp_all add: eq_ignore_case_def lowercase_def to_lower_def)

lemma proto_from_str_iff:
  "proto_from_str s = Some p \<longleftrightarrow> eq_ignore_case (proto_str p) s"
proof -
  have "find (\<lambda>p. eq_ignore_case (proto_str p) s) proto_ALL = Some p \<longleftrightarrow>
      p \<in> set proto_ALL \<and> eq_ignore_case (proto_str p) s"
    by (rule find_first_iff, simp add: proto_ALL_def)
      (metis eq_ignore_case_def proto_str_ci_inj)
  then show ?thesis by (simp add: proto_from_str_def)
qed

lemma anon_from_str_iff:
  "anon_from_str s = Some l \<longleftrightarrow> eq_ignore_case (anon_str l) s"
proof -
  have "find (\<lambda>l. eq_ignore_case (anon_str l) s) [Transparent, Anonymous, High] = Some l \<longleftrightarrow>
      l \<in> set [Transparent, Anonymous, High] \<and> eq_ignore_case (anon_str l) s"
    by (rule find_first_iff, simp) (metis eq_ignore_case_def anon_str_ci_inj)
  then show ?thesis by (cases l) (simp_all add: anon_from_str_def)
qed

lemma proto_from_str_str [simp]: "proto_from_str (proto_str p) = Some p"
  by (simp add: proto_from_str_iff)

lemma anon_from_str_str [simp]: "anon_from_str (anon_str l) = Some l"
  by (simp add: anon_from_str_iff)

lemma anon_str_ne [simp]: "anon_str l \<noteq> []"
  by (cases l) simp_all

lemma err_str_eq_iff:
  "err_str e = err_str f \<longleftrightarrow> e = f \<or> (\<exists>a b. e = DisallowedStatus a \<and> f = DisallowedStatus b)"
  by (cases e; cases f) auto

end
