(* ===== verification/Net_Addr.thy ===== *)
theory Net_Addr
  imports Types
begin

text \<open>
  Addresses. \<open>IpAddr\<close> with its \<open>Display\<close> and \<open>FromStr\<close> as the standard library defines them (the
  strict IPv4 grammar without leading zeros, RFC 5952 output for IPv6), and the program's own
  address functions: \<^verbatim>\<open>parse_ip_lenient\<close> (\<^verbatim>\<open>src/src/resolver.rs\<close>), \<^verbatim>\<open>canonicalize_ip\<close>
  (\<^verbatim>\<open>src/src/utils.rs\<close>), \<^verbatim>\<open>split_host_port\<close> (\<^verbatim>\<open>src/src/server.rs\<close>) and \<^verbatim>\<open>dnsbl_query\<close>
  (\<^verbatim>\<open>src/src/checker.rs\<close>).
\<close>

section \<open>IpAddr\<close>

datatype ip_addr = V4 u8 u8 u8 u8 | V6 "128 word"

type_synonym sock_addr = "ip_addr \<times> u16"

text \<open>The eight 16-bit groups, as non-negative integers.\<close>

definition segments :: "128 word \<Rightarrow> int list" where
  "segments w = map (\<lambda>i. uint w div 2 ^ (112 - 16 * i) mod 65536) [0..<8]"

definition of_segments :: "int list \<Rightarrow> 128 word" where
  "of_segments gs = word_of_int (foldl (\<lambda>a g. 65536 * a + g) 0 gs)"

definition hex_digit :: "int \<Rightarrow> char" where
  "hex_digit n = char_of (if n < 10 then 48 + n else 87 + n)"

text \<open>A 16-bit group in lower-case hexadecimal without leading zeros.\<close>

definition show_hex :: "int \<Rightarrow> string" where
  "show_hex n =
     (if n < 16 then [hex_digit n]
      else if n < 256 then [hex_digit (n div 16), hex_digit (n mod 16)]
      else if n < 4096 then [hex_digit (n div 256), hex_digit (n div 16 mod 16), hex_digit (n mod 16)]
      else [hex_digit (n div 4096), hex_digit (n div 256 mod 16), hex_digit (n div 16 mod 16),
        hex_digit (n mod 16)])"

definition show_v4 :: "u8 \<Rightarrow> u8 \<Rightarrow> u8 \<Rightarrow> u8 \<Rightarrow> string" where
  "show_v4 a b c d = join ''.'' [show_word a, show_word b, show_word c, show_word d]"

text \<open>The longest run of zero groups, the first of them on a tie: (start, length).\<close>

fun zero_span :: "nat \<Rightarrow> nat \<times> nat \<Rightarrow> nat \<times> nat \<Rightarrow> int list \<Rightarrow> nat \<times> nat" where
  "zero_span i cur longest [] = longest"
| "zero_span i (cs, cl) longest (g # gs) =
     (if g = 0 then
        let cur = (if cl = 0 then i else cs, Suc cl)
        in zero_span (Suc i) cur (if snd longest < snd cur then cur else longest) gs
      else zero_span (Suc i) (0, 0) longest gs)"

definition fmt_groups :: "int list \<Rightarrow> string" where
  "fmt_groups gs = join '':'' (map show_hex gs)"

definition show_v6 :: "128 word \<Rightarrow> string" where
  "show_v6 w =
     (let gs = segments w
      in if take 6 gs = [0, 0, 0, 0, 0, 65535] then
           ''::ffff:'' @ show_v4 (word_of_int (gs ! 6 div 256)) (word_of_int (gs ! 6 mod 256))
             (word_of_int (gs ! 7 div 256)) (word_of_int (gs ! 7 mod 256))
         else let (st, len) = zero_span 0 (0, 0) (0, 0) gs
           in if 1 < len then fmt_groups (take st gs) @ ''::'' @ fmt_groups (drop (st + len) gs)
              else fmt_groups gs)"

fun show_ip :: "ip_addr \<Rightarrow> string" where
  "show_ip (V4 a b c d) = show_v4 a b c d"
| "show_ip (V6 w) = show_v6 w"

text \<open>The standard library's address parser: each reader returns the value and the rest of the
  input, or \<open>None\<close> with the input restored.\<close>

definition is_hex :: "char \<Rightarrow> bool" where
  "is_hex c \<longleftrightarrow> is_digit c \<or> between 65 70 c \<or> between 97 102 c"

definition hex_val :: "char \<Rightarrow> int" where
  "hex_val c = (if is_digit c then of_char c - 48
     else if between 65 70 c then of_char c - 55 else of_char c - 87)"

definition read_dec :: "string \<Rightarrow> (u8 \<times> string) option" where
  "read_dec s =
     (let ds = takeWhile is_digit s
      in if ds = [] \<or> 3 < length ds \<or> (1 < length ds \<and> hd ds = CHR ''0'') \<or> 255 < digits_val ds
         then None else Some (of_nat (digits_val ds), dropWhile is_digit s))"

definition read_hex :: "string \<Rightarrow> (int \<times> string) option" where
  "read_hex s =
     (let ds = takeWhile is_hex s
      in if ds = [] \<or> 4 < length ds then None
         else Some (foldl (\<lambda>a c. 16 * a + hex_val c) 0 ds, dropWhile is_hex s))"

definition read_sep :: "char \<Rightarrow> nat \<Rightarrow> (string \<Rightarrow> ('a \<times> string) option) \<Rightarrow> string \<Rightarrow> ('a \<times> string) option"
  where
  "read_sep c i rd s =
     (if i = 0 then rd s
      else case s of [] \<Rightarrow> None | x # r \<Rightarrow> if x = c then rd r else None)"

definition read_v4 :: "string \<Rightarrow> ((u8 \<times> u8 \<times> u8 \<times> u8) \<times> string) option" where
  "read_v4 s =
     Option.bind (read_dec s) (\<lambda>(a, s1).
     Option.bind (read_sep CHR ''.'' 1 read_dec s1) (\<lambda>(b, s2).
     Option.bind (read_sep CHR ''.'' 2 read_dec s2) (\<lambda>(c, s3).
     Option.bind (read_sep CHR ''.'' 3 read_dec s3) (\<lambda>(d, s4). Some ((a, b, c, d), s4)))))"

text \<open>Up to \<open>k\<close> more groups, the next one at position \<open>i\<close>: the groups read, whether the last two
  came from an embedded IPv4 address, and the rest.\<close>

fun read_groups :: "nat \<Rightarrow> nat \<Rightarrow> string \<Rightarrow> int list \<times> bool \<times> string" where
  "read_groups 0 i s = ([], False, s)"
| "read_groups (Suc k) i s =
     (case (if 0 < k then read_sep CHR '':'' i read_v4 s else None) of
        Some ((a, b, c, d), r) \<Rightarrow>
          ([256 * uint a + uint b, 256 * uint c + uint d], True, r)
      | None \<Rightarrow>
         (case read_sep CHR '':'' i read_hex s of
            None \<Rightarrow> ([], False, s)
          | Some (g, r) \<Rightarrow>
             (case read_groups k (Suc i) r of (gs, v4, r') \<Rightarrow> (g # gs, v4, r'))))"

definition read_v6 :: "string \<Rightarrow> (128 word \<times> string) option" where
  "read_v6 s =
     (case read_groups 8 0 s of (head, v4, r) \<Rightarrow>
        if length head = 8 then Some (of_segments head, r)
        else if v4 then None
        else if \<not> starts_with ''::'' r then None
        else case read_groups (8 - Suc (length head)) 0 (drop 2 r) of (tail, _, r') \<Rightarrow>
          Some (of_segments
            (head @ replicate (8 - length head - length tail) 0 @ tail), r'))"

definition parse_ip :: "string \<Rightarrow> ip_addr option" where
  "parse_ip s =
     (case read_v4 s of
        Some ((a, b, c, d), r) \<Rightarrow>
          if r = [] then Some (V4 a b c d)
          else (case read_v6 s of Some (w, r') \<Rightarrow> if r' = [] then Some (V6 w) else None
                | None \<Rightarrow> None)
      | None \<Rightarrow>
         (case read_v6 s of Some (w, r') \<Rightarrow> if r' = [] then Some (V6 w) else None | None \<Rightarrow> None))"

fun is_unspecified :: "ip_addr \<Rightarrow> bool" where
  "is_unspecified (V4 a b c d) \<longleftrightarrow> a = 0 \<and> b = 0 \<and> c = 0 \<and> d = 0"
| "is_unspecified (V6 w) \<longleftrightarrow> w = 0"

section \<open>The program's address functions\<close>

definition parse_ip_lenient :: "string \<Rightarrow> ip_addr option" where
  "parse_ip_lenient host =
     (if host = [] then None
      else case parse_ip host of Some ip \<Rightarrow> Some ip
      | None \<Rightarrow>
        if CHR ''.'' \<in> set host \<and> CHR '':'' \<notin> set host then
          (case map parse_u8 (split_char CHR ''.'' host) of
             [Some a, Some b, Some c, Some d] \<Rightarrow> Some (V4 a b c d)
           | _ \<Rightarrow> None)
        else None)"

definition host_is_ip :: "string \<Rightarrow> bool" where
  "host_is_ip host \<longleftrightarrow> parse_ip_lenient host \<noteq> None"

definition canonicalize_ip :: "string \<Rightarrow> string option" where
  "canonicalize_ip s =
     (case split_once ''%'' s of
        Some (base, zone) \<Rightarrow>
          (case parse_ip base of
             Some (V6 w) \<Rightarrow> Some (show_v6 w @ ''%'' @ zone)
           | _ \<Rightarrow> None)
      | None \<Rightarrow> map_option show_ip (parse_ip s))"

definition split_host_port :: "string \<Rightarrow> u16 \<Rightarrow> string \<times> u16" where
  "split_host_port s dflt =
     (let plain = (case rsplit_once CHR '':'' s of
          Some (h, p) \<Rightarrow>
            if h \<noteq> [] then (h, case parse_u16 p of Some n \<Rightarrow> n | None \<Rightarrow> dflt) else (s, dflt)
        | None \<Rightarrow> (s, dflt))
      in case strip_prefix ''['' s of
           Some rest \<Rightarrow>
             (case split_once '']:'' rest of
                Some (h, p) \<Rightarrow> (h, case parse_u16 p of Some n \<Rightarrow> n | None \<Rightarrow> dflt)
              | None \<Rightarrow>
                 (case strip_suffix '']'' rest of Some h \<Rightarrow> (h, dflt) | None \<Rightarrow> plain))
         | None \<Rightarrow> plain)"

fun dnsbl_query :: "ip_addr \<Rightarrow> string \<Rightarrow> string option" where
  "dnsbl_query (V4 a b c d) zone =
     Some (join ''.'' [show_word d, show_word c, show_word b, show_word a, zone])"
| "dnsbl_query (V6 _) zone = None"

section \<open>Lemmas\<close>

lemma digit_eq_0: "n < 10 \<Longrightarrow> digit n = CHR ''0'' \<Longrightarrow> n = 0"
  using of_char_digit[of n] by simp

lemma hd_show_nat: "0 < n \<Longrightarrow> hd (show_nat n) \<noteq> CHR ''0''"
proof (induction n rule: show_nat.induct)
  case (1 n)
  then show ?case by (subst show_nat.simps) (auto dest: digit_eq_0)
qed

lemma show_nat_small: "n < 256 \<Longrightarrow>
  length (show_nat n) \<le> 3 \<and> (1 < length (show_nat n) \<longrightarrow> hd (show_nat n) \<noteq> CHR ''0'')"
proof -
  assume n: "n < 256"
  have "length (show_nat n) \<le> 3"
    using n by (simp add: show_nat.simps[of n] show_nat.simps[of "n div 10"]
        show_nat.simps[of "n div 100"] div_mult2_eq[symmetric])
  moreover have "n = 0 \<Longrightarrow> length (show_nat n) = 1" by (simp add: show_nat.simps)
  ultimately show ?thesis using hd_show_nat[of n] by (cases "n = 0") auto
qed

lemma takeWhile_show_nat:
  "s = [] \<or> \<not> is_digit (hd s) \<Longrightarrow> takeWhile is_digit (show_nat n @ s) = show_nat n"
  "s = [] \<or> \<not> is_digit (hd s) \<Longrightarrow> dropWhile is_digit (show_nat n @ s) = s"
  using show_nat_digits[of n]
  by (cases s; simp add: list_all_iff takeWhile_append dropWhile_append)+

lemma read_dec_show:
  "s = [] \<or> \<not> is_digit (hd s) \<Longrightarrow> read_dec (show_word (b :: u8) @ s) = Some (b, s)"
  using unsigned_less[where 'a = nat, of b] show_nat_small[of "unat b"]
  by (auto simp: read_dec_def show_word_def takeWhile_show_nat Let_def)

lemma read_v4_show: "s = [] \<or> \<not> is_digit (hd s) \<Longrightarrow>
  read_v4 (show_v4 a b c d @ s) = Some ((a, b, c, d), s)"
  by (simp add: read_v4_def show_v4_def read_dec_show read_sep_def is_digit_def)

lemma parse_ip_show_v4: "parse_ip (show_v4 a b c d) = Some (V4 a b c d)"
  using read_v4_show[of "[]" a b c d] by (simp add: parse_ip_def)

lemma canonicalize_ip_no_zone:
  "split_once ''%'' s = None \<Longrightarrow> canonicalize_ip s = map_option show_ip (parse_ip s)"
  by (simp add: canonicalize_ip_def)

section \<open>Host and port\<close>

lemma find_sub_char: "c \<notin> set a \<Longrightarrow> find_sub [c] (a @ c # b) = Some (length a)"
  by (induction a) (auto simp: starts_with_def)

lemma rsplit_once_last: "c \<notin> set b \<Longrightarrow> rsplit_once c (a @ c # b) = Some (a, b)"
  using find_sub_char[of c "rev b" "rev a"] by (simp add: rsplit_once_def)

lemma show_word_chars: "c \<in> set (show_word (w :: 'a::len word)) \<Longrightarrow> is_digit c"
  using show_nat_digits[of "unat w"] by (simp add: show_word_def list_all_iff)

lemma show_word_ne [simp]: "show_word w \<noteq> []"
  by (simp add: show_word_def)

lemma split_host_port_plain:
  assumes "h \<noteq> []" "hd h \<noteq> CHR ''[''"
  shows "split_host_port (h @ '':'' @ show_word p) d = (h, p)"
proof -
  have "CHR '':'' \<notin> set (show_word p)" using show_word_chars[of "CHR '':''" p] by (auto simp: is_digit_def)
  then have "rsplit_once CHR '':'' (h @ '':'' @ show_word p) = Some (h, show_word p)"
    using rsplit_once_last by simp
  moreover have "strip_prefix ''['' (h @ '':'' @ show_word p) = None"
    using assms by (cases h) (auto simp: strip_prefix_def starts_with_def)
  ultimately show ?thesis using assms(1) by (simp add: split_host_port_def)
qed

lemma split_host_port_bracket:
  assumes "CHR '']'' \<notin> set h"
  shows "split_host_port (''['' @ h @ '']:'' @ show_word p) d = (h, p)"
proof -
  have "find_sub '']:'' (h @ '']:'' @ show_word p) = Some (length h)"
    using assms by (induction h) (auto simp: starts_with_def)
  then show ?thesis
    by (simp add: split_host_port_def strip_prefix_def starts_with_def split_once_def)
qed

lemma join_chars: "c \<in> set (join sep ws) \<Longrightarrow> c \<in> set sep \<or> (\<exists>w \<in> set ws. c \<in> set w)"
  by (induction sep ws rule: join.induct) auto

lemma show_v4_chars: "c \<in> set (show_v4 x y z u) \<Longrightarrow> is_digit c \<or> c = CHR ''.''"
  by (auto simp: show_v4_def dest!: join_chars show_word_chars)

lemma hex_digit_char: "0 \<le> n \<Longrightarrow> n < 16 \<Longrightarrow> CHR '']'' \<noteq> hex_digit n"
proof
  assume n: "0 \<le> n" "n < 16" and h: "CHR '']'' = hex_digit n"
  have "(of_char (hex_digit n) :: int) = (if n < 10 then 48 + n else 87 + n)"
    using n by (simp add: hex_digit_def)
  with h[symmetric] n show False by (simp split: if_splits)
qed

lemma show_hex_char:
  assumes "0 \<le> n" "n < 65536"
  shows "CHR '']'' \<notin> set (show_hex n)"
proof -
  have m: "CHR '']'' \<noteq> hex_digit (k mod 16)" for k by (rule hex_digit_char) simp_all
  have "n < 16 \<Longrightarrow> CHR '']'' \<noteq> hex_digit n" "n < 256 \<Longrightarrow> CHR '']'' \<noteq> hex_digit (n div 16)"
    "n < 4096 \<Longrightarrow> CHR '']'' \<noteq> hex_digit (n div 256)" "CHR '']'' \<noteq> hex_digit (n div 4096)"
    by (rule hex_digit_char; use assms in linarith)+
  then show ?thesis using m by (simp add: show_hex_def)
qed

lemma show_v6_char: "CHR '']'' \<notin> set (show_v6 w)"
proof -
  have g: "g \<in> set (segments w) \<Longrightarrow> CHR '']'' \<notin> set (show_hex g)" for g
    by (rule show_hex_char) (auto simp: segments_def)
  have f: "set gs \<subseteq> set (segments w) \<Longrightarrow> CHR '']'' \<notin> set (fmt_groups gs)" for gs
    using g by (fastforce simp: fmt_groups_def dest!: join_chars)
  have v: "CHR '']'' \<notin> set (show_v4 x y z u)" for x y z u
    using show_v4_chars[of "CHR '']''" x y z u] by (auto simp: is_digit_def)
  show ?thesis
    using f[of "segments w"] f[of "take _ (segments w)"] f[of "drop _ (segments w)"] v
    by (auto simp: show_v6_def Let_def set_take_subset set_drop_subset split: prod.splits)
qed

lemma show_v4_hd: "show_v4 x y z u \<noteq> []" "hd (show_v4 x y z u) \<noteq> CHR ''[''"
proof -
  show "show_v4 x y z u \<noteq> []" by (simp add: show_v4_def)
  then show "hd (show_v4 x y z u) \<noteq> CHR ''[''"
    using show_v4_chars[OF hd_in_set] by (fastforce simp: is_digit_def)
qed

end
