(* ===== verification/Ip_Text.thy ===== *)
theory Ip_Text
  imports Net_Addr
begin

text \<open>
  Every address reads back: the printed form of an address (\<open>IpAddr::to_string\<close>, with the compression of
  the longest run of zero groups and the dotted form of mapped IPv4 addresses) is parsed to the same
  address, and so is the text \<open>host:port\<close> of a socket address (\<open>SocketAddr::from_str\<close>). The stores,
  the saved pools and the control interfaces rest on it.
\<close>

section \<open>Groups\<close>

lemma segments_nth: "i < 8 \<Longrightarrow> segments w ! i = uint w div 2 ^ (112 - 16 * i) mod 65536"
  by (simp add: segments_def)

lemma length_segments [simp]: "length (segments w) = 8"
  by (simp add: segments_def)

lemma segments_range: "g \<in> set (segments w) \<Longrightarrow> 0 \<le> g \<and> g < 65536"
  by (auto simp: segments_def)

lemma segment_step: "65536 * (x div (d * 65536)) + x div d mod 65536 = (x div d :: int)"
  using mult_div_mod_eq[of 65536 "x div d"] by (simp add: zdiv_zmult2_eq)

lemma of_segments_segments: "of_segments (segments w) = w"
proof -
  let ?x = "uint w"
  have b: "0 \<le> ?x" "?x < 2 ^ 128" using uint_range_size[of w] by (simp_all add: word_size)
  then have "0 \<le> ?x div 2 ^ 112" "?x div 2 ^ 112 < 65536" by (simp_all add: pos_imp_zdiv_nonneg_iff)
  then have h: "?x div 5192296858534827628530496329220096 mod 65536 = ?x div 5192296858534827628530496329220096" by simp
  note s = segment_step[of ?x "79228162514264337593543950336"] segment_step[of ?x "1208925819614629174706176"]
    segment_step[of ?x "18446744073709551616"] segment_step[of ?x "281474976710656"] segment_step[of ?x "4294967296"]
    segment_step[of ?x "65536"] segment_step[of ?x "1"]
  have "foldl (\<lambda>a g. 65536 * a + g) 0 (segments w) = ?x"
    using s h by (simp add: segments_def upt_rec)
  then show ?thesis by (simp add: of_segments_def)
qed

section \<open>Hexadecimal\<close>

lemma of_hex_digit: "0 \<le> n \<Longrightarrow> n < 16 \<Longrightarrow> (of_char (hex_digit n) :: int) = (if n < 10 then 48 + n else 87 + n)"
  by (simp add: hex_digit_def)

lemma hex_digit_ok:
  assumes "0 \<le> n" "n < 16"
  shows "is_hex (hex_digit n) \<and> hex_val (hex_digit n) = n \<and> hex_digit n \<noteq> CHR ''.''"
proof -
  have "int (of_char (hex_digit n)) = (if n < 10 then 48 + n else 87 + n)"
    using of_hex_digit[OF assms] by (simp only: of_nat_of_char)
  moreover from this assms have "hex_digit n \<noteq> CHR ''.''" by (auto split: if_splits)
  ultimately show ?thesis using assms of_hex_digit[OF assms]
    by (auto simp: is_hex_def hex_val_def is_digit_def between_def split: if_splits)
qed

lemma show_hex_ok:
  assumes "0 \<le> n" "n < 65536"
  shows "list_all is_hex (show_hex n)" "show_hex n \<noteq> []" "length (show_hex n) \<le> 4"
    "foldl (\<lambda>a c. 16 * a + hex_val c) 0 (show_hex n) = n" "CHR ''.'' \<notin> set (show_hex n)"
proof -
  have m: "0 \<le> k mod 16" "k mod 16 < 16" for k :: int by simp_all
  have d: "n < 16 \<Longrightarrow> 0 \<le> n" "n < 256 \<Longrightarrow> 0 \<le> n div 16 \<and> n div 16 < 16" "n < 4096 \<Longrightarrow> 0 \<le> n div 256 \<and> n div 256 < 16"
    "0 \<le> n div 4096 \<and> n div 4096 < 16" using assms by auto
  note ok = hex_digit_ok[OF m] hex_digit_ok
  show "list_all is_hex (show_hex n)" "show_hex n \<noteq> []" "length (show_hex n) \<le> 4" "CHR ''.'' \<notin> set (show_hex n)"
    using d by (auto simp: show_hex_def ok eq_commute[of "CHR ''.''"])
  have q: "16 * (n div 4096) + n div 256 mod 16 = n div 256" "16 * (n div 256) + n div 16 mod 16 = n div 16"
    using mult_div_mod_eq[of 16 "n div 256"] mult_div_mod_eq[of 16 "n div 16"] by (simp_all add: zdiv_zmult2_eq[symmetric])
  show "foldl (\<lambda>a c. 16 * a + hex_val c) 0 (show_hex n) = n"
    using d by (auto simp: show_hex_def ok q simp del: distrib_left_numeral)
qed

lemma read_hex_show:
  assumes "0 \<le> n" "n < 65536" "s = [] \<or> \<not> is_hex (hd s)"
  shows "read_hex (show_hex n @ s) = Some (n, s)"
proof -
  have "takeWhile is_hex (show_hex n @ s) = show_hex n" "dropWhile is_hex (show_hex n @ s) = s"
    using show_hex_ok(1)[OF assms(1,2)] assms(3) by (cases s; simp add: list_all_iff)+
  then show ?thesis using show_hex_ok[OF assms(1,2)] by (simp add: read_hex_def)
qed

lemma read_v4_None:
  assumes "dropWhile is_digit s = [] \<or> hd (dropWhile is_digit s) \<noteq> CHR ''.''"
  shows "read_v4 s = None"
proof (cases "read_dec s")
  case (Some x)
  then have "snd x = dropWhile is_digit s" by (auto simp: read_dec_def Let_def split: if_splits)
  then have "snd x = [] \<or> hd (snd x) \<noteq> CHR ''.''" using assms by simp
  with Some show ?thesis by (cases x; cases "snd x") (simp_all add: read_v4_def read_sep_def)
qed (simp add: read_v4_def)

lemma read_v4_hex:
  assumes "CHR ''.'' \<notin> set a" "list_all is_hex a" "r = [] \<or> hd r \<noteq> CHR ''.'' \<and> \<not> is_digit (hd r)"
  shows "read_v4 (a @ r) = None"
proof (rule read_v4_None)
  show "dropWhile is_digit (a @ r) = [] \<or> hd (dropWhile is_digit (a @ r)) \<noteq> CHR ''.''"
  proof (cases "\<forall>c \<in> set a. is_digit c")
    case True
    then have "dropWhile is_digit (a @ r) = dropWhile is_digit r" by (simp add: dropWhile_append)
    with assms(3) show ?thesis by (cases r) auto
  next
    case False
    then have d: "dropWhile is_digit (a @ r) = dropWhile is_digit a @ r" "dropWhile is_digit a \<noteq> []"
      by (auto simp: dropWhile_append)
    then have "hd (dropWhile is_digit a) \<in> set a" using set_dropWhileD[of _ is_digit a] hd_in_set by blast
    with d assms(1) show ?thesis by auto
  qed
qed

section \<open>Sequences of groups\<close>

definition ends_groups :: "string \<Rightarrow> bool" where
  "ends_groups r = (case r of [] \<Rightarrow> True
     | c # r' \<Rightarrow> \<not> is_hex c \<and> c \<noteq> CHR ''.'' \<and> (c = CHR '':'' \<longrightarrow> r' \<noteq> [] \<and> hd r' = CHR '':''))"

lemma hex_facts [simp]: "\<not> is_hex CHR '':''" "\<not> is_digit CHR '':''" "is_digit c \<Longrightarrow> is_hex c"
  by (auto simp: is_hex_def is_digit_def between_def)

lemma no_hex: "s = [] \<or> \<not> is_hex (hd s) \<Longrightarrow> read_hex s = None \<and> read_v4 s = None"
  by (cases s) (auto simp: read_hex_def read_v4_def read_dec_def)

lemma read_groups_stop:
  assumes "ends_groups r"
  shows "read_groups k i r = ([], False, r)"
proof -
  have "read_sep CHR '':'' i read_hex r = None \<and> read_sep CHR '':'' i read_v4 r = None"
  proof (cases r)
    case (Cons c r')
    with assms no_hex[of r] no_hex[of r'] show ?thesis
      by (cases r') (auto simp: read_sep_def ends_groups_def)
  qed (auto simp: read_sep_def no_hex)
  then show ?thesis by (cases k) auto
qed

lemma fmt_groups_Cons: "gs \<noteq> [] \<Longrightarrow> fmt_groups (g # gs) = show_hex g @ CHR '':'' # fmt_groups gs"
  by (cases gs) (simp_all add: fmt_groups_def)

lemma read_groups_fmt:
  assumes "list_all (\<lambda>g. 0 \<le> g \<and> g < 65536) gs" "length gs \<le> k" "ends_groups r" "gs \<noteq> []"
  shows "read_groups k i ((if i = 0 then [] else '':'') @ fmt_groups gs @ r) = (gs, False, r)"
  using assms(1,2,4)
proof (induction gs arbitrary: k i)
  case (Cons g gs)
  then obtain k' where k: "k = Suc k'" by (cases k) auto
  have g: "0 \<le> g" "g < 65536" using Cons by simp_all
  define rest where "rest = (if gs = [] then r else CHR '':'' # fmt_groups gs @ r)"
  have t: "fmt_groups (g # gs) @ r = show_hex g @ rest"
    by (simp add: rest_def fmt_groups_Cons) (simp add: fmt_groups_def)
  have h: "rest = [] \<or> (\<not> is_hex (hd rest) \<and> hd rest \<noteq> CHR ''.'' \<and> \<not> is_digit (hd rest))"
    using assms(3) by (cases r) (auto simp: rest_def ends_groups_def)
  have "read_v4 (show_hex g @ rest) = None"
    using read_v4_hex[of "show_hex g" rest] show_hex_ok[OF g] h by auto
  moreover have "read_hex (show_hex g @ rest) = Some (g, rest)" using read_hex_show[OF g] h by auto
  moreover have "read_groups k' (Suc i) rest = (gs, False, r)"
  proof (cases "gs = []")
    case True
    then show ?thesis using read_groups_stop[OF assms(3)] by (simp add: rest_def)
  next
    case False
    with Cons(1)[of k' "Suc i"] Cons(2,3) show ?thesis by (simp add: rest_def k)
  qed
  moreover have "k' = 0 \<Longrightarrow> gs = [] \<and> rest = r" using Cons(3) by (simp add: k rest_def)
  ultimately show ?case by (cases "i = 0") (auto simp: k t read_sep_def)
qed simp

section \<open>The longest run of zeros\<close>

definition zero_run :: "int list \<Rightarrow> nat \<times> nat \<Rightarrow> bool" where
  "zero_run xs p \<longleftrightarrow> (\<forall>j. fst p \<le> j \<and> j < fst p + snd p \<longrightarrow> j < length xs \<and> xs ! j = 0)"

lemma zero_span_run:
  "drop i xs = gs \<Longrightarrow> zero_run xs cur \<Longrightarrow> zero_run xs longest \<Longrightarrow> snd cur = 0 \<or> fst cur + snd cur = i
   \<Longrightarrow> zero_run xs (zero_span i cur longest gs)"
proof (induction i cur longest gs rule: zero_span.induct)
  case (2 i cs cl longest g gs)
  have "i < length xs" using 2(3) by (cases "i < length xs") auto
  then have x: "i < length xs" "xs ! i = g" "drop (Suc i) xs = gs" using 2(3) by (simp_all add: Cons_nth_drop_Suc[symmetric])
  show ?case
  proof (cases "g = 0")
    case True
    have "zero_run xs (if cl = 0 then i else cs, Suc cl)"
      using 2(4,6) x(1,2) True by (auto simp: zero_run_def less_Suc_eq)
    then have "zero_run xs (zero_span (Suc i) (if cl = 0 then i else cs, Suc cl)
        (if snd longest < Suc cl then (if cl = 0 then i else cs, Suc cl) else longest) gs)"
      using 2(1)[OF True refl] 2(4-6) x True by (auto split: if_splits)
    with True show ?thesis by (simp add: Let_def)
  next
    case False
    have "zero_run xs (zero_span (Suc i) (0, 0) longest gs)"
      using 2(5) x(3) by (intro 2(2)[OF False]) (auto simp: zero_run_def)
    with False show ?thesis by simp
  qed
qed simp

lemma zero_run_split:
  assumes "zero_run xs (st, len)"  "0 < len"
  shows "xs = take st xs @ replicate len 0 @ drop (st + len) xs" "st + len \<le> length xs"
proof -
  have r: "\<forall>j. st \<le> j \<and> j < st + len \<longrightarrow> j < length xs \<and> xs ! j = 0" using assms(1) by (simp add: zero_run_def)
  have "st \<le> st + (len - 1)" "st + (len - 1) < st + len" using assms(2) by auto
  with r have "st + (len - 1) < length xs" by blast
  then show l: "st + len \<le> length xs" using assms(2) by simp
  have "take len (drop st xs) = replicate len 0"
    using l r by (intro nth_equalityI) auto
  then show "xs = take st xs @ replicate len 0 @ drop (st + len) xs"
    by (metis add.commute append_take_drop_id drop_drop)
qed

section \<open>Addresses\<close>

definition ends_addr :: "string \<Rightarrow> bool" where
  "ends_addr s \<longleftrightarrow> s = [] \<or> \<not> is_hex (hd s) \<and> hd s \<noteq> CHR ''.'' \<and> hd s \<noteq> CHR '':''"

lemma ends_addr_groups: "ends_addr s \<Longrightarrow> ends_groups s"
  by (cases s) (auto simp: ends_addr_def ends_groups_def)

lemma ends_groups_double: "ends_groups (CHR '':'' # CHR '':'' # s)"
  by (simp add: ends_groups_def)

lemma read_groups_list:
  assumes "list_all (\<lambda>g. 0 \<le> g \<and> g < 65536) gs" "length gs \<le> k" "ends_groups r"
  shows "read_groups k 0 (fmt_groups gs @ r) = (gs, False, r)"
  using read_groups_fmt[OF assms, of 0] read_groups_stop[OF assms(3)]
  by (cases "gs = []") (simp_all add: fmt_groups_def)

lemma read_groups_mapped:
  assumes "ends_addr s"
  shows "read_groups 7 0 (''ffff:'' @ show_v4 a b c d @ s) =
    ([65535, 256 * uint a + uint b, 256 * uint c + uint d], True, s)"
proof -
  have f: "''ffff:'' @ t = show_hex 65535 @ CHR '':'' # t" for t by (simp add: show_hex_def hex_digit_def char_of_def)
  have "read_v4 (show_v4 a b c d @ s) = Some ((a, b, c, d), s)"
    using assms by (intro read_v4_show) (auto simp: ends_addr_def)
  then have g: "read_groups 6 1 (CHR '':'' # show_v4 a b c d @ s) = ([256 * uint a + uint b, 256 * uint c + uint d], True, s)"
    by (simp add: eval_nat_numeral read_sep_def)
  let ?t = "CHR '':'' # show_v4 a b c d @ s"
  have "read_v4 (show_hex 65535 @ ?t) = None" "read_hex (show_hex 65535 @ ?t) = Some (65535, ?t)"
    using read_v4_hex[of "show_hex 65535" ?t] show_hex_ok[of 65535] read_hex_show[of 65535 ?t] by auto
  then show ?thesis unfolding f using g read_groups.simps(2)[of 6 0 "show_hex 65535 @ ?t"] by (simp add: read_sep_def)
qed

lemma read_v4_groups:
  assumes "list_all (\<lambda>g. 0 \<le> g \<and> g < 65536) gs" "ends_groups r"
  shows "read_v4 (fmt_groups gs @ r) = None"
proof (cases gs)
  case Nil
  have "r = [] \<or> \<not> is_hex (hd r)" using assms(2) by (cases r) (auto simp: ends_groups_def)
  with Nil show ?thesis using no_hex by (simp add: fmt_groups_def)
next
  case (Cons g gs')
  define rest where "rest = (if gs' = [] then r else CHR '':'' # fmt_groups gs' @ r)"
  have "fmt_groups gs @ r = show_hex g @ rest"
    by (simp add: Cons rest_def fmt_groups_Cons) (simp add: fmt_groups_def)
  moreover have "rest = [] \<or> hd rest \<noteq> CHR ''.'' \<and> \<not> is_digit (hd rest)"
    using assms(2) by (cases r) (auto simp: rest_def ends_groups_def)
  ultimately show ?thesis using read_v4_hex[of "show_hex g" rest] show_hex_ok[of g] assms(1) Cons by simp
qed

lemma read_v6_show:
  assumes "ends_addr s"
  shows "read_v6 (show_v6 w @ s) = Some (w, s)" "read_v4 (show_v6 w @ s) = None"
proof -
  define gs where "gs = segments w"
  have l: "length gs = 8" and w: "of_segments gs = w" by (simp_all add: gs_def of_segments_segments)
  have r: "list_all (\<lambda>g. 0 \<le> g \<and> g < 65536) gs" using segments_range by (auto simp: gs_def list_all_iff)
  obtain st len where z: "zero_span 0 (0, 0) (0, 0) gs = (st, len)" by fastforce
  consider (mapped) "take 6 gs = [0, 0, 0, 0, 0, 65535]"
    | (span) "take 6 gs \<noteq> [0, 0, 0, 0, 0, 65535]" "1 < len"
    | (plain) "take 6 gs \<noteq> [0, 0, 0, 0, 0, 65535]" "\<not> 1 < len" by blast
  then have "read_v6 (show_v6 w @ s) = Some (w, s) \<and> read_v4 (show_v6 w @ s) = None"
  proof cases
    case mapped
    let ?q = "show_v4 (word_of_int (gs ! 6 div 256)) (word_of_int (gs ! 6 mod 256)) (word_of_int (gs ! 7 div 256))
      (word_of_int (gs ! 7 mod 256))"
    have t: "show_v6 w @ s = CHR '':'' # CHR '':'' # ''ffff:'' @ ?q @ s"
      using mapped by (simp add: show_v6_def Let_def gs_def)
    have "0 \<le> gs ! 6 \<and> gs ! 6 < 65536" "0 \<le> gs ! 7 \<and> gs ! 7 < 65536" using r l by (simp_all add: list_all_length)
    then have u: "256 * uint (word_of_int (g div 256) :: u8) + uint (word_of_int (g mod 256) :: u8) = g"
      if "g = gs ! 6 \<or> g = gs ! 7" for g
      using that by (auto simp: uint_word_of_int take_bit_eq_mod)
    have "gs = take 6 gs @ [gs ! 6, gs ! 7]"
      using l by (intro nth_equalityI) (auto simp: nth_append less_Suc_eq nth_Cons' eval_nat_numeral)
    then have "gs = replicate 5 0 @ [65535, gs ! 6, gs ! 7]" using mapped by (simp add: eval_nat_numeral)
    with w have "of_segments (replicate 5 0 @ [65535, gs ! 6, gs ! 7]) = w" by simp
    then show ?thesis
      unfolding t using read_groups_mapped[OF assms] read_groups_stop[OF ends_groups_double]
      by (simp add: read_v6_def starts_with_def u no_hex)
  next
    case span
    have zr: "zero_run gs (st, len)" using zero_span_run[of 0 gs gs "(0, 0)" "(0, 0)"] z by (simp add: zero_run_def)
    note sp = zero_run_split[OF zr]
    let ?h = "take st gs" and ?t = "drop (st + len) gs"
    have t: "show_v6 w @ s = fmt_groups ?h @ CHR '':'' # CHR '':'' # fmt_groups ?t @ s"
      using span z by (simp add: show_v6_def Let_def gs_def)
    have rr: "list_all (\<lambda>g. 0 \<le> g \<and> g < 65536) ?h" "list_all (\<lambda>g. 0 \<le> g \<and> g < 65536) ?t"
      using r by (auto simp: list_all_iff dest: in_set_takeD in_set_dropD)
    have n: "st + len \<le> 8" "length ?h = st" "length ?t = 8 - (st + len)" using sp(2) span l by auto
    have h: "read_groups 8 0 (fmt_groups ?h @ CHR '':'' # CHR '':'' # fmt_groups ?t @ s)
        = (?h, False, CHR '':'' # CHR '':'' # fmt_groups ?t @ s)"
      using read_groups_list[OF rr(1) _ ends_groups_double] n by simp
    have tl: "read_groups (8 - Suc st) 0 (fmt_groups ?t @ s) = (?t, False, s)"
      using read_groups_list[OF rr(2) _ ends_addr_groups[OF assms]] n span by simp
    have "?h @ replicate (8 - st - (8 - (st + len))) 0 @ ?t = gs" using sp(1) span n(1) by simp
    moreover have "read_v4 (fmt_groups ?h @ CHR '':'' # CHR '':'' # fmt_groups ?t @ s) = None"
      by (rule read_v4_groups[OF rr(1) ends_groups_double])
    ultimately show ?thesis unfolding t using h tl w n span by (simp add: read_v6_def starts_with_def)
  next
    case plain
    have t: "show_v6 w = fmt_groups gs" using plain z by (simp add: show_v6_def Let_def gs_def)
    show ?thesis unfolding t
      using read_groups_list[OF r _ ends_addr_groups[OF assms]] l w read_v4_groups[OF r ends_addr_groups[OF assms]]
      by (simp add: read_v6_def)
  qed
  then show "read_v6 (show_v6 w @ s) = Some (w, s)" "read_v4 (show_v6 w @ s) = None" by simp_all
qed

lemma parse_show_ip [simp]: "parse_ip (show_ip ip) = Some ip"
  using parse_ip_show_v4 read_v6_show[of "[]"] by (cases ip) (simp_all add: parse_ip_def ends_addr_def)

lemma show_ip_inject [simp]: "show_ip a = show_ip b \<longleftrightarrow> a = b"
  by (metis option.inject parse_show_ip)

end
