(* ===== verification/Utils.thy ===== *)
theory Utils
  imports Net_Addr
begin

text \<open>
  \<^verbatim>\<open>src/src/utils.rs\<close>: the ordered request headers, the status-code sentinel, the base64 encoder.
  (\<^verbatim>\<open>canonicalize_ip\<close> is in \<open>Net_Addr\<close>, \<^verbatim>\<open>get_all_ip\<close> in \<open>Scan\<close>.) The encoder is shown against a
  reference decoder that exists only in this theory.
\<close>

section \<open>Request headers\<close>

type_synonym headers = "(string \<times> string) list"

definition pkg_version :: string where
  "pkg_version = ''1.1.0''"

text \<open>\<open>IndexMap::insert\<close>: an existing key keeps its position.\<close>

fun im_insert :: "string \<Rightarrow> string \<Rightarrow> headers \<Rightarrow> headers" where
  "im_insert k v [] = [(k, v)]"
| "im_insert k v ((k', v') # h) = (if k' = k then (k, v) # h else (k', v') # im_insert k v h)"

definition request_headers :: "string option \<Rightarrow> headers" where
  "request_headers marker =
     (let rv = (case marker of None \<Rightarrow> '''' | Some m \<Rightarrow> m)
      in [(''User-Agent'', ''PxBroker/'' @ pkg_version @ ''/'' @ rv),
          (''Accept'', ''*/*''),
          (''Accept-Encoding'', ''gzip, deflate''),
          (''Pragma'', ''no-cache''),
          (''Cache-control'', ''no-cache''),
          (''Cookie'', ''cookie=ok''),
          (''Referer'', ''https://www.google.com/'')])"

definition render_headers :: "headers \<Rightarrow> string" where
  "render_headers h = join crlf (map (\<lambda>(k, v). k @ '': '' @ v) h)"

text \<open>\<open>fresh_marker\<close>: a number from 1000 to 9999 in decimal; the random draw \<open>r\<close> below 9000 is an
  argument.\<close>

definition fresh_marker :: "nat \<Rightarrow> string" where
  "fresh_marker r = show_nat (1000 + r)"

section \<open>Status codes\<close>

definition get_status_code :: "string \<Rightarrow> nat \<Rightarrow> nat \<Rightarrow> nat" where
  "get_status_code resp start stop =
     (let e = min stop (length resp)
      in if e \<le> start then 400
         else let sl = take (e - start) (drop start resp)
           in if utf8_valid sl then
                (case parse_uint 65535 (trim sl) of Some n \<Rightarrow> n | None \<Rightarrow> 400)
              else 400)"

section \<open>Base64\<close>

definition b64_alphabet :: string where
  "b64_alphabet = ''ABCDEFGHIJKLMNOPQRSTUVWXYZabcdefghijklmnopqrstuvwxyz0123456789+/''"

definition b64_group :: "string \<Rightarrow> nat" where
  "b64_group chunk =
     of_char (chunk ! 0) * 65536
       + (if 1 < length chunk then of_char (chunk ! 1) else 0) * 256
       + (if 2 < length chunk then of_char (chunk ! 2) else 0)"

definition b64_chunk :: "string \<Rightarrow> string" where
  "b64_chunk chunk =
     (let n = b64_group chunk
      in [b64_alphabet ! (n div 262144 mod 64),
          b64_alphabet ! (n div 4096 mod 64),
          (if 1 < length chunk then b64_alphabet ! (n div 64 mod 64) else CHR ''=''),
          (if 2 < length chunk then b64_alphabet ! (n mod 64) else CHR ''='')])"

fun base64_encode :: "string \<Rightarrow> string" where
  "base64_encode s = (if s = [] then [] else b64_chunk (take 3 s) @ base64_encode (drop 3 s))"

declare base64_encode.simps [simp del]

text \<open>The reference decoder.\<close>

definition b64_val :: "char \<Rightarrow> nat option" where
  "b64_val c = find (\<lambda>i. b64_alphabet ! i = c) [0..<64]"

definition b64_byte :: "nat \<Rightarrow> nat \<Rightarrow> char" where
  "b64_byte n k = char_of (n div 256 ^ k mod 256)"

fun base64_decode :: "string \<Rightarrow> string option" where
  "base64_decode [] = Some []"
| "base64_decode (w # x # y # z # r) =
     (case (b64_val w, b64_val x) of
        (Some i, Some j) \<Rightarrow>
          if y = CHR ''='' then
            (if z = CHR ''='' \<and> r = [] then Some [b64_byte (i * 262144 + j * 4096) 2] else None)
          else (case b64_val y of None \<Rightarrow> None
            | Some k \<Rightarrow>
               if z = CHR ''='' then
                 (if r = [] then Some [b64_byte (i * 262144 + j * 4096 + k * 64) 2,
                      b64_byte (i * 262144 + j * 4096 + k * 64) 1] else None)
               else (case (b64_val z, base64_decode r) of
                   (Some l, Some s) \<Rightarrow>
                     let n = i * 262144 + j * 4096 + k * 64 + l
                     in Some (b64_byte n 2 # b64_byte n 1 # b64_byte n 0 # s)
                 | _ \<Rightarrow> None))
      | _ \<Rightarrow> None)"
| "base64_decode _ = None"

section \<open>Lemmas\<close>

lemma header_names_distinct: "distinct (map fst (request_headers m))"
  by (simp add: request_headers_def)

lemma get_status_code_bound: "get_status_code resp a b \<le> 65535"
  using parse_uint_le by (auto simp: get_status_code_def Let_def split: option.splits)

lemma b64_alphabet_facts: "length b64_alphabet = 64" "distinct b64_alphabet"
  "CHR ''='' \<notin> set b64_alphabet"
  by (simp_all add: b64_alphabet_def)

lemma b64_val_nth: "i < 64 \<Longrightarrow> b64_val (b64_alphabet ! i) = Some i"
  unfolding b64_val_def using b64_alphabet_facts(1,2)
  by (subst find_first_iff) (auto simp: nth_eq_iff_index_eq)

lemma b64_nth_not_pad: "i < 64 \<Longrightarrow> b64_alphabet ! i \<noteq> CHR ''=''"
  using b64_alphabet_facts by (metis nth_mem)

lemma sextets_sum:
  fixes n :: nat
  assumes "n < 16777216"
  shows "n div 262144 mod 64 * 262144 + n div 4096 mod 64 * 4096 + n div 64 mod 64 * 64 + n mod 64 = n"
proof -
  have "n div 64 * 64 + n mod 64 = n" by simp
  moreover have "n div 4096 * 64 + n div 64 mod 64 = n div 64"
    using div_mult_mod_eq[of "n div 64" 64] by (simp add: div_mult2_eq[symmetric])
  moreover have "n div 262144 * 64 + n div 4096 mod 64 = n div 4096"
    using div_mult_mod_eq[of "n div 4096" 64] by (simp add: div_mult2_eq[symmetric])
  moreover have "n div 262144 mod 64 = n div 262144" using assms by simp
  ultimately show ?thesis by linarith
qed

text \<open>The three bytes of a group.\<close>

lemma group_bytes:
  fixes a b c :: nat
  assumes "a < 256" "b < 256" "c < 256"
  shows "(a * 65536 + b * 256 + c) div 256 ^ 2 mod 256 = a"
    "(a * 65536 + b * 256 + c) div 256 ^ 1 mod 256 = b"
    "(a * 65536 + b * 256 + c) div 256 ^ 0 mod 256 = c"
    "a * 65536 + b * 256 + c < 16777216"
proof -
  have eq: "a * 65536 + b * 256 + c = (a * 256 + b) * 256 + c" by simp
  have d: "(a * 65536 + b * 256 + c) div 256 = a * 256 + b" "(a * 65536 + b * 256 + c) mod 256 = c"
    unfolding eq using assms(3) by (simp_all only: div_mult_self3 mod_mult_self3 mod_less div_less)
  then show "(a * 65536 + b * 256 + c) div 256 ^ 1 mod 256 = b"
    "(a * 65536 + b * 256 + c) div 256 ^ 0 mod 256 = c"
    using assms by simp_all
  have "(a * 65536 + b * 256 + c) div 256 ^ 2 = (a * 65536 + b * 256 + c) div 256 div 256"
    by (simp add: power2_eq_square div_mult2_eq)
  with d assms show "(a * 65536 + b * 256 + c) div 256 ^ 2 mod 256 = a" by simp
  show "a * 65536 + b * 256 + c < 16777216" using assms by linarith
qed

lemma b64_byte_group:
  "b64_byte (of_char a * 65536 + of_char b * 256 + of_char c) 2 = a"
  "b64_byte (of_char a * 65536 + of_char b * 256 + of_char c) 1 = b"
  "b64_byte (of_char a * 65536 + of_char b * 256 + of_char c) 0 = c"
  using group_bytes[of "of_char a" "of_char b" "of_char c"]
  by (simp_all only: b64_byte_def nat_of_char_less_256 char_of_char)

lemma decode_sextets:
  "i < 64 \<Longrightarrow> j < 64 \<Longrightarrow> k < 64 \<Longrightarrow> l < 64 \<Longrightarrow>
    base64_decode (b64_alphabet ! i # b64_alphabet ! j # b64_alphabet ! k # b64_alphabet ! l # r) =
      map_option (\<lambda>s. b64_byte (i * 262144 + j * 4096 + k * 64 + l) 2 #
        b64_byte (i * 262144 + j * 4096 + k * 64 + l) 1 #
        b64_byte (i * 262144 + j * 4096 + k * 64 + l) 0 # s) (base64_decode r)"
  "i < 64 \<Longrightarrow> j < 64 \<Longrightarrow> k < 64 \<Longrightarrow>
    base64_decode [b64_alphabet ! i, b64_alphabet ! j, b64_alphabet ! k, CHR ''=''] =
      Some [b64_byte (i * 262144 + j * 4096 + k * 64) 2, b64_byte (i * 262144 + j * 4096 + k * 64) 1]"
  "i < 64 \<Longrightarrow> j < 64 \<Longrightarrow>
    base64_decode [b64_alphabet ! i, b64_alphabet ! j, CHR ''='', CHR ''=''] =
      Some [b64_byte (i * 262144 + j * 4096) 2]"
  by (simp_all add: b64_val_nth b64_nth_not_pad Let_def split: option.split)

lemma b64_chunk3:
  "base64_decode (b64_chunk [a, b, c] @ r) = map_option (\<lambda>s. a # b # c # s) (base64_decode r)"
proof -
  let ?n = "of_char a * 65536 + of_char b * 256 + of_char c :: nat"
  have "?n < 16777216" by (rule group_bytes(4)) simp_all
  note sum = sextets_sum[OF this]
  have "b64_chunk [a, b, c] = [b64_alphabet ! (?n div 262144 mod 64), b64_alphabet ! (?n div 4096 mod 64),
      b64_alphabet ! (?n div 64 mod 64), b64_alphabet ! (?n mod 64)]"
    by (simp add: b64_chunk_def b64_group_def Let_def)
  then show ?thesis
    by (simp only: append.simps decode_sextets(1) mod_less_divisor zero_less_numeral sum b64_byte_group)
qed

lemma b64_chunk2: "base64_decode (b64_chunk [a, b]) = Some [a, b]"
proof -
  let ?n = "of_char a * 65536 + of_char b * 256 + of_char CHR 0x00 :: nat"
  have "?n < 16777216" by (rule group_bytes(4)) simp_all
  moreover have "?n mod 64 = 0" by (simp add: mod_simps)
  ultimately have sum: "?n div 262144 mod 64 * 262144 + ?n div 4096 mod 64 * 4096 + ?n div 64 mod 64 * 64 = ?n"
    using sextets_sum[of ?n] by linarith
  have "b64_chunk [a, b] = [b64_alphabet ! (?n div 262144 mod 64), b64_alphabet ! (?n div 4096 mod 64),
      b64_alphabet ! (?n div 64 mod 64), CHR ''='']"
    by (simp add: b64_chunk_def b64_group_def Let_def)
  then show ?thesis
    by (simp only: decode_sextets(2) mod_less_divisor zero_less_numeral sum b64_byte_group)
qed

lemma b64_chunk1: "base64_decode (b64_chunk [a]) = Some [a]"
proof -
  let ?n = "of_char a * 65536 + of_char CHR 0x00 * 256 + of_char CHR 0x00 :: nat"
  have "?n < 16777216" by (rule group_bytes(4)) simp_all
  moreover have "?n mod 64 = 0" "?n div 64 mod 64 = 0" by (simp_all add: mod_simps)
  ultimately have sum: "?n div 262144 mod 64 * 262144 + ?n div 4096 mod 64 * 4096 = ?n"
    using sextets_sum[of ?n] by linarith
  have "b64_chunk [a] = [b64_alphabet ! (?n div 262144 mod 64), b64_alphabet ! (?n div 4096 mod 64),
      CHR ''='', CHR ''='']"
    by (simp add: b64_chunk_def b64_group_def Let_def)
  then show ?thesis
    by (simp only: decode_sextets(3) mod_less_divisor zero_less_numeral sum b64_byte_group)
qed

lemma decode_encode: "base64_decode (base64_encode s) = Some s"
proof (induction s rule: base64_encode.induct)
  case (1 s)
  consider "s = []" | a where "s = [a]" | a b where "s = [a, b]" | a b c r where "s = a # b # c # r"
    by (metis list.exhaust)
  then show ?case
  proof cases
    case 4
    with 1 show ?thesis by (subst base64_encode.simps) (simp add: b64_chunk3 numeral_3_eq_3)
  qed (subst base64_encode.simps, simp add: b64_chunk1 b64_chunk2 base64_encode.simps[of "[]"])+
qed

lemma base64_encode_inj: "base64_encode s = base64_encode t \<longleftrightarrow> s = t"
  using decode_encode by (metis option.inject)

end
