(* ===== verification/Proxy.thy ===== *)
theory Proxy
  imports Utils
begin

text \<open>
  \<^verbatim>\<open>src/src/proxy.rs\<close>: the \<^verbatim>\<open>Proxy\<close> value, its constructors, its statistics and its ordering key
  (the JSON form is in \<open>Proxy_Json\<close>). The trust report of \<^verbatim>\<open>src/src/checker.rs\<close> is here because a
  proxy carries one.

  A \<open>BTreeMap\<close> keyed by protocol is a map, iterated in the order of \<open>proto_ALL\<close>. The error
  histogram, a \<open>HashMap\<close>, is an association list with distinct keys: nothing below depends on its
  order. Request and error counters are 32-bit words and wrap as in a release build.
\<close>

section \<open>Data\<close>

record region =
  r_code :: string
  r_name :: string

record country =
  c_code :: string
  c_name :: string
  c_region :: "region option"
  c_city :: "string option"

record asn =
  asn_number :: u32
  asn_org :: "string option"

record credentials =
  username :: string
  password :: string

datatype trust_signal = CanaryMismatch | InjectedHeader | CertMismatch

type_synonym trust_report = "trust_signal list"

type_synonym type_map = "proto \<Rightarrow> anon_level option option"

record proxy =
  p_host :: ip_addr
  p_port :: u16
  expected_types :: "proto set"
  p_geo :: "country option"
  p_asn :: "asn option"
  p_types :: type_map
  p_requests :: u32
  p_errors :: "(proxy_error \<times> u32) list"
  runtimes :: "real list"
  probe_runtimes :: "real list"
  p_auth :: "credentials option"
  p_caps :: caps
  p_trust :: trust_report
  ewma_success :: "real option"

abbreviation p_addr :: "proxy \<Rightarrow> sock_addr" where
  "p_addr p \<equiv> (p_host p, p_port p)"

record capabilities =
  cp_cookie_echo :: bool
  cp_referer_echo :: bool
  cp_connect25 :: bool

section \<open>Constructors\<close>

definition proxy_new :: "ip_addr \<Rightarrow> u16 \<Rightarrow> proto set \<Rightarrow> proxy" where
  "proxy_new host port expected =
     \<lparr>p_host = host, p_port = port, expected_types = expected, p_geo = None, p_asn = None,
      p_types = Map.empty, p_requests = 0, p_errors = [], runtimes = [], probe_runtimes = [],
      p_auth = None, p_caps = caps_default, p_trust = [], ewma_success = None\<rparr>"

definition restored :: "ip_addr \<Rightarrow> u16 \<Rightarrow> type_map \<Rightarrow> u32 \<Rightarrow> u32 \<Rightarrow> real \<Rightarrow> proxy" where
  "restored host port types requests errors_total avg =
     \<lparr>p_host = host, p_port = port, expected_types = {}, p_geo = None, p_asn = None,
      p_types = types, p_requests = requests,
      p_errors = (if 0 < errors_total then [(BadResponse, errors_total)] else []),
      runtimes = (if 0 < avg then [avg] else []), probe_runtimes = [],
      p_auth = None, p_caps = caps_default, p_trust = [], ewma_success = None\<rparr>"

definition with_auth :: "credentials \<Rightarrow> proxy \<Rightarrow> proxy" where
  "with_auth c p = p\<lparr>p_auth := Some c\<rparr>"

definition with_ewma :: "real option \<Rightarrow> proxy \<Rightarrow> proxy" where
  "with_ewma e p = p\<lparr>ewma_success := e\<rparr>"

definition addr :: "proxy \<Rightarrow> string" where
  "addr p =
     (case p_host p of
        V4 a b c d \<Rightarrow> show_v4 a b c d @ '':'' @ show_word (p_port p)
      | V6 w \<Rightarrow> ''['' @ show_v6 w @ '']:'' @ show_word (p_port p))"

section \<open>Confirmed types, capabilities, trust\<close>

definition type_keys :: "type_map \<Rightarrow> proto list" where
  "type_keys m = filter (\<lambda>p. m p \<noteq> None) proto_ALL"

definition type_entries :: "type_map \<Rightarrow> (proto \<times> anon_level option) list" where
  "type_entries m = map (\<lambda>p. (p, the (m p))) (type_keys m)"

definition add_type :: "proto \<Rightarrow> anon_level option \<Rightarrow> proxy \<Rightarrow> proxy" where
  "add_type pr level p = p\<lparr>p_types := (p_types p)(pr \<mapsto> level)\<rparr>"

definition remove_type :: "proto \<Rightarrow> proxy \<Rightarrow> proxy" where
  "remove_type pr p = p\<lparr>p_types := (p_types p)(pr := None)\<rparr>"

definition is_working :: "proxy \<Rightarrow> bool" where
  "is_working p \<longleftrightarrow> type_keys (p_types p) \<noteq> []"

definition record_caps :: "caps \<Rightarrow> proxy \<Rightarrow> proxy" where
  "record_caps c p = p\<lparr>p_caps :=
     \<lparr>cookie_echo = cookie_echo (p_caps p) \<or> cookie_echo c,
      referer_echo = referer_echo (p_caps p) \<or> referer_echo c\<rparr>\<rparr>"

definition capabilities_of :: "proxy \<Rightarrow> capabilities" where
  "capabilities_of p =
     \<lparr>cp_cookie_echo = cookie_echo (p_caps p), cp_referer_echo = referer_echo (p_caps p),
      cp_connect25 = (p_types p Connect25 \<noteq> None)\<rparr>"

definition trusted :: "trust_report \<Rightarrow> bool" where
  "trusted r \<longleftrightarrow> r = []"

definition record_trust :: "trust_report \<Rightarrow> proxy \<Rightarrow> proxy" where
  "record_trust r p = p\<lparr>p_trust :=
     foldl (\<lambda>acc s. if s \<in> set acc then acc else acc @ [s]) (p_trust p) r\<rparr>"

section \<open>Statistics\<close>

fun bump :: "proxy_error \<Rightarrow> (proxy_error \<times> u32) list \<Rightarrow> (proxy_error \<times> u32) list" where
  "bump e [] = [(e, 1)]"
| "bump e ((f, n) # es) = (if f = e then (f, n + 1) # es else (f, n) # bump e es)"

definition record_attempt :: "real option \<Rightarrow> proxy_error option \<Rightarrow> proxy \<Rightarrow> proxy" where
  "record_attempt rt err p =
     p\<lparr>p_requests := p_requests p + 1,
       p_errors := (case err of None \<Rightarrow> p_errors p | Some e \<Rightarrow> bump e (p_errors p)),
       runtimes := (case rt of None \<Rightarrow> runtimes p
         | Some r \<Rightarrow> if err \<noteq> Some Timeout then runtimes p @ [r] else runtimes p)\<rparr>"

definition record_probe_latency :: "real \<Rightarrow> proxy \<Rightarrow> proxy" where
  "record_probe_latency s p = p\<lparr>probe_runtimes := probe_runtimes p @ [s]\<rparr>"

definition errors_total :: "proxy \<Rightarrow> u32" where
  "errors_total p = sum_list (map snd (p_errors p))"

definition error_rate :: "proxy \<Rightarrow> real" where
  "error_rate p =
     (if p_requests p = 0 then 0
      else round2 (real (unat (errors_total p)) / real (unat (p_requests p))))"

definition mean2 :: "real list \<Rightarrow> real" where
  "mean2 xs = (if xs = [] then 0 else round2 (sum_list xs / real (length xs)))"

definition avg_resp_time :: "proxy \<Rightarrow> real" where
  "avg_resp_time p = mean2 (runtimes p)"

definition probe_latency :: "proxy \<Rightarrow> real" where
  "probe_latency p = mean2 (probe_runtimes p)"

text \<open>\<open>percentile\<close>: \<open>None\<close> is the panic of an out-of-range index, which a quantile above 1 gives.\<close>

definition interpolate :: "real list \<Rightarrow> real \<Rightarrow> real" where
  "interpolate s rank =
     (let lo = nat \<lfloor>rank\<rfloor>; hi = nat \<lceil>rank\<rceil>; frac = rank - real lo
      in s ! lo + frac * (s ! hi - s ! lo))"

definition percentile :: "real list \<Rightarrow> real \<Rightarrow> real option" where
  "percentile xs q =
     (if xs = [] then Some 0
      else let s = sort xs; rank = q * real (length s - 1)
        in if nat \<lceil>rank\<rceil> < length s then Some (round2 (interpolate s rank)) else None)"

definition priority :: "proxy \<Rightarrow> real \<times> real" where
  "priority p =
     ((case ewma_success p of
         Some e \<Rightarrow> max (error_rate p) (1 - e)
       | None \<Rightarrow> error_rate p), avg_resp_time p)"

definition http_protos :: "proto list" where
  "http_protos = [Http, Connect80, Socks4, Socks5]"

definition https_protos :: "proto list" where
  "https_protos = [Https, Socks4, Socks5]"

definition schemes :: "proxy \<Rightarrow> scheme list" where
  "schemes p =
     (if list_ex (\<lambda>t. t \<in> set http_protos) (type_keys (p_types p)) then [SHttp] else [])
     @ (if list_ex (\<lambda>t. t \<in> set https_protos) (type_keys (p_types p)) then [SHttps] else [])"

definition types_sorted :: "proxy \<Rightarrow> (proto \<times> anon_level option) list" where
  "types_sorted p = sort_key (\<lambda>(pr, _). display_order_key pr) (type_entries (p_types p))"

section \<open>The statistics invariant\<close>

text \<open>The histogram has one entry per error, counts no more errors than requests (as unbounded
  numbers, so neither counter has wrapped) and every recorded time is non-negative.\<close>

definition err_count :: "(proxy_error \<times> u32) list \<Rightarrow> nat" where
  "err_count es = sum_list (map (unat \<circ> snd) es)"

definition stats_ok :: "proxy \<Rightarrow> bool" where
  "stats_ok p \<longleftrightarrow> distinct (map fst (p_errors p)) \<and> err_count (p_errors p) \<le> unat (p_requests p)
     \<and> list_all ((\<le>) 0) (runtimes p) \<and> list_all ((\<le>) 0) (probe_runtimes p)"

lemma type_keys_iff [simp]: "pr \<in> set (type_keys m) \<longleftrightarrow> m pr \<noteq> None"
  by (simp add: type_keys_def)

lemma type_entries_iff: "(pr, l) \<in> set (type_entries m) \<longleftrightarrow> m pr = Some l"
  by (auto simp: type_entries_def)

lemma is_working_iff: "is_working p \<longleftrightarrow> (\<exists>pr. p_types p pr \<noteq> None)"
  by (metis is_working_def type_keys_iff list.set_intros(1) neq_Nil_conv empty_iff list.set(1))

lemma list_ex_type_keys: "list_ex f (type_keys m) \<longleftrightarrow> (\<exists>pr. m pr \<noteq> None \<and> f pr)"
  by (simp only: list_ex_iff type_keys_iff Bex_def)

lemma schemes_iff:
  "SHttp \<in> set (schemes p) \<longleftrightarrow> p_types p Http \<noteq> None \<or> p_types p Connect80 \<noteq> None
     \<or> p_types p Socks4 \<noteq> None \<or> p_types p Socks5 \<noteq> None"
  "SHttps \<in> set (schemes p) \<longleftrightarrow> p_types p Https \<noteq> None \<or> p_types p Socks4 \<noteq> None
     \<or> p_types p Socks5 \<noteq> None"
  by (simp_all only: schemes_def list_ex_type_keys http_protos_def https_protos_def list.set
      insert_iff empty_iff conj_disj_distribL ex_disj_distrib simp_thms set_append split: if_split)
    auto

lemma bump_fst: "fst ` set (bump e es) = insert e (fst ` set es)"
proof (induction es)
  case (Cons x es)
  then show ?case by (cases x) auto
qed simp

lemma bump_distinct: "distinct (map fst es) \<Longrightarrow> distinct (map fst (bump e es))"
proof (induction es)
  case (Cons x es)
  then show ?case using bump_fst[of e es] by (cases x) auto
qed simp

lemma unat_inc: "unat (n :: u32) < 4294967295 \<Longrightarrow> unat (n + 1) = Suc (unat n)"
  using unat_add_lem[of n 1] by simp

lemma err_count_Nil [simp]: "err_count [] = 0"
  by (simp add: err_count_def)

lemma err_count_Cons [simp]: "err_count (x # es) = unat (snd x) + err_count es"
  by (simp add: err_count_def)

lemma err_count_bump: "err_count es < 4294967295 \<Longrightarrow> err_count (bump e es) = Suc (err_count es)"
proof (induction es)
  case (Cons x es)
  then show ?case using unat_inc[of "snd x"] by (cases x) auto
qed simp

lemma errors_sum_le: "err_count es < 4294967296 \<Longrightarrow> unat (sum_list (map snd es)) = err_count es"
proof (induction es)
  case (Cons x es)
  then have "unat (sum_list (map snd es)) = err_count es" by simp
  with Cons.prems show ?case using unat_add_lem[of "snd x" "sum_list (map snd es)"] by simp
qed simp

lemma stats_ok_new [simp]: "stats_ok (proxy_new h pt ex)"
  by (simp add: stats_ok_def proxy_new_def err_count_def)

lemma stats_ok_record_attempt:
  assumes "stats_ok p" "unat (p_requests p) < 4294967295" "\<And>r. rt = Some r \<Longrightarrow> 0 \<le> r"
  shows "stats_ok (record_attempt rt err p)"
  using assms bump_distinct[of "p_errors p"] err_count_bump[of "p_errors p"] unat_inc[of "p_requests p"]
  by (auto simp: stats_ok_def record_attempt_def split: option.splits)

lemma errors_total_exact: "stats_ok p \<Longrightarrow> unat (errors_total p) = err_count (p_errors p)"
  using unsigned_less[where 'a = nat, of "p_requests p"]
  by (simp add: stats_ok_def errors_total_def errors_sum_le)

lemma ratio_range: "a \<le> b \<Longrightarrow> 0 \<le> real a / real b" "a \<le> b \<Longrightarrow> real a / real b \<le> 1"
  by (simp, cases "b = 0") (simp_all add: divide_le_eq_1)

lemma error_rate_range: "stats_ok p \<Longrightarrow> 0 \<le> error_rate p \<and> error_rate p \<le> 1"
proof -
  assume ok: "stats_ok p"
  then have "unat (errors_total p) \<le> unat (p_requests p)"
    using errors_total_exact[OF ok] by (simp add: stats_ok_def)
  then have "0 \<le> round2 (real (unat (errors_total p)) / real (unat (p_requests p)))"
    "round2 (real (unat (errors_total p)) / real (unat (p_requests p))) \<le> 1"
    using ratio_range by (blast intro: round2_nonneg round2_le_1)+
  then show ?thesis by (simp only: error_rate_def) simp
qed

lemma mean2_nonneg: "list_all ((\<le>) 0) xs \<Longrightarrow> 0 \<le> mean2 xs"
  by (auto simp: mean2_def list_all_iff intro!: round2_nonneg divide_nonneg_nonneg sum_list_nonneg)

lemma avg_resp_time_nonneg: "stats_ok p \<Longrightarrow> 0 \<le> avg_resp_time p"
  by (simp add: stats_ok_def avg_resp_time_def mean2_nonneg)

lemma record_attempt_simps [simp]:
  "p_host (record_attempt rt e p) = p_host p" "p_port (record_attempt rt e p) = p_port p"
  "p_types (record_attempt rt e p) = p_types p" "p_auth (record_attempt rt e p) = p_auth p"
  "p_requests (record_attempt rt e p) = p_requests p + 1"
  "schemes (record_attempt rt e p) = schemes p" "p_geo (record_attempt rt e p) = p_geo p"
  by (simp_all add: record_attempt_def schemes_def)

lemma record_trust_set: "set (p_trust (record_trust r p)) = set (p_trust p) \<union> set r"
proof -
  have "set (foldl (\<lambda>acc s. if s \<in> set acc then acc else acc @ [s]) t r) = set t \<union> set r" for t
    by (induction r arbitrary: t) auto
  then show ?thesis by (simp add: record_trust_def)
qed

lemma record_trust_distinct: "distinct (p_trust p) \<Longrightarrow> distinct (p_trust (record_trust r p))"
proof -
  have "distinct t \<Longrightarrow> distinct (foldl (\<lambda>acc s. if s \<in> set acc then acc else acc @ [s]) t r)" for t
    by (induction r arbitrary: t) auto
  then show "distinct (p_trust p) \<Longrightarrow> ?thesis" by (simp add: record_trust_def)
qed

section \<open>Percentiles\<close>

lemma interpolate_between:
  assumes "sorted s" "0 \<le> x" "nat \<lceil>x\<rceil> < length s"
  shows "s ! nat \<lfloor>x\<rfloor> \<le> interpolate s x" "interpolate s x \<le> s ! nat \<lceil>x\<rceil>"
proof -
  let ?l = "s ! nat \<lfloor>x\<rfloor>" and ?h = "s ! nat \<lceil>x\<rceil>" and ?f = "x - real (nat \<lfloor>x\<rfloor>)"
  have "nat \<lfloor>x\<rfloor> \<le> nat \<lceil>x\<rceil>" by (intro nat_mono) linarith
  then have "?l \<le> ?h" using assms by (intro sorted_nth_mono)
  moreover have "0 \<le> ?f" "?f \<le> 1" using assms(2) by (simp_all add: of_nat_nat) linarith
  ultimately have "0 \<le> ?f * (?h - ?l)" "?f * (?h - ?l) \<le> 1 * (?h - ?l)"
    by (simp, intro mult_right_mono) auto
  then show "?l \<le> interpolate s x" "interpolate s x \<le> ?h"
    by (simp_all add: interpolate_def Let_def)
qed

lemma interpolate_mono:
  assumes "sorted s" "0 \<le> x" "x \<le> y" "nat \<lceil>y\<rceil> < length s"
  shows "interpolate s x \<le> interpolate s y"
proof (cases "\<lfloor>x\<rfloor> = \<lfloor>y\<rfloor>")
  case True
  show ?thesis
  proof (cases "x = of_int \<lfloor>x\<rfloor>")
    case x: True
    then have "interpolate s x = s ! nat \<lfloor>x\<rfloor>"
      using assms(2) by (simp add: interpolate_def)
    with True interpolate_between(1)[OF assms(1) _ assms(4)] assms(2,3) show ?thesis by simp
  next
    case False
    then have "\<lceil>x\<rceil> = \<lfloor>x\<rfloor> + 1" "\<lceil>y\<rceil> = \<lfloor>x\<rfloor> + 1"
      using True assms(3) by linarith+
    moreover have "s ! nat \<lfloor>x\<rfloor> \<le> s ! nat (\<lfloor>x\<rfloor> + 1)"
      using assms calculation by (intro sorted_nth_mono) auto
    ultimately show ?thesis using True assms(3)
      by (simp add: interpolate_def Let_def mult_right_mono)
  qed
next
  case False
  with floor_mono[OF assms(3)] have xy: "\<lceil>x\<rceil> \<le> \<lfloor>y\<rfloor>" by linarith
  have yy: "\<lfloor>y\<rfloor> \<le> \<lceil>y\<rceil>" by linarith
  have "s ! nat \<lceil>x\<rceil> \<le> s ! nat \<lfloor>y\<rfloor>" "nat \<lceil>x\<rceil> < length s"
    using nat_mono[OF xy] nat_mono[OF yy] assms(1,4)
    by (blast intro: sorted_nth_mono le_less_trans)+
  with interpolate_between(2)[OF assms(1,2)] interpolate_between(1)[OF assms(1) _ assms(4)]
    assms(2,3) show ?thesis by (meson order_trans)
qed

lemma percentile_rank:
  assumes "xs \<noteq> []" "0 \<le> q" "q \<le> 1"
  shows "nat \<lceil>q * real (length (sort xs) - 1)\<rceil> < length (sort xs)"
proof -
  let ?n = "length (sort xs)"
  have "q * real (?n - 1) \<le> real (?n - 1)" using assms(2,3) by (simp add: mult_left_le_one_le)
  then have "\<lceil>q * real (?n - 1)\<rceil> \<le> int (?n - 1)" by (simp add: ceiling_le_iff)
  then show ?thesis using assms(1) by (cases xs) (simp_all add: nat_le_iff le_imp_less_Suc)
qed

lemma percentile_defined: "0 \<le> q \<Longrightarrow> q \<le> 1 \<Longrightarrow> percentile xs q \<noteq> None"
  using percentile_rank[of xs q] by (simp add: percentile_def Let_def)

lemma percentile_mono_aux:
  assumes "0 \<le> q" "q \<le> r" "r \<le> 1" "percentile xs q = Some a" "percentile xs r = Some b"
  shows "a \<le> b"
proof (cases "xs = []")
  case True
  with assms show ?thesis by (simp add: percentile_def)
next
  case False
  let ?k = "real (length (sort xs) - 1)"
  have "interpolate (sort xs) (q * ?k) \<le> interpolate (sort xs) (r * ?k)"
  proof (rule interpolate_mono)
    show "0 \<le> q * ?k" "q * ?k \<le> r * ?k" using assms(1,2) by (simp_all add: mult_right_mono)
    show "nat \<lceil>r * ?k\<rceil> < length (sort xs)" using assms by (intro percentile_rank[OF False]) auto
  qed simp
  with assms(4,5) False show ?thesis
    by (auto simp: percentile_def Let_def round2_mono split: if_splits)
qed

section \<open>Properties\<close>

text \<open>The printed address of a proxy, IPv6 in brackets, splits back into its host and port,
  whatever the default port.\<close>

theorem addr_roundtrip: "split_host_port (addr p) d = (show_ip (p_host p), p_port p)"
proof (cases "p_host p")
  case (V4 x y z u)
  then show ?thesis using split_host_port_plain[OF show_v4_hd] by (simp add: addr_def)
next
  case (V6 w)
  then show ?thesis using split_host_port_bracket[OF show_v6_char] by (simp add: addr_def)
qed

text \<open>The attempts made through a proxy, one after the other.\<close>

definition record_all :: "(real option \<times> proxy_error option) list \<Rightarrow> proxy \<Rightarrow> proxy" where
  "record_all xs p = foldl (\<lambda>p (rt, e). record_attempt rt e p) p xs"

lemma record_all_stats:
  assumes "stats_ok p" "unat (p_requests p) + length xs \<le> 4294967295" "\<forall>(rt, e) \<in> set xs. \<forall>r. rt = Some r \<longrightarrow> 0 \<le> r"
  shows "stats_ok (record_all xs p) \<and> unat (p_requests (record_all xs p)) = unat (p_requests p) + length xs
    \<and> err_count (p_errors (record_all xs p)) = err_count (p_errors p) + length (filter (\<lambda>(rt, e). e \<noteq> None) xs)"
  using assms
proof (induction xs arbitrary: p)
  case Nil
  then show ?case by (simp add: record_all_def)
next
  case (Cons x xs)
  obtain rt e where x: "x = (rt, e)" by (cases x)
  let ?p = "record_attempt rt e p"
  have ok: "stats_ok ?p" and n: "unat (p_requests ?p) = Suc (unat (p_requests p))"
    using Cons.prems x unat_inc[of "p_requests p"] by (auto intro!: stats_ok_record_attempt)
  have e: "err_count (p_errors ?p) = err_count (p_errors p) + (if e = None then 0 else 1)"
    using Cons.prems err_count_bump[of "p_errors p"]
    by (auto simp: record_attempt_def stats_ok_def split: option.splits)
  have "record_all (x # xs) p = record_all xs ?p" by (simp add: record_all_def x)
  with Cons.IH[OF ok] Cons.prems n e x show ?case by auto
qed

text \<open>After any sequence of fewer than \<open>2\<^sup>3\<^sup>2\<close> attempts with non-negative times, a new proxy
  has counted every attempt and every error exactly once, and its error rate is a fraction between 0
  and 1 within half a hundredth of the true one.\<close>

theorem attempts_counted:
  assumes "length xs < 4294967296" "\<forall>(rt, e) \<in> set xs. \<forall>r. rt = Some r \<longrightarrow> 0 \<le> r"
  shows "let p = record_all xs (proxy_new h pt ex)
   in unat (p_requests p) = length xs
    \<and> unat (errors_total p) = length (filter (\<lambda>(rt, e). e \<noteq> None) xs)
    \<and> 0 \<le> error_rate p \<and> error_rate p \<le> 1 \<and> 0 \<le> avg_resp_time p
    \<and> \<bar>error_rate p - real (length (filter (\<lambda>(rt, e). e \<noteq> None) xs)) / real (length xs)\<bar> \<le> 1/200"
proof -
  define p where "p = record_all xs (proxy_new h pt ex)"
  have z: "unat (p_requests (proxy_new h pt ex)) = 0" "err_count (p_errors (proxy_new h pt ex)) = 0"
    by (simp_all add: proxy_new_def)
  have ok: "stats_ok p" and n: "unat (p_requests p) = length xs"
    and e: "err_count (p_errors p) = length (filter (\<lambda>(rt, e). e \<noteq> None) xs)"
    using record_all_stats[OF stats_ok_new _ assms(2), of h pt ex] assms(1) z by (simp_all add: p_def)
  then have t: "unat (errors_total p) = length (filter (\<lambda>(rt, e). e \<noteq> None) xs)"
    using errors_total_exact[OF ok] by simp
  have "\<bar>error_rate p - real (length (filter (\<lambda>(rt, e). e \<noteq> None) xs)) / real (length xs)\<bar> \<le> 1/200"
    using round2_near[of "real (unat (errors_total p)) / real (unat (p_requests p))"] n t
    by (auto simp: error_rate_def unat_eq_zero)
  with n t error_rate_range[OF ok] avg_resp_time_nonneg[OF ok] show ?thesis
    unfolding p_def[symmetric] Let_def by simp
qed

theorem attempts_counted_witness:
  "let xs = [(Some (1/2), None), (None, Some Timeout)];
       p = record_all xs (proxy_new (V4 1 2 3 4) 80 {})
   in unat (p_requests p) = length xs
    \<and> unat (errors_total p) = length (filter (\<lambda>(rt, e). e \<noteq> None) xs)
    \<and> 0 \<le> error_rate p \<and> error_rate p \<le> 1 \<and> 0 \<le> avg_resp_time p
    \<and> \<bar>error_rate p - real (length (filter (\<lambda>(rt, e). e \<noteq> None) xs)) / real (length xs)\<bar> \<le> 1/200"
proof -
  let ?xs = "[(Some (1/2), None), (None, Some Timeout)] :: (real option \<times> proxy_error option) list"
  have "length ?xs < 4294967296" "\<forall>(rt, e) \<in> set ?xs. \<forall>r. rt = Some r \<longrightarrow> 0 \<le> r" by auto
  from attempts_counted[OF this] show ?thesis unfolding Let_def .
qed

text \<open>Percentiles of any data are defined for every fraction between 0 and 1 and grow with it.\<close>

theorem percentile_mono:
  assumes "0 \<le> q" "q \<le> r" "r \<le> 1"
  shows "\<exists>a b. percentile xs q = Some a \<and> percentile xs r = Some b \<and> a \<le> b"
proof -
  obtain a b where "percentile xs q = Some a" "percentile xs r = Some b"
    using percentile_defined[of q xs] percentile_defined[of r xs] assms by auto
  with percentile_mono_aux[OF assms] show ?thesis by blast
qed

theorem percentile_mono_witness:
  "\<exists>a b. percentile [3, 1, 2] (1/2) = Some a \<and> percentile [3, 1, 2] (9/10) = Some b \<and> a \<le> b"
  by (rule percentile_mono) simp_all

end
