(* ===== verification/Pool.thy ===== *)
theory Pool
  imports Proxy
begin

text \<open>
  The pool of \<^verbatim>\<open>src/src/server.rs\<close>: its configuration and state, the selection strategies, checking
  a proxy out and returning it, the operations the control interface, the re-checker, the watcher
  and the MCP tools use, and the snapshot.

  The two mutexes and the atomics of \<^verbatim>\<open>Pool\<close> are fields of one record and each method is a function
  on it; a method is one atomic step (the methods hold no lock across another call). The current
  instant is an argument. The iteration order of the \<open>sessions\<close> hash map is the order of the
  association list. The process-wide generator state of \<^verbatim>\<open>next_rand\<close> is the field \<open>rng\<close>.
\<close>

section \<open>Configuration and state\<close>

datatype strategy = Best | RoundRobin | Random | Sticky

datatype client_key = KeyIp ip_addr | KeyHeader string

record pool_config =
  max_tries :: nat
  max_error_rate :: real
  max_resp_time :: real
  min_req :: u32
  countries :: "string set option"
  strategy_of :: strategy
  sticky_header :: "string option"
  max_sessions :: nat
  fail_timeout :: duration
  prefer_connect :: bool
  http_allowed_codes :: "nat list option"
  verify_on_lease :: "duration option"
  verify_target :: "string \<times> u16"

definition pool_config_default :: pool_config where
  "pool_config_default =
     \<lparr>max_tries = 3, max_error_rate = 1/2, max_resp_time = 8, min_req = 5, countries = None,
      strategy_of = Best, sticky_header = None, max_sessions = 10000,
      fail_timeout = 30000000000, prefer_connect = False, http_allowed_codes = None,
      verify_on_lease = None, verify_target = (''1.1.1.1'', 443)\<rparr>"

record pooled =
  pl_proxy :: proxy
  blocked_until :: "instant option"

record pool =
  entries :: "pooled list"
  sessions :: "(client_key \<times> sock_addr) list"
  round_robin :: u64
  config :: pool_config
  exhausted :: bool
  evictions :: u64
  rotations :: u64
  rng :: u64

text \<open>\<^verbatim>\<open>country_ok\<close> of \<^verbatim>\<open>src/src/broker.rs\<close>, the admission filter.\<close>

definition country_ok :: "proxy \<Rightarrow> string set option \<Rightarrow> bool" where
  "country_ok p cs =
     (case cs of None \<Rightarrow> True
      | Some allowed \<Rightarrow>
         (case p_geo p of None \<Rightarrow> False | Some c \<Rightarrow> uppercase (c_code c) \<in> allowed))"

definition rng_seed :: u64 where
  "rng_seed = 0x9E3779B97F4A7C15"

definition ready_entry :: "proxy \<Rightarrow> pooled" where
  "ready_entry p = \<lparr>pl_proxy = p, blocked_until = None\<rparr>"

definition from_proxies :: "proxy list \<Rightarrow> pool_config \<Rightarrow> pool" where
  "from_proxies ps cfg =
     \<lparr>entries = map ready_entry (filter (\<lambda>p. country_ok p (countries cfg)) ps), sessions = [],
      round_robin = 0, config = cfg, exhausted = True, evictions = 0, rotations = 0,
      rng = rng_seed\<rparr>"

text \<open>\<^verbatim>\<open>Pool::spawn\<close>: the empty pool, and the two kinds of step of its importer task.\<close>

definition spawned :: "pool_config \<Rightarrow> pool" where
  "spawned cfg =
     \<lparr>entries = [], sessions = [], round_robin = 0, config = cfg, exhausted = False,
      evictions = 0, rotations = 0, rng = rng_seed\<rparr>"

definition import_one :: "proxy \<Rightarrow> pool \<Rightarrow> pool" where
  "import_one p pl =
     (if \<not> country_ok p (countries (config pl)) then pl
      else pl\<lparr>entries := entries pl @ [ready_entry p]\<rparr>)"

definition import_end :: "pool \<Rightarrow> pool" where
  "import_end pl = pl\<lparr>exhausted := True\<rparr>"

section \<open>Selection\<close>

record select_ctx =
  cx_scheme :: scheme
  cx_strategy :: strategy
  cx_sticky :: "sock_addr option"
  cx_cursor :: u64
  cx_now :: instant
  cx_prefer_connect :: bool
  cx_rng :: u64

definition entry_ready :: "instant \<Rightarrow> pooled \<Rightarrow> bool" where
  "entry_ready now e \<longleftrightarrow> (case blocked_until e of None \<Rightarrow> True | Some t \<Rightarrow> t \<le> now)"

definition serves :: "scheme \<Rightarrow> pooled \<Rightarrow> bool" where
  "serves sc e \<longleftrightarrow> sc \<in> set (schemes (pl_proxy e))"

definition tier_of :: "pooled list \<Rightarrow> select_ctx \<Rightarrow> bool \<Rightarrow> nat list" where
  "tier_of es cx ready =
     filter (\<lambda>i. serves (cx_scheme cx) (es ! i) \<and> entry_ready (cx_now cx) (es ! i) = ready)
       [0..<length es]"

definition has_connect :: "pooled list \<Rightarrow> nat \<Rightarrow> bool" where
  "has_connect es i \<longleftrightarrow> p_types (pl_proxy (es ! i)) Connect80 \<noteq> None"

definition connect_biased :: "pooled list \<Rightarrow> nat list \<Rightarrow> bool \<Rightarrow> nat list" where
  "connect_biased es tier prefer =
     (if \<not> prefer then tier
      else let c = filter (has_connect es) tier in if c = [] then tier else c)"

definition priority_key :: "pooled list \<Rightarrow> bool \<Rightarrow> nat \<Rightarrow> real \<times> real \<times> nat" where
  "priority_key es prefer i =
     (case priority (pl_proxy (es ! i)) of (e, t) \<Rightarrow>
        (e, t, if prefer \<and> \<not> has_connect es i then 1 else 0))"

definition best_by_priority :: "pooled list \<Rightarrow> nat list \<Rightarrow> bool \<Rightarrow> nat option" where
  "best_by_priority es eligible prefer =
     min_by (\<lambda>a b. priority_key es prefer a < priority_key es prefer b) eligible"

definition next_rand :: "nat \<Rightarrow> u64 \<Rightarrow> nat \<times> u64" where
  "next_rand n st =
     (let x1 = xor st (push_bit 13 st);
          x2 = xor x1 (drop_bit 7 x1);
          x3 = xor x2 (push_bit 17 x2)
      in (unat x3 mod max n 1, x3))"

definition the_tier :: "pooled list \<Rightarrow> select_ctx \<Rightarrow> nat list" where
  "the_tier es cx = (let ready = tier_of es cx True in if ready = [] then tier_of es cx False else ready)"

text \<open>The chosen index and the generator state afterwards (only \<open>Random\<close> draws).\<close>

definition best_for :: "pooled list \<Rightarrow> select_ctx \<Rightarrow> nat option \<times> u64" where
  "best_for es cx =
     (let tier = the_tier es cx
      in if tier = [] then (None, cx_rng cx)
         else case cx_strategy cx of
           Best \<Rightarrow> (best_by_priority es tier (cx_prefer_connect cx), cx_rng cx)
         | RoundRobin \<Rightarrow>
             let pick = connect_biased es tier (cx_prefer_connect cx)
             in (Some (pick ! (unat (cx_cursor cx) mod length pick)), cx_rng cx)
         | Random \<Rightarrow>
             let pick = connect_biased es tier (cx_prefer_connect cx);
                 (k, g) = next_rand (length pick) (cx_rng cx)
             in (Some (pick ! k), g)
         | Sticky \<Rightarrow>
             (case cx_sticky cx of
                None \<Rightarrow> (best_by_priority es tier (cx_prefer_connect cx), cx_rng cx)
              | Some a \<Rightarrow>
                 (case find (\<lambda>i. p_addr (pl_proxy (es ! i)) = a) tier of
                    Some i \<Rightarrow> (Some i, cx_rng cx)
                  | None \<Rightarrow> (best_by_priority es tier (cx_prefer_connect cx), cx_rng cx))))"

section \<open>Checking out and returning\<close>

fun session_put :: "client_key \<Rightarrow> sock_addr \<Rightarrow> (client_key \<times> sock_addr) list
    \<Rightarrow> (client_key \<times> sock_addr) list" where
  "session_put k a [] = [(k, a)]"
| "session_put k a ((k', a') # s) = (if k' = k then (k, a) # s else (k', a') # session_put k a s)"

definition record_session :: "client_key \<Rightarrow> sock_addr \<Rightarrow> pool \<Rightarrow> pool" where
  "record_session k a pl =
     (let s = sessions pl;
          s' = (if max_sessions (config pl) \<le> length s \<and> map_of s k = None then drop 1 s else s)
      in pl\<lparr>sessions := session_put k a s'\<rparr>)"

definition select_ctx_of :: "instant \<Rightarrow> scheme \<Rightarrow> client_key \<Rightarrow> pool \<Rightarrow> select_ctx" where
  "select_ctx_of now sc key pl =
     \<lparr>cx_scheme = sc, cx_strategy = strategy_of (config pl),
      cx_sticky = (if strategy_of (config pl) = Sticky then map_of (sessions pl) key else None),
      cx_cursor = round_robin pl, cx_now = now, cx_prefer_connect = prefer_connect (config pl),
      cx_rng = rng pl\<rparr>"

definition try_select :: "instant \<Rightarrow> scheme \<Rightarrow> client_key \<Rightarrow> pool \<Rightarrow> proxy option \<times> pool" where
  "try_select now sc key pl =
     (case best_for (entries pl) (select_ctx_of now sc key pl) of
        (None, g) \<Rightarrow> (None, pl\<lparr>rng := g\<rparr>)
      | (Some i, g) \<Rightarrow>
         let chosen = pl_proxy (entries pl ! i);
             pl1 = pl\<lparr>entries := swap_remove i (entries pl), rng := g\<rparr>;
             pl2 = (if strategy_of (config pl) = RoundRobin
               then pl1\<lparr>round_robin := round_robin pl1 + 1\<rparr> else pl1);
             pl3 = (if strategy_of (config pl) = Sticky
               then record_session key (p_addr chosen) pl2 else pl2)
         in (Some chosen, pl3))"

definition unhealthy :: "pool_config \<Rightarrow> proxy \<Rightarrow> bool" where
  "unhealthy cfg p \<longleftrightarrow> min_req cfg \<le> p_requests p \<and>
     (max_error_rate cfg < error_rate p \<or> max_resp_time cfg < avg_resp_time p)"

definition put_inner :: "proxy \<Rightarrow> instant option \<Rightarrow> pool \<Rightarrow> pool" where
  "put_inner p until pl =
     (if unhealthy (config pl) p then pl\<lparr>evictions := evictions pl + 1\<rparr>
      else pl\<lparr>entries := entries pl @ [\<lparr>pl_proxy = p, blocked_until = until\<rparr>]\<rparr>)"

definition put_ok :: "proxy \<Rightarrow> pool \<Rightarrow> pool" where
  "put_ok p pl = put_inner p None pl"

definition put_failed :: "instant \<Rightarrow> proxy \<Rightarrow> pool \<Rightarrow> pool" where
  "put_failed now p pl = put_inner p (Some (now + fail_timeout (config pl))) pl"

text \<open>\<^verbatim>\<open>Pool::get\<close>. The clock and the liveness probe (\<open>verify_live\<close>, a network exchange) are read
  once per round, so they are functions of the number of failed probes so far. \<open>env\<close> is what the
  other tasks did to the pool in round \<open>n\<close>, while the probe ran, or between the first look
  and the test of the exhausted flag (a round has at most one of the two). \<open>Waiting\<close> is the suspension on the notifier,
  after which the loop resumes with the same count.\<close>

datatype lease = Leased proxy | NoProxies | Waiting nat

definition verify_max_attempts :: nat where
  "verify_max_attempts = 8"

function get_loop :: "(nat \<Rightarrow> instant) \<Rightarrow> (nat \<Rightarrow> proxy \<Rightarrow> bool) \<Rightarrow> (nat \<Rightarrow> pool \<Rightarrow> pool) \<Rightarrow> scheme
    \<Rightarrow> client_key \<Rightarrow> nat \<Rightarrow> pool \<Rightarrow> lease \<times> pool" where
  "get_loop clk live env sc key n pl =
     (case try_select (clk n) sc key pl of
        (Some p, pl1) \<Rightarrow>
          (case verify_on_lease (config pl1) of
             None \<Rightarrow> (Leased p, pl1)
           | Some _ \<Rightarrow>
               if live n p then (Leased p, env n pl1)
               else let pl2 = put_failed (clk n) p (env n pl1)
                 in if verify_max_attempts \<le> n + 1 then (NoProxies, pl2)
                    else get_loop clk live env sc key (n + 1) pl2)
      | (None, pl1) \<Rightarrow>
          let pl2 = env n pl1
          in if exhausted pl2 then
               (case try_select (clk n) sc key pl2 of
                  (Some p, pl3) \<Rightarrow> (Leased p, pl3)
                | (None, pl3) \<Rightarrow> (NoProxies, pl3))
             else (Waiting n, pl2))"
  by pat_completeness auto
termination
  by (relation "measure (\<lambda>(clk, live, env, sc, key, n, pl). verify_max_attempts - n)") auto

declare get_loop.simps [simp del]

definition get :: "(nat \<Rightarrow> instant) \<Rightarrow> (nat \<Rightarrow> proxy \<Rightarrow> bool) \<Rightarrow> (nat \<Rightarrow> pool \<Rightarrow> pool) \<Rightarrow> scheme
    \<Rightarrow> client_key \<Rightarrow> pool \<Rightarrow> lease \<times> pool" where
  "get clk live env sc key pl = get_loop clk live env sc key 0 pl"

text \<open>No other task runs in between.\<close>

definition quiet :: "nat \<Rightarrow> pool \<Rightarrow> pool" where
  "quiet n pl = pl"

section \<open>The other operations\<close>

definition pool_len :: "pool \<Rightarrow> nat" where
  "pool_len pl = length (entries pl)"

definition at_addr :: "sock_addr \<Rightarrow> pooled \<Rightarrow> bool" where
  "at_addr a e \<longleftrightarrow> p_addr (pl_proxy e) = a"

definition pool_remove :: "sock_addr \<Rightarrow> pool \<Rightarrow> bool \<times> pool" where
  "pool_remove a pl =
     (let es = filter (\<lambda>e. \<not> at_addr a e) (entries pl)
      in (length (entries pl) \<noteq> length es, pl\<lparr>entries := es\<rparr>))"

definition pool_add :: "proxy \<Rightarrow> pool \<Rightarrow> pool" where
  "pool_add p pl =
     (if list_ex (at_addr (p_addr p)) (entries pl) then pl
      else pl\<lparr>entries := entries pl @ [ready_entry p]\<rparr>)"

definition addrs :: "pool \<Rightarrow> sock_addr set" where
  "addrs pl = set (map (p_addr \<circ> pl_proxy) (entries pl))"

definition pool_proxies :: "pool \<Rightarrow> proxy list" where
  "pool_proxies pl = map pl_proxy (entries pl)"

definition country_match :: "string option \<Rightarrow> proxy \<Rightarrow> bool" where
  "country_match cc p =
     (case cc of None \<Rightarrow> True
      | Some c \<Rightarrow> (case p_geo p of None \<Rightarrow> False | Some g \<Rightarrow> eq_ignore_case (c_code g) c))"

definition try_get :: "scheme \<Rightarrow> string option \<Rightarrow> pool \<Rightarrow> proxy option \<times> pool" where
  "try_get sc cc pl =
     (let es = entries pl;
          eligible = filter (\<lambda>i. serves sc (es ! i) \<and> country_match cc (pl_proxy (es ! i)))
            [0..<length es]
      in case best_by_priority es eligible (prefer_connect (config pl)) of
           None \<Rightarrow> (None, pl)
         | Some i \<Rightarrow> (Some (pl_proxy (es ! i)), pl\<lparr>entries := vec_remove i es\<rparr>))"

text \<open>\<^verbatim>\<open>Pool::wait_ready\<close> returns at once for 0 and otherwise as soon as its condition holds.\<close>

definition wait_ready_done :: "nat \<Rightarrow> pool \<Rightarrow> bool" where
  "wait_ready_done n pl \<longleftrightarrow> n = 0 \<or> n \<le> pool_len pl \<or> exhausted pl"

record pool_snapshot =
  sn_http :: nat
  sn_https :: nat
  sn_total :: nat
  sn_error_rate :: real
  sn_resp_time :: real
  sn_probe_latency :: real

definition snapshot :: "pool \<Rightarrow> pool_snapshot" where
  "snapshot pl =
     (let ps = pool_proxies pl; n = length ps;
          mean = (\<lambda>f. if 0 < n then sum_list (map f ps) / real n else 0)
      in \<lparr>sn_http = length (filter (\<lambda>p. SHttp \<in> set (schemes p)) ps),
          sn_https = length (filter (\<lambda>p. SHttps \<in> set (schemes p)) ps),
          sn_total = n, sn_error_rate = mean error_rate, sn_resp_time = mean avg_resp_time,
          sn_probe_latency = mean probe_latency\<rparr>)"

end
