(* ===== verification/Pool_Facts.thy ===== *)
theory Pool_Facts
  imports Pool
begin

text \<open>
  What the pool promises: which entry a strategy picks, that checking out and returning neither
  loses nor invents a proxy, that the session table stays bounded, how the set of pooled addresses
  changes. Two interfaces are stated as locales and interpreted on the pool: \<open>lease_pool\<close> (check
  out, return) for the relay loop and the connector, \<open>addr_pool\<close> (add, remove, list) for the
  watcher, the re-checker and the MCP tools.
\<close>

section \<open>Tiers\<close>

lemma tier_of_iff: "i \<in> set (tier_of es cx r) \<longleftrightarrow>
  i < length es \<and> serves (cx_scheme cx) (es ! i) \<and> entry_ready (cx_now cx) (es ! i) = r"
  by (auto simp: tier_of_def)

lemma the_tier_serves: "i \<in> set (the_tier es cx) \<Longrightarrow> i < length es \<and> serves (cx_scheme cx) (es ! i)"
  by (auto simp: the_tier_def Let_def tier_of_iff split: if_splits)

lemma the_tier_ready:
  assumes "i \<in> set (the_tier es cx)" "j < length es" "serves (cx_scheme cx) (es ! j)"
    "entry_ready (cx_now cx) (es ! j)"
  shows "entry_ready (cx_now cx) (es ! i)"
proof -
  have "j \<in> set (tier_of es cx True)" using assms by (simp add: tier_of_iff)
  then have "the_tier es cx = tier_of es cx True" by (auto simp: the_tier_def Let_def)
  with assms(1) show ?thesis by (simp add: tier_of_iff)
qed

lemma the_tier_empty: "the_tier es cx = [] \<longleftrightarrow> (\<forall>e \<in> set es. \<not> serves (cx_scheme cx) e)"
proof
  assume "the_tier es cx = []"
  then have "tier_of es cx True = []" "tier_of es cx False = []"
    by (auto simp: the_tier_def Let_def split: if_splits)
  then show "\<forall>e \<in> set es. \<not> serves (cx_scheme cx) e"
    by (auto simp: tier_of_def filter_empty_conv in_set_conv_nth)
next
  assume "\<forall>e \<in> set es. \<not> serves (cx_scheme cx) e"
  then show "the_tier es cx = []"
    by (auto simp: the_tier_def Let_def tier_of_def filter_empty_conv)
qed

lemma connect_biased_ne: "tier \<noteq> [] \<Longrightarrow> connect_biased es tier b \<noteq> []"
  by (simp add: connect_biased_def Let_def)

lemma connect_biased_subset: "set (connect_biased es tier b) \<subseteq> set tier"
  by (auto simp: connect_biased_def Let_def)

lemma best_by_priority_mem: "best_by_priority es tier b = Some i \<Longrightarrow> i \<in> set tier"
  unfolding best_by_priority_def by (rule min_by_key_least(1))

lemma best_by_priority_least:
  "best_by_priority es tier b = Some i \<Longrightarrow> j \<in> set tier \<Longrightarrow>
    priority_key es b i \<le> priority_key es b j"
  unfolding best_by_priority_def by (rule min_by_key_least(2))

lemma next_rand_less: "0 < n \<Longrightarrow> fst (next_rand n s) < n"
  by (simp add: next_rand_def Let_def max_def)

lemma best_for_mem:
  assumes "best_for es cx = (Some i, g)"
  shows "i \<in> set (the_tier es cx)"
proof -
  let ?t = "the_tier es cx" and ?b = "cx_prefer_connect cx"
  have ne: "?t \<noteq> []" using assms by (auto simp: best_for_def Let_def)
  note cb = connect_biased_ne[OF ne, of es ?b] connect_biased_subset[of es ?t ?b]
  show ?thesis
  proof (cases "cx_strategy cx")
    case Best
    then show ?thesis using assms ne best_by_priority_mem by (auto simp: best_for_def Let_def)
  next
    case RoundRobin
    have "connect_biased es ?t ?b ! (unat (cx_cursor cx) mod length (connect_biased es ?t ?b))
        \<in> set (connect_biased es ?t ?b)"
      using cb(1) by simp
    with RoundRobin cb(2) assms ne show ?thesis by (auto simp: best_for_def Let_def)
  next
    case Random
    have "connect_biased es ?t ?b ! fst (next_rand (length (connect_biased es ?t ?b)) (cx_rng cx))
        \<in> set (connect_biased es ?t ?b)"
      using cb(1) next_rand_less by (intro nth_mem) simp
    with Random cb(2) assms ne show ?thesis
      by (auto simp: best_for_def Let_def split: prod.splits)
  next
    case Sticky
    then show ?thesis using assms ne best_by_priority_mem
      by (auto simp: best_for_def Let_def find_Some_iff in_set_conv_nth split: option.splits)
  qed
qed

lemma best_by_priority_None [simp]: "best_by_priority es tier b = None \<longleftrightarrow> tier = []"
  by (simp add: best_by_priority_def)

lemma best_for_None_iff: "fst (best_for es cx) = None \<longleftrightarrow> (\<forall>e \<in> set es. \<not> serves (cx_scheme cx) e)"
  unfolding the_tier_empty[symmetric] best_for_def Let_def
  by (cases "the_tier es cx = []"; cases "cx_strategy cx")
    (simp_all del: not_None_eq split: option.split prod.split)

section \<open>One checkout\<close>

definition held :: "pool \<Rightarrow> sock_addr multiset" where
  "held pl = mset (map (p_addr \<circ> pl_proxy) (entries pl))"

lemma record_session_simps [simp]:
  "entries (record_session k a pl) = entries pl" "config (record_session k a pl) = config pl"
  "exhausted (record_session k a pl) = exhausted pl" "evictions (record_session k a pl) = evictions pl"
  "rotations (record_session k a pl) = rotations pl" "round_robin (record_session k a pl) = round_robin pl"
  by (simp_all add: record_session_def Let_def)

lemma try_select_simps [simp]:
  "config (snd (try_select now sc key pl)) = config pl"
  "exhausted (snd (try_select now sc key pl)) = exhausted pl"
  "evictions (snd (try_select now sc key pl)) = evictions pl"
  "rotations (snd (try_select now sc key pl)) = rotations pl"
  by (auto simp: try_select_def Let_def split: prod.splits option.splits)

lemma try_select_Some:
  assumes "try_select now sc key pl = (Some p, pl')"
  obtains i where "i < length (entries pl)" "serves sc (entries pl ! i)"
    "i \<in> set (the_tier (entries pl) (select_ctx_of now sc key pl))"
    "p = pl_proxy (entries pl ! i)" "entries pl' = swap_remove i (entries pl)"
proof -
  obtain i g where b: "best_for (entries pl) (select_ctx_of now sc key pl) = (Some i, g)"
    using assms by (auto simp: try_select_def split: prod.splits option.splits)
  show ?thesis
  proof
    show t: "i \<in> set (the_tier (entries pl) (select_ctx_of now sc key pl))"
      using b by (rule best_for_mem)
    then show "i < length (entries pl)" "serves sc (entries pl ! i)"
      using the_tier_serves by (fastforce simp: select_ctx_of_def)+
    show "p = pl_proxy (entries pl ! i)" "entries pl' = swap_remove i (entries pl)"
      using assms b by (auto simp: try_select_def Let_def)
  qed
qed

lemma try_select_None:
  assumes "try_select now sc key pl = (None, pl')"
  shows "entries pl' = entries pl" "\<And>e. e \<in> set (entries pl) \<Longrightarrow> \<not> serves sc e"
proof -
  from assms have n: "fst (best_for (entries pl) (select_ctx_of now sc key pl)) = None"
    by (auto simp: try_select_def Let_def split: prod.splits option.splits)
  then show "\<And>e. e \<in> set (entries pl) \<Longrightarrow> \<not> serves sc e"
    by (simp add: best_for_None_iff select_ctx_of_def)
  from assms n show "entries pl' = entries pl"
    by (auto simp: try_select_def Let_def split: prod.splits option.splits)
qed

lemma held_try_select:
  assumes "try_select now sc key pl = (Some p, pl')"
  shows "held pl = add_mset (p_addr p) (held pl')"
proof -
  obtain i where i: "i < length (entries pl)" "p = pl_proxy (entries pl ! i)"
    "entries pl' = swap_remove i (entries pl)"
    using assms by (rule try_select_Some)
  have "mset (entries pl) = add_mset (entries pl ! i) (mset (entries pl'))"
    using i by (simp add: mset_swap_remove)
  then show ?thesis by (simp add: held_def i(2))
qed

lemma put_inner_simps [simp]:
  "config (put_inner p u pl) = config pl" "exhausted (put_inner p u pl) = exhausted pl"
  "rotations (put_inner p u pl) = rotations pl" "sessions (put_inner p u pl) = sessions pl"
  "round_robin (put_inner p u pl) = round_robin pl"
  by (simp_all add: put_inner_def)

lemma held_put_inner: "held (put_inner p u pl) =
  (if unhealthy (config pl) p then held pl else add_mset (p_addr p) (held pl))"
  by (simp add: held_def put_inner_def)

section \<open>The lease interface\<close>

text \<open>
  What a client of the pool may rely on: \<open>take\<close> hands out one of the held addresses or changes
  nothing, \<open>give\<close> puts one back or drops it, the count of drops is exact.
\<close>

locale lease_pool =
  fixes take_one :: "'c \<Rightarrow> 's \<Rightarrow> 'p option \<times> 's"
    and give :: "'b \<Rightarrow> 'p \<Rightarrow> 's \<Rightarrow> 's"
    and adr :: "'p \<Rightarrow> 'a"
    and hold :: "'s \<Rightarrow> 'a multiset"
    and dropped :: "'s \<Rightarrow> 64 word"
  assumes take_Some: "take_one c s = (Some p, s') \<Longrightarrow> hold s = add_mset (adr p) (hold s') \<and> dropped s' = dropped s"
    and take_None: "take_one c s = (None, s') \<Longrightarrow> hold s' = hold s \<and> dropped s' = dropped s"
    and give_cases: "(hold (give b p s) = add_mset (adr p) (hold s) \<and> dropped (give b p s) = dropped s)
      \<or> (hold (give b p s) = hold s \<and> dropped (give b p s) = dropped s + 1)"
begin

text \<open>One cycle: check a proxy out, let it change without changing its address, put it back.\<close>

definition cycle :: "'c \<Rightarrow> 'b \<Rightarrow> ('p \<Rightarrow> 'p) \<Rightarrow> 's \<Rightarrow> 's" where
  "cycle c b f s = (case take_one c s of (None, s') \<Rightarrow> s' | (Some p, s') \<Rightarrow> give b (f p) s')"

definition balanced :: "'s \<Rightarrow> 's \<Rightarrow> bool" where
  "balanced s t \<longleftrightarrow> (\<exists>gone. hold s = hold t + gone \<and> dropped t = dropped s + of_nat (size gone))"

lemma balanced_refl: "balanced s s"
  unfolding balanced_def by (rule exI[of _ "{#}"]) simp

lemma balanced_trans: "balanced s t \<Longrightarrow> balanced t u \<Longrightarrow> balanced s u"
proof -
  assume "balanced s t" "balanced t u"
  then obtain g h where "hold s = hold t + g" "dropped t = dropped s + of_nat (size g)"
    "hold t = hold u + h" "dropped u = dropped t + of_nat (size h)"
    by (auto simp: balanced_def)
  then have "hold s = hold u + (h + g)" "dropped u = dropped s + of_nat (size (h + g))"
    by (simp_all add: ac_simps)
  then show ?thesis unfolding balanced_def by blast
qed

lemma take_give_balanced:
  assumes "take_one c s = (Some p, s')" "adr q = adr p"
  shows "balanced s (give b q s')"
proof -
  note t = take_Some[OF assms(1)]
  from give_cases[of b q s'] show ?thesis
  proof
    assume "hold (give b q s') = add_mset (adr q) (hold s') \<and> dropped (give b q s') = dropped s'"
    with t assms(2) have "hold s = hold (give b q s') + {#}"
      "dropped (give b q s') = dropped s + of_nat (size {#})" by simp_all
    then show ?thesis unfolding balanced_def by blast
  next
    assume "hold (give b q s') = hold s' \<and> dropped (give b q s') = dropped s' + 1"
    with t have "hold s = hold (give b q s') + {#adr p#}"
      "dropped (give b q s') = dropped s + of_nat (size {#adr p#})" by simp_all
    then show ?thesis unfolding balanced_def by blast
  qed
qed

lemma take_None_balanced: "take_one c s = (None, s') \<Longrightarrow> balanced s s'"
  using take_None[of c s s'] balanced_refl by (simp add: balanced_def)

lemma cycle_balanced: "(\<And>p. adr (f p) = adr p) \<Longrightarrow> balanced s (cycle c b f s)"
  by (cases "take_one c s"; cases "fst (take_one c s)")
    (auto simp: cycle_def intro: take_give_balanced take_None_balanced)

end

text \<open>A checkout is described by its instant, scheme and client; a return by the instant when the
  proxy failed, or \<open>None\<close> when it served.\<close>

definition lease_take :: "instant \<times> scheme \<times> client_key \<Rightarrow> pool \<Rightarrow> proxy option \<times> pool" where
  "lease_take c pl = (case c of (now, sc, key) \<Rightarrow> try_select now sc key pl)"

definition lease_give :: "instant option \<Rightarrow> proxy \<Rightarrow> pool \<Rightarrow> pool" where
  "lease_give failed_at p pl =
     (case failed_at of None \<Rightarrow> put_ok p pl | Some now \<Rightarrow> put_failed now p pl)"

interpretation lp: lease_pool lease_take lease_give p_addr held evictions
proof
  fix c pl p pl'
  assume "lease_take c pl = (Some p, pl')"
  then obtain now sc key where "try_select now sc key pl = (Some p, pl')"
    by (cases c) (auto simp: lease_take_def)
  then show "held pl = add_mset (p_addr p) (held pl') \<and> evictions pl' = evictions pl"
    using held_try_select try_select_simps(3)[of now sc key pl] by simp
next
  fix c pl pl'
  assume "lease_take c pl = (None, pl')"
  then obtain now sc key where "try_select now sc key pl = (None, pl')"
    by (cases c) (auto simp: lease_take_def)
  then show "held pl' = held pl \<and> evictions pl' = evictions pl"
    using try_select_None(1) try_select_simps(3)[of now sc key pl] by (auto simp: held_def)
next
  fix b p pl
  show "(held (lease_give b p pl) = add_mset (p_addr p) (held pl)
        \<and> evictions (lease_give b p pl) = evictions pl)
      \<or> (held (lease_give b p pl) = held pl \<and> evictions (lease_give b p pl) = evictions pl + 1)"
    by (cases b) (simp_all add: lease_give_def put_ok_def put_failed_def held_def put_inner_def)
qed

text \<open>\<open>get\<close> keeps the balance up to the proxy it hands out.\<close>

definition lease_outcome :: "pool \<Rightarrow> lease \<times> pool \<Rightarrow> bool" where
  "lease_outcome pl r \<longleftrightarrow>
     (case r of
        (Leased p, pl') \<Rightarrow> \<exists>gone. held pl = add_mset (p_addr p) (held pl') + gone
           \<and> evictions pl' = evictions pl + of_nat (size gone)
      | (_, pl') \<Rightarrow> lp.balanced pl pl')"

lemma lease_outcome_trans: "lp.balanced pl pl1 \<Longrightarrow> lease_outcome pl1 r \<Longrightarrow> lease_outcome pl r"
proof (cases r)
  case (Pair l pl')
  assume b: "lp.balanced pl pl1" and o: "lease_outcome pl1 r"
  show ?thesis
  proof (cases l)
    case (Leased p)
    from b obtain g where g: "held pl = held pl1 + g" "evictions pl1 = evictions pl + of_nat (size g)"
      by (auto simp: lp.balanced_def)
    from o Leased Pair obtain h where "held pl1 = add_mset (p_addr p) (held pl') + h"
      "evictions pl' = evictions pl1 + of_nat (size h)" by (auto simp: lease_outcome_def)
    with g have "held pl = add_mset (p_addr p) (held pl') + (h + g)
        \<and> evictions pl' = evictions pl + of_nat (size (h + g))"
      by (simp add: ac_simps)
    then show ?thesis using Leased Pair unfolding lease_outcome_def by auto
  qed (use b o Pair lp.balanced_trans in \<open>auto simp: lease_outcome_def\<close>)
qed

lemma lease_outcome_Leased:
  "held pl = add_mset (p_addr p) (held pl') \<Longrightarrow> evictions pl' = evictions pl \<Longrightarrow>
    lease_outcome pl (Leased p, pl')"
  unfolding lease_outcome_def by (simp add: exI[of _ "{#}"])

lemma get_loop_outcome: "lease_outcome pl (get_loop clk live quiet sc key n pl)"
proof (induction clk live "quiet" sc key n pl rule: get_loop.induct)
  case (1 clk live sc key n pl)
  obtain r pl1 where t: "try_select (clk n) sc key pl = (r, pl1)" by (cases "try_select (clk n) sc key pl")
  show ?case
  proof (cases r)
    case None
    have b: "lp.balanced pl pl1"
      using lp.take_None_balanced[of "(clk n, sc, key)" pl pl1] t None by (simp add: lease_take_def)
    obtain r2 pl2 where t2: "try_select (clk n) sc key pl1 = (r2, pl2)"
      by (cases "try_select (clk n) sc key pl1")
    have "lease_outcome pl1 (case r2 of Some p \<Rightarrow> (Leased p, pl2) | None \<Rightarrow> (NoProxies, pl2))"
      using t2 lp.take_None_balanced[of "(clk n, sc, key)" pl1 pl2] held_try_select
        try_select_simps(3)[of "clk n" sc key pl1]
      by (cases r2) (auto simp: lease_take_def lease_outcome_def intro!: lease_outcome_Leased)
    then have "lease_outcome pl (case r2 of Some p \<Rightarrow> (Leased p, pl2) | None \<Rightarrow> (NoProxies, pl2))"
      by (rule lease_outcome_trans[OF b])
    with b show ?thesis
      by (subst get_loop.simps) (simp add: t None t2 lease_outcome_def quiet_def Let_def split: option.splits)
  next
    case (Some p)
    have l: "lease_outcome pl (Leased p, pl1)"
      using t Some held_try_select try_select_simps(3)[of "clk n" sc key pl]
      by (simp add: lease_outcome_Leased)
    have b: "lp.balanced pl (put_failed (clk n) p pl1)"
      using lp.take_give_balanced[of "(clk n, sc, key)" pl p pl1 p "Some (clk n)"] t Some
      by (simp add: lease_take_def lease_give_def)
    show ?thesis
    proof (cases "verify_on_lease (config pl1) = None \<or> live n p")
      case True
      with l show ?thesis by (subst get_loop.simps) (auto simp: t Some quiet_def split: option.split)
    next
      case False
      then obtain d where d: "verify_on_lease (config pl1) = Some d" "\<not> live n p" by auto
      show ?thesis
      proof (cases "verify_max_attempts \<le> n + 1")
        case True
        with b d show ?thesis by (subst get_loop.simps) (simp add: t Some lease_outcome_def Let_def quiet_def)
      next
        case False
        with d 1[OF t[symmetric] Some] have "lease_outcome (put_failed (clk n) p pl1)
            (get_loop clk live quiet sc key (n + 1) (put_failed (clk n) p pl1))" by (simp add: t Some quiet_def)
        with b d False show ?thesis
          by (subst get_loop.simps) (simp add: t Some Let_def quiet_def lease_outcome_trans)
      qed
    qed
  qed
qed

section \<open>The address interface\<close>

text \<open>The pool as a set of addresses: adding is deduplicated on the address, removing drops every
  entry at it and says whether there was one.\<close>

locale addr_pool =
  fixes addrs_of :: "'s \<Rightarrow> 'a set"
    and add_one :: "'p \<Rightarrow> 's \<Rightarrow> 's"
    and remove_one :: "'a \<Rightarrow> 's \<Rightarrow> bool \<times> 's"
    and adr :: "'p \<Rightarrow> 'a"
  assumes addrs_add: "addrs_of (add_one p s) = insert (adr p) (addrs_of s)"
    and addrs_remove: "addrs_of (snd (remove_one a s)) = addrs_of s - {a}"
    and remove_reports: "fst (remove_one a s) \<longleftrightarrow> a \<in> addrs_of s"
    and add_present: "adr p \<in> addrs_of s \<Longrightarrow> add_one p s = s"
begin

definition remove_all :: "'a list \<Rightarrow> 's \<Rightarrow> 's" where
  "remove_all as s = foldl (\<lambda>s a. snd (remove_one a s)) s as"

definition add_all :: "'p list \<Rightarrow> 's \<Rightarrow> 's" where
  "add_all ps s = foldl (\<lambda>s p. add_one p s) s ps"

lemma addrs_remove_all: "addrs_of (remove_all as s) = addrs_of s - set as"
  by (induction as arbitrary: s) (auto simp: remove_all_def addrs_remove)

lemma addrs_add_all: "addrs_of (add_all ps s) = addrs_of s \<union> adr ` set ps"
  by (induction ps arbitrary: s) (auto simp: add_all_def addrs_add)

text \<open>Removing what is not wanted and adding what is missing leaves exactly what is wanted.\<close>

lemma addrs_sync:
  assumes "set as = addrs_of s"
  shows "addrs_of (add_all (filter (\<lambda>p. adr p \<notin> addrs_of s) ps)
      (remove_all (filter (\<lambda>a. a \<notin> adr ` set ps) as) s)) = adr ` set ps"
  using assms by (auto simp: addrs_add_all addrs_remove_all)

end

lemma addrs_iff: "a \<in> addrs pl \<longleftrightarrow> (\<exists>e \<in> set (entries pl). at_addr a e)"
  by (auto simp: addrs_def at_addr_def)

interpretation pa: addr_pool addrs pool_add pool_remove p_addr
proof
  fix p pl
  show "addrs (pool_add p pl) = insert (p_addr p) (addrs pl)"
  proof (cases "list_ex (at_addr (p_addr p)) (entries pl)")
    case True
    then have "p_addr p \<in> addrs pl" by (simp add: list_ex_iff addrs_iff)
    with True show ?thesis by (simp add: pool_add_def insert_absorb)
  next
    case False
    then show ?thesis by (simp add: pool_add_def addrs_def ready_entry_def)
  qed
next
  fix a pl
  show "addrs (snd (pool_remove a pl)) = addrs pl - {a}"
    by (auto simp: pool_remove_def addrs_def at_addr_def Let_def)
  show "fst (pool_remove a pl) \<longleftrightarrow> a \<in> addrs pl"
  proof -
    have "length (filter (\<lambda>e. \<not> at_addr a e) (entries pl)) = length (entries pl) \<longleftrightarrow>
        (\<forall>e \<in> set (entries pl). \<not> at_addr a e)"
      by (metis filter_True length_filter_less less_irrefl)
    then show ?thesis by (auto simp: pool_remove_def Let_def addrs_iff)
  qed
next
  fix p pl
  assume "p_addr p \<in> addrs pl"
  then show "pool_add p pl = pl" by (auto simp: pool_add_def addrs_iff list_ex_iff)
qed

section \<open>Sessions\<close>

definition sessions_ok :: "pool \<Rightarrow> bool" where
  "sessions_ok pl \<longleftrightarrow> distinct (map fst (sessions pl))
     \<and> length (sessions pl) \<le> max 1 (max_sessions (config pl))"

lemma session_put_keys: "fst ` set (session_put k a s) = insert k (fst ` set s)"
proof (induction s)
  case (Cons x s)
  then show ?case by (cases x) auto
qed simp

lemma session_put_distinct: "distinct (map fst s) \<Longrightarrow> distinct (map fst (session_put k a s))"
proof (induction s)
  case (Cons x s)
  then show ?case using session_put_keys[of k a s] by (cases x) auto
qed simp

lemma session_put_length:
  "length (session_put k a s) = (if map_of s k = None then Suc (length s) else length s)"
  by (induction s) auto

lemma session_put_lookup [simp]: "map_of (session_put k a s) k = Some a"
  by (induction s) auto

lemma record_session_ok: "sessions_ok pl \<Longrightarrow> sessions_ok (record_session k a pl)"
proof -
  assume ok: "sessions_ok pl"
  let ?full = "max_sessions (config pl) \<le> length (sessions pl) \<and> map_of (sessions pl) k = None"
  let ?s = "if ?full then drop 1 (sessions pl) else sessions pl"
  have d: "distinct (map fst ?s)" using ok by (simp add: sessions_ok_def drop_map[symmetric] distinct_drop)
  have "length (session_put k a ?s) \<le> max 1 (max_sessions (config pl))"
    using ok by (auto simp: session_put_length sessions_ok_def)
  with d show ?thesis
    by (simp add: sessions_ok_def record_session_def Let_def session_put_distinct)
qed

lemma try_select_sessions:
  "sessions (snd (try_select now sc key pl)) =
    (case fst (try_select now sc key pl) of
       Some p \<Rightarrow> if strategy_of (config pl) = Sticky
         then sessions (record_session key (p_addr p) pl) else sessions pl
     | None \<Rightarrow> sessions pl)"
  by (auto simp: try_select_def record_session_def Let_def split: prod.splits option.splits)

end
