(* ===== verification/Pool_Spec.thy ===== *)
theory Pool_Spec
  imports Pool_Facts
begin

text \<open>
  The properties of the pool: what each strategy picks, benching, stickiness, what \<open>get\<close> returns,
  and the pool together with its leased proxies as a state machine, whose steps are the methods of
  \<^verbatim>\<open>Pool\<close>, with the invariants of every reachable state.
\<close>

section \<open>Selection\<close>

lemma priority_of_key: "priority_key es b i \<le> priority_key es b j \<Longrightarrow>
    priority (pl_proxy (es ! i)) \<le> priority (pl_proxy (es ! j))"
  by (auto simp: priority_key_def less_eq_prod_def split: prod.splits)

lemma try_select_best:
  assumes "strategy_of (config pl) = Best" "try_select now sc key pl = (Some p, pl')"
  obtains i where "best_by_priority (entries pl) (the_tier (entries pl) (select_ctx_of now sc key pl))
      (prefer_connect (config pl)) = Some i" "p = pl_proxy (entries pl ! i)"
  using assms by (auto simp: try_select_def best_for_def select_ctx_of_def Let_def
      split: prod.splits option.splits if_splits)

lemma the_tier_mem:
  assumes "e \<in> set (entries pl)" "serves sc e"
    "entry_ready now e \<or> (\<forall>e' \<in> set (entries pl). serves sc e' \<longrightarrow> \<not> entry_ready now e')"
  obtains j where "j \<in> set (the_tier (entries pl) (select_ctx_of now sc key pl))" "entries pl ! j = e"
proof -
  let ?es = "entries pl" and ?cx = "select_ctx_of now sc key pl"
  obtain j where j: "j < length ?es" "?es ! j = e" using assms(1) by (auto simp: in_set_conv_nth)
  have cx: "cx_scheme ?cx = sc" "cx_now ?cx = now" by (simp_all add: select_ctx_of_def)
  have "j \<in> set (the_tier ?es ?cx)"
  proof (cases "entry_ready now e")
    case True
    with j assms(2) cx have "j \<in> set (tier_of ?es ?cx True)" by (simp add: tier_of_iff)
    then show ?thesis by (auto simp: the_tier_def Let_def)
  next
    case False
    with assms(3) have "tier_of ?es ?cx True = []"
      using cx by (auto simp: tier_of_def filter_empty_conv)
    moreover from False j assms(2) cx have "j \<in> set (tier_of ?es ?cx False)"
      by (simp add: tier_of_iff)
    ultimately show ?thesis by (simp add: the_tier_def)
  qed
  with j(2) that show ?thesis by blast
qed

text \<open>A two-proxy pool for the witnesses: an HTTP proxy that failed once in two attempts and one
  that never failed.\<close>

definition sample_proxy :: "u8 \<Rightarrow> proxy" where
  "sample_proxy b = add_type Http (Some High) (proxy_new (V4 10 0 0 b) 8080 {})"

definition sample_pool :: "strategy \<Rightarrow> pool" where
  "sample_pool st = from_proxies [sample_proxy 1, sample_proxy 2]
     (pool_config_default\<lparr>strategy_of := st\<rparr>)"

lemma sample_schemes: "schemes (sample_proxy b) = [SHttp]"
  by (simp add: schemes_def sample_proxy_def add_type_def proxy_new_def type_keys_def proto_ALL_def
      http_protos_def https_protos_def)

lemma sample_entries: "entries (sample_pool st) = [ready_entry (sample_proxy 1), ready_entry (sample_proxy 2)]"
  by (simp add: sample_pool_def from_proxies_def country_ok_def pool_config_default_def)

lemma sample_config: "config (sample_pool st) = pool_config_default\<lparr>strategy_of := st\<rparr>"
  by (simp add: sample_pool_def from_proxies_def)

lemma sample_addr [simp]: "p_addr (sample_proxy b) = (V4 10 0 0 b, 8080)"
  by (simp add: sample_proxy_def add_type_def proxy_new_def)

lemma sample_priority: "priority (sample_proxy b) = (0, 0)"
  by (simp add: sample_proxy_def add_type_def proxy_new_def priority_def error_rate_def
      avg_resp_time_def mean2_def errors_total_def)

lemmas sample_simps = sample_schemes sample_entries sample_config sample_priority serves_def ready_entry_def
  entry_ready_def

lemma sample_best: "best_by_priority (entries (sample_pool st)) [0, Suc 0] False = Some 0"
  by (simp add: best_by_priority_def min_by_def priority_key_def sample_simps)

lemma sample_tier: "the_tier (entries (sample_pool st)) (select_ctx_of now SHttp key (sample_pool st)) = [0, Suc 0]"
  by (simp add: the_tier_def tier_of_def select_ctx_of_def sample_simps upt_rec)

lemma sample_sessions [simp]: "sessions (sample_pool st) = []"
  by (simp add: sample_pool_def from_proxies_def)

lemma sample_select:
  assumes "st = Best \<or> st = Sticky"
  shows "try_select now SHttp key (sample_pool st)
    = (Some (sample_proxy 1), snd (try_select now SHttp key (sample_pool st)))"
proof -
  have "cx_prefer_connect (select_ctx_of now SHttp key (sample_pool st)) = False"
    "cx_strategy (select_ctx_of now SHttp key (sample_pool st)) = st"
    "cx_sticky (select_ctx_of now SHttp key (sample_pool st)) = None"
    by (simp_all add: select_ctx_of_def sample_config pool_config_default_def)
  then have "fst (best_for (entries (sample_pool st)) (select_ctx_of now SHttp key (sample_pool st))) = Some 0"
    using assms by (auto simp: best_for_def sample_tier sample_best)
  then have "fst (try_select now SHttp key (sample_pool st)) = Some (sample_proxy 1)"
    by (auto simp: try_select_def Let_def sample_entries ready_entry_def split: prod.splits)
  then show ?thesis by (simp add: prod_eq_iff)
qed

lemma best_lease:
  assumes "strategy_of (config pl) = Best" "try_select now sc key pl = (Some p, pl')"
  shows "\<exists>e \<in> set (entries pl). pl_proxy e = p \<and> serves sc e \<and>
    (\<forall>e' \<in> set (entries pl). serves sc e' \<longrightarrow>
       (entry_ready now e' \<longrightarrow> entry_ready now e) \<and>
       (entry_ready now e' = entry_ready now e \<longrightarrow> priority p \<le> priority (pl_proxy e')))"
proof -
  let ?cx = "select_ctx_of now sc key pl"
  obtain i where b: "best_by_priority (entries pl) (the_tier (entries pl) ?cx)
      (prefer_connect (config pl)) = Some i" and p: "p = pl_proxy (entries pl ! i)"
    using try_select_best[OF assms] .
  note it = best_by_priority_mem[OF b]
  then have i: "i < length (entries pl)" "serves sc (entries pl ! i)"
    using the_tier_serves[OF it] by (simp_all add: select_ctx_of_def)
  show ?thesis
  proof (intro bexI[of _ "entries pl ! i"] conjI ballI impI)
    fix e' assume e': "e' \<in> set (entries pl)" "serves sc e'"
    { assume r: "entry_ready now e'"
      obtain k where "k < length (entries pl)" "entries pl ! k = e'"
        using e'(1) by (auto simp: in_set_conv_nth)
      then show "entry_ready now (entries pl ! i)"
        using the_tier_ready[OF it, of k] e'(2) r by (simp add: select_ctx_of_def) }
    assume same: "entry_ready now e' = entry_ready now (entries pl ! i)"
    have "entry_ready now e' \<or> (\<forall>e2 \<in> set (entries pl). serves sc e2 \<longrightarrow> \<not> entry_ready now e2)"
    proof (rule disjCI, rule ccontr)
      assume n: "\<not> (\<forall>e2 \<in> set (entries pl). serves sc e2 \<longrightarrow> \<not> entry_ready now e2)"
        and nr: "\<not> entry_ready now e'"
      then obtain k where k: "k < length (entries pl)" "serves sc (entries pl ! k)" "entry_ready now (entries pl ! k)"
        by (auto simp: in_set_conv_nth)
      with the_tier_ready[OF it, of k] same nr show False by (simp add: select_ctx_of_def)
    qed
    then obtain j where "j \<in> set (the_tier (entries pl) ?cx)" "entries pl ! j = e'"
      using the_tier_mem[OF e'] by blast
    with best_by_priority_least[OF b] p show "priority p \<le> priority (pl_proxy e')"
      using priority_of_key by metis
  qed (use i p in auto)
qed



lemma try_select_none_iff:
  "fst (try_select now sc key pl) = None \<longleftrightarrow> \<not> list_ex (serves sc) (entries pl)"
proof -
  have "fst (try_select now sc key pl) = None
      \<longleftrightarrow> fst (best_for (entries pl) (select_ctx_of now sc key pl)) = None"
    by (simp add: try_select_def Let_def split: prod.splits option.splits)
  also have "\<dots> \<longleftrightarrow> \<not> list_ex (serves sc) (entries pl)"
    by (simp add: best_for_None_iff select_ctx_of_def list_ex_iff)
  finally show ?thesis .
qed

text \<open>Checking out fails exactly when no pooled proxy serves the scheme, under every
  strategy: benching never makes a request fail.\<close>

theorem lease_none_iff:
  "fst (try_select now sc key pl) = None \<longleftrightarrow> \<not> list_ex (serves sc) (entries pl)"
  by (rule try_select_none_iff)




section \<open>Sticky sessions\<close>

lemma sticky_choice:
  assumes "strategy_of (config pl) = Sticky" "map_of (sessions pl) key = Some a"
    and "e \<in> set (entries pl)" "serves sc e" "entry_ready now e" "p_addr (pl_proxy e) = a"
  obtains p pl' where "try_select now sc key pl = (Some p, pl')" "p_addr p = a"
    "map_of (sessions pl') key = Some a"
proof -
  let ?cx = "select_ctx_of now sc key pl" and ?es = "entries pl"
  obtain j where j: "j \<in> set (the_tier ?es ?cx)" "?es ! j = e"
    using the_tier_mem[OF assms(3,4)] assms(5) by blast
  then obtain i where i: "find (\<lambda>i. p_addr (pl_proxy (?es ! i)) = a) (the_tier ?es ?cx) = Some i"
    using assms(6) by (metis (mono_tags, lifting) find_None_iff not_None_eq)
  then have pi: "p_addr (pl_proxy (?es ! i)) = a" by (auto simp: find_Some_iff)
  have "best_for ?es ?cx = (Some i, rng pl)"
    using assms(1,2) i j(1) by (auto simp: best_for_def Let_def select_ctx_of_def)
  then have "fst (try_select now sc key pl) = Some (pl_proxy (?es ! i))"
    "map_of (sessions (snd (try_select now sc key pl))) key = Some a"
    using assms(1) pi by (auto simp: try_select_def Let_def record_session_def)
  with pi that[of _ "snd (try_select now sc key pl)"] show ?thesis by (metis prod.collapse)
qed

text \<open>A client under \<open>Sticky\<close> keeps its upstream: after a lease that served and whose proxy
  was returned healthy, the client's next lease is the same address, whatever its priority.\<close>

theorem sticky_keeps_upstream:
  assumes "strategy_of (config pl) = Sticky" "try_select now sc key pl = (Some p, pl1)"
    and "p_addr q = p_addr p" "p_types q = p_types p" "\<not> unhealthy (config pl) q"
  shows "\<exists>p2 pl2. try_select now' sc key (put_ok q pl1) = (Some p2, pl2) \<and> p_addr p2 = p_addr p"
proof -
  have c: "config pl1 = config pl" using try_select_simps(1)[of now sc key pl] assms(2) by simp
  have s: "map_of (sessions pl1) key = Some (p_addr p)"
    using try_select_sessions[of now sc key pl] assms(1,2) by (simp add: record_session_def Let_def)
  have "serves sc (ready_entry p)" using assms(2) by (auto elim: try_select_Some simp: serves_def ready_entry_def)
  then have v: "serves sc (ready_entry q)"
    using assms(4) by (simp add: serves_def ready_entry_def schemes_def)
  show ?thesis
  proof (rule sticky_choice[of "put_ok q pl1" key "p_addr p" "ready_entry q" sc now'])
    show "strategy_of (config (put_ok q pl1)) = Sticky" "map_of (sessions (put_ok q pl1)) key = Some (p_addr p)"
      using c s assms(1) by (simp_all add: put_ok_def)
    show "ready_entry q \<in> set (entries (put_ok q pl1))"
      using assms(5) c by (simp add: put_ok_def put_inner_def ready_entry_def)
    show "serves sc (ready_entry q)" "entry_ready now' (ready_entry q)"
      "p_addr (pl_proxy (ready_entry q)) = p_addr p"
      using v assms(3) by (simp_all add: ready_entry_def entry_ready_def)
  qed blast
qed

theorem sticky_keeps_upstream_witness:
  "\<exists>p2 pl2. try_select 9 SHttp (KeyIp (V4 1 2 3 4))
      (put_ok (sample_proxy 1) (snd (try_select 3 SHttp (KeyIp (V4 1 2 3 4)) (sample_pool Sticky))))
    = (Some p2, pl2) \<and> p_addr p2 = p_addr (sample_proxy 1)"
proof (rule sticky_keeps_upstream)
  show "strategy_of (config (sample_pool Sticky)) = Sticky" by (simp add: sample_config)
  show "try_select 3 SHttp (KeyIp (V4 1 2 3 4)) (sample_pool Sticky)
      = (Some (sample_proxy 1), snd (try_select 3 SHttp (KeyIp (V4 1 2 3 4)) (sample_pool Sticky)))"
    by (rule sample_select) simp
  show "\<not> unhealthy (config (sample_pool Sticky)) (sample_proxy 1)"
    by (simp add: unhealthy_def sample_simps pool_config_default_def sample_proxy_def add_type_def proxy_new_def)
qed simp_all

section \<open>\<open>get\<close>\<close>

text \<open>A lease neither loses nor duplicates a proxy: what \<open>get\<close> hands out, what stays pooled
  and what its failed probes evicted (counted exactly) are together what was pooled before.\<close>

theorem get_conserves:
  "case get clk live quiet sc key pl of
     (Leased p, pl') \<Rightarrow> \<exists>gone. held pl = add_mset (p_addr p) (held pl') + gone
        \<and> evictions pl' = evictions pl + of_nat (size gone)
   | (_, pl') \<Rightarrow> \<exists>gone. held pl = held pl' + gone \<and> evictions pl' = evictions pl + of_nat (size gone)"
  using get_loop_outcome[of pl clk live sc key 0]
  by (auto simp: get_def lease_outcome_def lp.balanced_def split: prod.splits lease.splits)

lemma get_loop_verified:
  assumes "verify_on_lease (config pl) = Some d" "n < verify_max_attempts"
    and "get_loop clk live quiet sc key n pl = (Leased p, pl')"
  shows "\<exists>m < verify_max_attempts. live m p"
  using assms
proof (induction clk live "quiet" sc key n pl arbitrary: pl' rule: get_loop.induct)
  case (1 clk live sc key n pl)
  obtain r pl1 where t: "try_select (clk n) sc key pl = (r, pl1)" by (cases "try_select (clk n) sc key pl")
  have c: "config pl1 = config pl" using try_select_simps(1)[of "clk n" sc key pl] t by simp
  show ?case
  proof (cases r)
    case None
    have "\<not> list_ex (serves sc) (entries pl1)"
      using t None try_select_None[of "clk n" sc key pl pl1] by (simp add: list_ex_iff)
    then have "fst (try_select (clk n) sc key pl1) = None" by (simp add: try_select_none_iff)
    with "1.prems"(3) t None show ?thesis
      by (subst (asm) get_loop.simps) (auto simp: quiet_def Let_def split: prod.splits option.splits if_splits)
  next
    case (Some q)
    show ?thesis
    proof (cases "live n q")
      case True
      with "1.prems" t Some c show ?thesis by (subst (asm) get_loop.simps) (auto simp: quiet_def)
    next
      case False
      let ?pl2 = "put_failed (clk n) q pl1"
      have "n + 1 < verify_max_attempts" and g: "get_loop clk live quiet sc key (n + 1) ?pl2 = (Leased p, pl')"
        using "1.prems" t Some c False
        by (subst (asm) get_loop.simps, auto simp: quiet_def Let_def not_le split: if_splits)+
      moreover have "verify_on_lease (config ?pl2) = Some d"
        using "1.prems"(1) c by (simp add: put_failed_def)
      ultimately show ?thesis
        using "1.hyps"[OF t[symmetric] Some] "1.prems"(1) c False by (auto simp: quiet_def)
    qed
  qed
qed


text \<open>With verification on lease, a proxy that is handed out answered a probe of this very
  call, and at most eight probes were made (no other task interleaving).\<close>

theorem lease_is_verified:
  assumes "verify_on_lease (config pl) = Some d" "get clk live quiet sc key pl = (Leased p, pl')"
  shows "\<exists>n < 8. live n p"
  using get_loop_verified[OF assms(1), of 0] assms(2) by (simp add: get_def verify_max_attempts_def)

lemma sample_get:
  "fst (get (\<lambda>_. 1) (\<lambda>n p. n = 0 \<and> p_addr p = (V4 10 0 0 1, 8080)) quiet SHttp (KeyHeader [])
     (sample_pool Best\<lparr>config := pool_config_default\<lparr>verify_on_lease := Some 5\<rparr>\<rparr>)) = Leased (sample_proxy 1)"
proof -
  let ?pl = "sample_pool Best\<lparr>config := pool_config_default\<lparr>verify_on_lease := Some 5\<rparr>\<rparr>"
  have "the_tier (entries ?pl) (select_ctx_of 1 SHttp (KeyHeader []) ?pl) = [0, Suc 0]"
    by (simp add: the_tier_def tier_of_def select_ctx_of_def sample_simps upt_rec)
  then have "fst (best_for (entries ?pl) (select_ctx_of 1 SHttp (KeyHeader []) ?pl)) = Some 0"
    using sample_best by (simp add: best_for_def select_ctx_of_def pool_config_default_def)
  then have "fst (try_select 1 SHttp (KeyHeader []) ?pl) = Some (sample_proxy 1)"
    by (auto simp: try_select_def Let_def sample_entries ready_entry_def split: prod.splits)
  then obtain pl1 where t: "try_select 1 SHttp (KeyHeader []) ?pl = (Some (sample_proxy 1), pl1)"
    by (metis prod.collapse)
  then have "config pl1 = config ?pl" using try_select_simps(1) by (metis snd_conv)
  with t show ?thesis unfolding get_def by (subst get_loop.simps) simp
qed

theorem lease_is_verified_witness:
  "\<exists>n < (8 :: nat). n = 0 \<and> p_addr (sample_proxy 1) = (V4 10 0 0 1, 8080)"
proof -
  let ?pl = "sample_pool Best\<lparr>config := pool_config_default\<lparr>verify_on_lease := Some 5\<rparr>\<rparr>"
  have "verify_on_lease (config ?pl) = Some 5" by simp
  moreover have "get (\<lambda>_. 1) (\<lambda>n p. n = 0 \<and> p_addr p = (V4 10 0 0 1, 8080)) quiet SHttp (KeyHeader []) ?pl
    = (Leased (sample_proxy 1), snd (get (\<lambda>_. 1) (\<lambda>n p. n = 0 \<and> p_addr p = (V4 10 0 0 1, 8080)) quiet
        SHttp (KeyHeader []) ?pl))"
    using sample_get by (simp add: prod_eq_iff)
  ultimately show ?thesis by (rule lease_is_verified)
qed

text \<open>The last look of an exhausted pool is not verified: a proxy that arrives between the
  first look and the test of the exhausted flag is handed out without a probe, although
  verification is on and every probe would fail.\<close>

theorem last_look_unverified:
  "fst (get (\<lambda>_. 1) (\<lambda>_ _. False) (\<lambda>_ pl. import_end (import_one (sample_proxy 1) pl)) SHttp
     (KeyHeader []) (spawned (pool_config_default\<lparr>verify_on_lease := Some d\<rparr>))) = Leased (sample_proxy 1)"
proof -
  let ?cfg = "pool_config_default\<lparr>verify_on_lease := Some d\<rparr>" and ?k = "KeyHeader []"
  let ?late = "\<lambda>pl. import_end (import_one (sample_proxy 1) pl)"
  obtain pl1 where t: "try_select 1 SHttp ?k (spawned ?cfg) = (None, pl1)"
    using try_select_none_iff[of 1 SHttp ?k "spawned ?cfg"]
    by (cases "try_select 1 SHttp ?k (spawned ?cfg)") (simp add: spawned_def)
  then have "entries pl1 = []" "config pl1 = ?cfg"
    using try_select_None(1)[OF t] try_select_simps(1)[of 1 SHttp ?k "spawned ?cfg"]
    by (simp_all add: spawned_def)
  then have l: "entries (?late pl1) = [ready_entry (sample_proxy 1)]" "config (?late pl1) = ?cfg" "exhausted (?late pl1)"
    by (simp_all add: import_end_def import_one_def country_ok_def pool_config_default_def)
  then have "the_tier (entries (?late pl1)) (select_ctx_of 1 SHttp ?k (?late pl1)) = [0]"
    by (simp add: the_tier_def tier_of_def select_ctx_of_def sample_simps)
  with l have "fst (try_select 1 SHttp ?k (?late pl1)) = Some (sample_proxy 1)"
    by (simp add: try_select_def best_for_def select_ctx_of_def best_by_priority_def min_by_def
        ready_entry_def pool_config_default_def Let_def)
  with t l(3) show ?thesis unfolding get_def
    by (subst get_loop.simps) (auto simp: Let_def split: prod.splits option.splits)
qed

text \<open>Once the source is exhausted \<open>get\<close> never suspends: it answers with a proxy or with
  \<open>NoProxies\<close>, whatever the probes say and the other tasks do.\<close>

theorem get_returns_when_exhausted:
  assumes "exhausted pl" "\<And>n q. exhausted q \<Longrightarrow> exhausted (env n q)"
  shows "fst (get clk live env sc key pl) \<noteq> Waiting n"
proof -
  have "exhausted pl \<Longrightarrow> fst (get_loop clk live env sc key k pl) \<noteq> Waiting n" for k
    using assms(2)
  proof (induction clk live env sc key k pl rule: get_loop.induct)
    case (1 clk live env sc key k pl)
    obtain r pl1 where t: "try_select (clk k) sc key pl = (r, pl1)"
      by (cases "try_select (clk k) sc key pl")
    have x: "exhausted pl1" using try_select_simps(2)[of "clk k" sc key pl] t 1(2) by simp
    then have "exhausted (put_failed (clk k) p (env k pl1))" for p
      using 1(3) by (simp add: put_failed_def)
    with x t 1 show ?case
      by (subst get_loop.simps) (auto simp: Let_def split: option.splits prod.splits)
  qed
  with assms(1) show ?thesis by (simp add: get_def)
qed

theorem get_returns_when_exhausted_witness:
  "fst (get (\<lambda>_. 1) (\<lambda>_ _. False) (\<lambda>_. import_end) SHttp (KeyHeader []) (sample_pool Random)) \<noteq> Waiting 0"
  by (rule get_returns_when_exhausted) (simp_all add: import_end_def sample_pool_def from_proxies_def)

section \<open>The pool and its leases as a state machine\<close>

text \<open>The pool, the proxies checked out of it, and three ghost multisets of addresses: everything
  ever admitted, evicted on return, and removed. A label is one call of a method of \<^verbatim>\<open>Pool\<close> or one
  step of its importer. A proxy returns with new statistics but its own address and location.\<close>

record world =
  w_pool :: pool
  w_out :: "proxy multiset"
  w_admitted :: "sock_addr multiset"
  w_evicted :: "sock_addr multiset"
  w_removed :: "sock_addr multiset"

datatype pool_op = OImport proxy | OEnd | OTake instant scheme client_key
  | OReturn "instant option" proxy proxy | ORemove sock_addr | OAdd proxy
  | OTryGet scheme "string option" | ORotate

definition start :: "pool_config \<Rightarrow> world" where
  "start cfg = \<lparr>w_pool = spawned cfg, w_out = {#}, w_admitted = {#}, w_evicted = {#}, w_removed = {#}\<rparr>"

inductive pool_step :: "world \<Rightarrow> pool_op \<Rightarrow> world \<Rightarrow> bool" where
  import_ok: "country_ok p (countries (config (w_pool w))) \<Longrightarrow>
    pool_step w (OImport p) (w\<lparr>w_pool := import_one p (w_pool w),
      w_admitted := add_mset (p_addr p) (w_admitted w)\<rparr>)"
| import_skip: "\<not> country_ok p (countries (config (w_pool w))) \<Longrightarrow>
    pool_step w (OImport p) (w\<lparr>w_pool := import_one p (w_pool w)\<rparr>)"
| at_end: "pool_step w OEnd (w\<lparr>w_pool := import_end (w_pool w)\<rparr>)"
| take_some: "try_select now sc key (w_pool w) = (Some p, pl) \<Longrightarrow>
    pool_step w (OTake now sc key) (w\<lparr>w_pool := pl, w_out := add_mset p (w_out w)\<rparr>)"
| take_none: "try_select now sc key (w_pool w) = (None, pl) \<Longrightarrow>
    pool_step w (OTake now sc key) (w\<lparr>w_pool := pl\<rparr>)"
| give_back: "p \<in># w_out w \<Longrightarrow> p_addr q = p_addr p \<Longrightarrow> p_geo q = p_geo p \<Longrightarrow>
    \<not> unhealthy (config (w_pool w)) q \<Longrightarrow>
    pool_step w (OReturn f p q) (w\<lparr>w_pool := lease_give f q (w_pool w), w_out := w_out w - {#p#}\<rparr>)"
| give_evict: "p \<in># w_out w \<Longrightarrow> p_addr q = p_addr p \<Longrightarrow> unhealthy (config (w_pool w)) q \<Longrightarrow>
    pool_step w (OReturn f p q) (w\<lparr>w_pool := lease_give f q (w_pool w), w_out := w_out w - {#p#},
      w_evicted := add_mset (p_addr p) (w_evicted w)\<rparr>)"
| remove_at: "pool_step w (ORemove a) (w\<lparr>w_pool := snd (pool_remove a (w_pool w)),
      w_removed := filter_mset ((=) a) (held (w_pool w)) + w_removed w\<rparr>)"
| add_new: "p_addr p \<notin> addrs (w_pool w) \<Longrightarrow>
    pool_step w (OAdd p) (w\<lparr>w_pool := pool_add p (w_pool w),
      w_admitted := add_mset (p_addr p) (w_admitted w)\<rparr>)"
| add_old: "p_addr p \<in> addrs (w_pool w) \<Longrightarrow>
    pool_step w (OAdd p) (w\<lparr>w_pool := pool_add p (w_pool w)\<rparr>)"
| try_some: "try_get sc cc (w_pool w) = (Some p, pl) \<Longrightarrow>
    pool_step w (OTryGet sc cc) (w\<lparr>w_pool := pl, w_out := add_mset p (w_out w)\<rparr>)"
| try_none: "try_get sc cc (w_pool w) = (None, pl) \<Longrightarrow>
    pool_step w (OTryGet sc cc) (w\<lparr>w_pool := pl\<rparr>)"
| rotate: "pool_step w ORotate (w\<lparr>w_pool := (w_pool w)\<lparr>rotations := rotations (w_pool w) + 1\<rparr>\<rparr>)"

inductive pool_run :: "world \<Rightarrow> pool_op list \<Rightarrow> world \<Rightarrow> bool" where
  run_nil: "pool_run w [] w"
| run_snoc: "pool_run w ops w1 \<Longrightarrow> pool_step w1 op w2 \<Longrightarrow> pool_run w (ops @ [op]) w2"

inductive_cases pool_stepE: "pool_step w op w'"

text \<open>Every call that the code can make is a step: the machine is never stuck on one (a proxy
  that is returned was leased).\<close>

definition can_call :: "world \<Rightarrow> pool_op \<Rightarrow> bool" where
  "can_call w op \<longleftrightarrow>
     (case op of OReturn _ p q \<Rightarrow> p \<in># w_out w \<and> p_addr q = p_addr p \<and> p_geo q = p_geo p | _ \<Rightarrow> True)"

lemma pool_step_total: "can_call w op \<Longrightarrow> \<exists>w'. pool_step w op w'"
proof (cases op)
  case (OTake now sc key)
  then show ?thesis
    by (cases "try_select now sc key (w_pool w)"; cases "fst (try_select now sc key (w_pool w))")
      (auto intro: take_some take_none)
next
  case (OTryGet sc cc)
  then show ?thesis
    by (cases "try_get sc cc (w_pool w)"; cases "fst (try_get sc cc (w_pool w))")
      (auto intro: try_some try_none)
qed (auto simp: can_call_def intro: pool_step.intros)

subsection \<open>Invariants\<close>

lemma rotations_pool [simp]:
  "held (pl\<lparr>rotations := n\<rparr>) = held pl" "evictions (pl\<lparr>rotations := n\<rparr>) = evictions pl"
  by (simp_all add: held_def)

lemma lease_give_simps [simp]:
  "config (lease_give f q pl) = config pl" "sessions (lease_give f q pl) = sessions pl"
  "held (lease_give f q pl) = (if unhealthy (config pl) q then held pl else add_mset (p_addr q) (held pl))"
  "evictions (lease_give f q pl) = (if unhealthy (config pl) q then evictions pl + 1 else evictions pl)"
  by (cases f; simp add: lease_give_def put_ok_def put_failed_def held_put_inner; simp add: put_inner_def)+

lemma lease_give_entries: "pl_proxy ` set (entries (lease_give f q pl)) \<subseteq> insert q (pl_proxy ` set (entries pl))"
  by (cases f) (auto simp: lease_give_def put_ok_def put_failed_def put_inner_def)

lemma import_one_simps [simp]:
  "config (import_one p pl) = config pl" "sessions (import_one p pl) = sessions pl"
  "evictions (import_one p pl) = evictions pl"
  "held (import_one p pl) = (if country_ok p (countries (config pl)) then add_mset (p_addr p) (held pl) else held pl)"
  by (simp_all add: import_one_def held_def ready_entry_def)

lemma import_end_simps [simp]:
  "config (import_end pl) = config pl" "sessions (import_end pl) = sessions pl"
  "evictions (import_end pl) = evictions pl" "held (import_end pl) = held pl" "entries (import_end pl) = entries pl"
  by (simp_all add: import_end_def held_def)

lemma mset_map_filter_neq: "mset (map f (filter (\<lambda>e. f e \<noteq> a) es)) = filter_mset (\<lambda>b. a \<noteq> b) (mset (map f es))"
  by (induction es) auto

lemma pool_remove_simps [simp]:
  "config (snd (pool_remove a pl)) = config pl" "sessions (snd (pool_remove a pl)) = sessions pl"
  "evictions (snd (pool_remove a pl)) = evictions pl"
  "held (snd (pool_remove a pl)) + filter_mset ((=) a) (held pl) = held pl"
proof -
  have "held (snd (pool_remove a pl)) = filter_mset (\<lambda>b. \<not> a = b) (held pl)"
    using mset_map_filter_neq[of "p_addr \<circ> pl_proxy" a "entries pl"]
    by (simp add: pool_remove_def held_def Let_def at_addr_def)
  then show "held (snd (pool_remove a pl)) + filter_mset ((=) a) (held pl) = held pl"
    by (simp add: multiset_partition[symmetric] add.commute)
qed (simp_all add: pool_remove_def Let_def)

lemma pool_add_simps [simp]:
  "config (pool_add p pl) = config pl" "sessions (pool_add p pl) = sessions pl"
  "evictions (pool_add p pl) = evictions pl"
  "held (pool_add p pl) = (if p_addr p \<in> addrs pl then held pl else add_mset (p_addr p) (held pl))"
proof -
  have "list_ex (at_addr (p_addr p)) (entries pl) \<longleftrightarrow> p_addr p \<in> addrs pl"
    by (simp add: list_ex_iff addrs_iff)
  then show "held (pool_add p pl) = (if p_addr p \<in> addrs pl then held pl else add_mset (p_addr p) (held pl))"
    by (simp add: pool_add_def held_def ready_entry_def)
qed (simp_all add: pool_add_def)

lemma try_get_Some:
  assumes "try_get sc cc pl = (Some p, pl')"
  obtains i where "i < length (entries pl)" "serves sc (entries pl ! i)" "p = pl_proxy (entries pl ! i)"
    "pl' = pl\<lparr>entries := vec_remove i (entries pl)\<rparr>"
proof -
  let ?el = "filter (\<lambda>i. serves sc (entries pl ! i) \<and> country_match cc (pl_proxy (entries pl ! i))) [0..<length (entries pl)]"
  obtain i where b: "best_by_priority (entries pl) ?el (prefer_connect (config pl)) = Some i"
    and "p = pl_proxy (entries pl ! i)" "pl' = pl\<lparr>entries := vec_remove i (entries pl)\<rparr>"
    using assms by (auto simp: try_get_def Let_def split: option.splits)
  moreover have "i < length (entries pl)" "serves sc (entries pl ! i)"
    using best_by_priority_mem[OF b] by auto
  ultimately show ?thesis using that by blast
qed

lemma try_get_None: "try_get sc cc pl = (None, pl') \<Longrightarrow> pl' = pl"
  by (auto simp: try_get_def Let_def split: option.splits)

lemma try_get_held:
  assumes "try_get sc cc pl = (Some p, pl')"
  shows "held pl = add_mset (p_addr p) (held pl')" "p \<in> pl_proxy ` set (entries pl)"
    "set (entries pl') \<subseteq> set (entries pl)"
    "config pl' = config pl" "sessions pl' = sessions pl" "evictions pl' = evictions pl"
proof -
  obtain i where i: "i < length (entries pl)" "p = pl_proxy (entries pl ! i)"
    "pl' = pl\<lparr>entries := vec_remove i (entries pl)\<rparr>"
    using try_get_Some[OF assms] by metis
  have m: "mset (entries pl) = add_mset (entries pl ! i) (mset (entries pl'))"
    using i(1,3) by (simp add: mset_vec_remove)
  then show "held pl = add_mset (p_addr p) (held pl')" by (simp add: held_def i(2))
  show "set (entries pl') \<subseteq> set (entries pl)" using m by (metis set_mset_add_mset_insert set_mset_mset subset_insertI)
qed (use assms in \<open>auto elim!: try_get_Some\<close>)


definition pool_inv :: "pool_config \<Rightarrow> world \<Rightarrow> bool" where
  "pool_inv cfg w \<longleftrightarrow> config (w_pool w) = cfg \<and> sessions_ok (w_pool w)
     \<and> w_admitted w = held (w_pool w) + image_mset p_addr (w_out w) + w_evicted w + w_removed w
     \<and> evictions (w_pool w) = of_nat (size (w_evicted w))"

lemma sessions_ok_cong: "config pl' = config pl \<Longrightarrow> sessions pl' = sessions pl \<Longrightarrow> sessions_ok pl' = sessions_ok pl"
  by (simp add: sessions_ok_def)

lemma try_select_sessions_ok: "sessions_ok pl \<Longrightarrow> sessions_ok (snd (try_select now sc key pl))"
  using record_session_ok[of pl key]
  by (auto simp: sessions_ok_def try_select_sessions split: option.splits)

lemma image_out_split: "p \<in># M \<Longrightarrow> image_mset f M = add_mset (f p) (image_mset f (M - {#p#}))"
  by (auto dest!: multi_member_split)

lemma pool_inv_step:
  assumes "pool_step w op w'" "pool_inv cfg w"
  shows "pool_inv cfg w'"
  using assms
proof (induction rule: pool_step.induct)
  case (take_some now sc key w p pl)
  then show ?case
    using held_try_select[OF take_some(1)] try_select_sessions_ok[of "w_pool w" now sc key]
      try_select_simps[of now sc key "w_pool w"] by (auto simp: pool_inv_def)
next
  case (take_none now sc key w pl)
  then show ?case
    using try_select_None(1)[OF take_none(1)] try_select_sessions_ok[of "w_pool w" now sc key]
      try_select_simps[of now sc key "w_pool w"] by (auto simp: pool_inv_def held_def)
next
  case (give_back p w q f)
  then have "image_mset p_addr (w_out w) = add_mset (p_addr p) (image_mset p_addr (w_out w - {#p#}))"
    by (simp add: image_out_split)
  with give_back show ?case by (auto simp: pool_inv_def sessions_ok_def)
next
  case (give_evict p w q f)
  then have "image_mset p_addr (w_out w) = add_mset (p_addr p) (image_mset p_addr (w_out w - {#p#}))"
    by (simp add: image_out_split)
  with give_evict show ?case by (auto simp: pool_inv_def sessions_ok_def)
next
  case (remove_at w a)
  have "held (w_pool w) = held (snd (pool_remove a (w_pool w))) + filter_mset ((=) a) (held (w_pool w))"
    by simp
  with remove_at show ?case unfolding pool_inv_def sessions_ok_def
    by (clarsimp simp: ac_simps simp del: pool_remove_simps(4))
next
  case (try_some sc cc w p pl)
  then show ?case using try_get_held[OF try_some(1)] by (auto simp: pool_inv_def sessions_ok_def)
next
  case (try_none sc cc w pl)
  then show ?case using try_get_None[OF try_none(1)] by (simp add: pool_inv_def)
qed (auto simp: pool_inv_def sessions_ok_def)

lemma pool_inv_start: "pool_inv cfg (start cfg)"
  by (simp add: pool_inv_def start_def spawned_def sessions_ok_def held_def)

lemma pool_inv_run: "pool_run w ops w' \<Longrightarrow> pool_inv cfg w \<Longrightarrow> pool_inv cfg w'"
  by (induction rule: pool_run.induct) (auto intro: pool_inv_step)

text \<open>C1. In every state the pool can reach by any interleaving of imports, checkouts, returns,
  removals and additions: the admitted addresses are exactly the pooled ones, the leased ones, the
  evicted ones and the removed ones, each counted once; the eviction counter is the number of
  evictions modulo its width; and the session table has one entry per client and respects its
  bound.\<close>

theorem pool_accounts:
  assumes "pool_run (start cfg) ops w"
  shows "w_admitted w = held (w_pool w) + image_mset p_addr (w_out w) + w_evicted w + w_removed w
    \<and> evictions (w_pool w) = of_nat (size (w_evicted w))
    \<and> distinct (map fst (sessions (w_pool w)))
    \<and> length (sessions (w_pool w)) \<le> max 1 (max_sessions cfg)"
  using pool_inv_run[OF assms pool_inv_start] by (auto simp: pool_inv_def sessions_ok_def)

definition sample_world :: world where
  "sample_world = (start pool_config_default)\<lparr>w_pool := import_end (import_one (sample_proxy 1) (spawned pool_config_default)),
     w_admitted := {#p_addr (sample_proxy 1)#}\<rparr>"

lemma sample_run: "pool_run (start pool_config_default) ([] @ [OImport (sample_proxy 1)] @ [OEnd]) sample_world"
proof -
  have "pool_step (start pool_config_default) (OImport (sample_proxy 1))
      ((start pool_config_default)\<lparr>w_pool := import_one (sample_proxy 1) (w_pool (start pool_config_default)),
        w_admitted := add_mset (p_addr (sample_proxy 1)) (w_admitted (start pool_config_default))\<rparr>)"
    by (rule import_ok) (simp add: start_def spawned_def country_ok_def pool_config_default_def)
  from run_snoc[OF run_snoc[OF run_nil this] at_end] show ?thesis
    by (simp add: sample_world_def start_def)
qed

theorem pool_accounts_witness:
  "w_admitted sample_world = held (w_pool sample_world) + image_mset p_addr (w_out sample_world)
      + w_evicted sample_world + w_removed sample_world
    \<and> evictions (w_pool sample_world) = of_nat (size (w_evicted sample_world))
    \<and> distinct (map fst (sessions (w_pool sample_world)))
    \<and> length (sessions (w_pool sample_world)) \<le> max 1 (max_sessions pool_config_default)"
  by (rule pool_accounts[OF sample_run])

text \<open>The country filter is applied where proxies are imported; \<open>add\<close> has none of its own.\<close>

definition all_allowed :: "string set option \<Rightarrow> world \<Rightarrow> bool" where
  "all_allowed cs w \<longleftrightarrow> (\<forall>p \<in> pl_proxy ` set (entries (w_pool w)) \<union> set_mset (w_out w). country_ok p cs)"

lemma try_select_entries:
  assumes "try_select now sc key pl = (Some p, pl')"
  shows "p \<in> pl_proxy ` set (entries pl)" "set (entries pl') \<subseteq> set (entries pl)"
proof -
  obtain i where i: "i < length (entries pl)" "p = pl_proxy (entries pl ! i)"
    "entries pl' = swap_remove i (entries pl)"
    using assms by (rule try_select_Some)
  then show "p \<in> pl_proxy ` set (entries pl)" "set (entries pl') \<subseteq> set (entries pl)"
    using set_swap_remove_subset by auto
qed

lemma all_allowed_step:
  assumes "pool_step w op w'" "pool_inv cfg w" "all_allowed (countries cfg) w"
    "\<And>p. op = OAdd p \<Longrightarrow> country_ok p (countries cfg)"
  shows "all_allowed (countries cfg) w'"
  using assms
proof (induction rule: pool_step.induct)
  case (take_some now sc key w p pl)
  then show ?case using try_select_entries[OF take_some(1)] by (auto simp: all_allowed_def)
next
  case (take_none now sc key w pl)
  then show ?case using try_select_None(1)[OF take_none(1)] by (auto simp: all_allowed_def)
next
  case (give_back p w q f)
  then have "country_ok p (countries cfg)" by (simp add: all_allowed_def)
  with give_back(3) have "country_ok q (countries cfg)" by (simp add: country_ok_def split: option.splits)
  with give_back show ?case using lease_give_entries[of f q "w_pool w"]
    by (fastforce simp: all_allowed_def dest: in_diffD)
next
  case (give_evict p w q f)
  then have "entries (lease_give f q (w_pool w)) = entries (w_pool w)"
    by (cases f) (simp_all add: lease_give_def put_ok_def put_failed_def put_inner_def)
  with give_evict show ?case by (auto simp: all_allowed_def dest: in_diffD)
next
  case (try_some sc cc w p pl)
  then show ?case using try_get_held[OF try_some(1)] by (auto simp: all_allowed_def)
next
  case (try_none sc cc w pl)
  then show ?case using try_get_None[OF try_none(1)] by (simp add: all_allowed_def)
qed (auto simp: all_allowed_def pool_inv_def import_one_def ready_entry_def pool_remove_def pool_add_def Let_def)

lemma all_allowed_run:
  assumes "pool_run w ops w'" "pool_inv cfg w" "all_allowed (countries cfg) w"
    "\<And>p. OAdd p \<in> set ops \<Longrightarrow> country_ok p (countries cfg)"
  shows "all_allowed (countries cfg) w'"
  using assms
proof (induction rule: pool_run.induct)
  case (run_snoc w ops w1 op w2)
  then show ?case using all_allowed_step[OF run_snoc(2)] pool_inv_run[OF run_snoc(1)] by auto
qed

text \<open>With a country allow-list, every pooled and every leased proxy is in an allowed country
  in every reachable state, provided the proxies passed to \<open>add\<close> are (\<open>add\<close> does not check).\<close>

theorem pool_countries:
  assumes "pool_run (start cfg) ops w" "\<And>p. OAdd p \<in> set ops \<Longrightarrow> country_ok p (countries cfg)"
  shows "all_allowed (countries cfg) w"
proof -
  have "all_allowed (countries cfg) (start cfg)" by (simp add: all_allowed_def start_def spawned_def)
  from all_allowed_run[OF assms(1) pool_inv_start this assms(2)] show ?thesis .
qed

theorem pool_countries_witness: "all_allowed (countries pool_config_default) sample_world"
  by (rule pool_countries[OF sample_run]) simp

section \<open>Round robin\<close>

lemma parity_inc: "even (unat (c + 1 :: u64)) \<longleftrightarrow> odd (unat c)"
  by (simp add: unat_word_ariths dvd_mod_iff)

lemma round_robin_step:
  assumes "strategy_of (config pl) = RoundRobin" "\<not> prefer_connect (config pl)"
    and "entries pl = [ready_entry a, ready_entry b]"
    and "serves sc (ready_entry a)" "serves sc (ready_entry b)"
  shows "fst (try_select now sc key pl) = Some (if even (unat (round_robin pl)) then a else b)"
    "entries (snd (try_select now sc key pl)) = [ready_entry (if even (unat (round_robin pl)) then b else a)]"
    "round_robin (snd (try_select now sc key pl)) = round_robin pl + 1"
proof -
  let ?i = "if even (unat (round_robin pl)) then 0 else Suc 0"
  have t: "the_tier (entries pl) (select_ctx_of now sc key pl) = [0, Suc 0]"
    using assms by (simp add: the_tier_def tier_of_def select_ctx_of_def upt_rec entry_ready_def ready_entry_def)
  have m: "unat (round_robin pl) mod Suc (Suc 0) = ?i"
    unfolding numeral_2_eq_2[symmetric] by (simp add: mod2_eq_if)
  have "best_for (entries pl) (select_ctx_of now sc key pl) = (Some ?i, rng pl)"
    using assms(1,2) t m by (simp add: best_for_def Let_def connect_biased_def select_ctx_of_def)
  then show "fst (try_select now sc key pl) = Some (if even (unat (round_robin pl)) then a else b)"
    "entries (snd (try_select now sc key pl)) = [ready_entry (if even (unat (round_robin pl)) then b else a)]"
    "round_robin (snd (try_select now sc key pl)) = round_robin pl + 1"
    using assms(1,3) by (simp_all add: try_select_def Let_def swap_remove_def ready_entry_def split: if_splits)
qed

text \<open>\<open>RoundRobin\<close> over two ready proxies does not alternate: the order of the pool changes
  with each lease (\<open>swap_remove\<close>, then a push at the end), so the client whose lease is returned
  before its next one is handed the same proxy twice in a row.\<close>

theorem round_robin_repeats:
  assumes "strategy_of (config pl) = RoundRobin" "\<not> prefer_connect (config pl)"
    and "entries pl = [ready_entry a, ready_entry b]" "even (unat (round_robin pl))"
    and "serves sc (ready_entry a)" "serves sc (ready_entry b)" "\<not> unhealthy (config pl) a"
  shows "fst (try_select now sc key pl) = Some a
    \<and> fst (try_select now' sc key' (put_ok a (snd (try_select now sc key pl)))) = Some a"
proof
  note s = round_robin_step[OF assms(1,2,3,5,6), of now key]
  let ?pl = "put_ok a (snd (try_select now sc key pl))"
  show "fst (try_select now sc key pl) = Some a" using s(1) assms(4) by simp
  have c: "config ?pl = config pl" "entries ?pl = [ready_entry b, ready_entry a]"
    "round_robin ?pl = round_robin pl + 1"
    using s(2,3) assms(4,7) by (simp_all add: put_ok_def put_inner_def ready_entry_def)
  from round_robin_step(1)[of ?pl b a sc now' key'] c assms
  show "fst (try_select now' sc key' ?pl) = Some a" by (simp add: parity_inc)
qed

theorem round_robin_repeats_witness:
  "fst (try_select 1 SHttp (KeyHeader []) (sample_pool RoundRobin)) = Some (sample_proxy 1)
   \<and> fst (try_select 2 SHttp (KeyHeader [])
       (put_ok (sample_proxy 1) (snd (try_select 1 SHttp (KeyHeader []) (sample_pool RoundRobin)))))
     = Some (sample_proxy 1)"
proof -
  have h: "\<not> unhealthy (config (sample_pool RoundRobin)) (sample_proxy 1)"
    by (simp add: unhealthy_def sample_simps pool_config_default_def sample_proxy_def add_type_def proxy_new_def)
  have r: "even (unat (round_robin (sample_pool RoundRobin)))" by (simp add: sample_pool_def from_proxies_def)
  have c: "strategy_of (config (sample_pool RoundRobin)) = RoundRobin"
    "\<not> prefer_connect (config (sample_pool RoundRobin))"
    by (simp_all add: sample_config pool_config_default_def)
  have v: "serves SHttp (ready_entry (sample_proxy 1))" "serves SHttp (ready_entry (sample_proxy 2))"
    by (simp_all add: sample_simps)
  show ?thesis using round_robin_repeats[OF c sample_entries r v h] by simp
qed

end
