(* ===== verification/Http_Head.thy ===== *)
theory Http_Head
  imports Proxy Utils
begin

text \<open>
  The functions of \<^verbatim>\<open>src/src/server.rs\<close> that work on a buffered HTTP head: injecting, stripping and
  reading a header, the status of a response, whether a request has a body, and the choice of the
  protocol towards the proxy.
\<close>

section \<open>Definitions\<close>

definition inject_header :: "string \<Rightarrow> string \<Rightarrow> string" where
  "inject_header raw header_line =
     (case find_sub crlf raw of
        Some pos \<Rightarrow> let cut = pos + 2 in take cut raw @ header_line @ drop cut raw
      | None \<Rightarrow> raw)"

definition header_prefix :: "string \<Rightarrow> string" where
  "header_prefix name = lowercase name @ '':''"

definition is_header :: "string \<Rightarrow> string \<Rightarrow> bool" where
  "is_header name line \<longleftrightarrow> starts_with (header_prefix name) (lowercase (utf8_lossy line))"

text \<open>The loop of \<^verbatim>\<open>strip_header\<close>: one step per CRLF, the bytes after the last CRLF are kept.\<close>

function strip_loop :: "string \<Rightarrow> bool \<Rightarrow> string \<Rightarrow> string" where
  "strip_loop name first rest =
     (case find_sub crlf rest of
        None \<Rightarrow> rest
      | Some pos \<Rightarrow>
          (let advance = pos + 2;
               is_target = \<not> first \<and> is_header name (take pos rest)
           in (if is_target then [] else take advance rest)
                @ strip_loop name False (drop advance rest)))"
  by pat_completeness auto
termination
proof (relation "measure (\<lambda>(name, first, rest). length rest)", goal_cases)
  case (2 name first rest pos advance is_target)
  then show ?case using find_sub_bound[of crlf rest pos] by (simp add: crlf_def)
qed simp

declare strip_loop.simps [simp del]

definition strip_header :: "string \<Rightarrow> string \<Rightarrow> string" where
  "strip_header raw name = strip_loop name True raw"

definition header_value :: "string \<Rightarrow> string \<Rightarrow> string option" where
  "header_value raw name =
     map_option (\<lambda>l. trim (drop (length name + 1) l))
       (find (\<lambda>l. starts_with (header_prefix name) (lowercase l)) (drop 1 (lines (utf8_lossy raw))))"

definition pick :: "proto list \<Rightarrow> type_map \<Rightarrow> proto option" where
  "pick candidates types = find (\<lambda>c. types c \<noteq> None) candidates"

definition choose_proto :: "proxy \<Rightarrow> scheme \<Rightarrow> proto" where
  "choose_proto p sc =
     (case sc of
        SHttps \<Rightarrow> (case pick [Https, Socks5, Socks4, Connect80] (p_types p) of Some c \<Rightarrow> c | None \<Rightarrow> Https)
      | SHttp \<Rightarrow> (case pick [Http, Connect80, Socks5, Socks4] (p_types p) of Some c \<Rightarrow> c | None \<Rightarrow> Http))"

datatype frontend = HttpForward | HttpConnect | FSocks5

definition relay_negotiation_proto :: "proto \<Rightarrow> frontend \<Rightarrow> proto" where
  "relay_negotiation_proto pr fe =
     (if pr = Https \<and> (fe = HttpConnect \<or> fe = FSocks5) then Connect80 else pr)"

definition parse_http_status :: "string \<Rightarrow> nat" where
  "parse_http_status head =
     (if \<not> utf8_valid head then 0
      else case drop 1 (split_ws head) of
        [] \<Rightarrow> 0
      | c # _ \<Rightarrow> (case parse_uint 65535 c of Some n \<Rightarrow> n | None \<Rightarrow> 0))"

definition request_has_body :: "string \<Rightarrow> bool" where
  "request_has_body raw \<longleftrightarrow>
     (if header_value raw ''Transfer-Encoding'' \<noteq> None then True
      else case header_value raw ''Content-Length'' of
        Some v \<Rightarrow> (case parse_uint 18446744073709551615 (trim v) of Some n \<Rightarrow> 0 < n | None \<Rightarrow> True)
      | None \<Rightarrow> False)"

definition basic_auth :: "credentials \<Rightarrow> string" where
  "basic_auth c = ''Proxy-Authorization: Basic '' @ base64_encode (username c @ '':'' @ password c) @ crlf"

section \<open>Lines ended by CRLF\<close>

text \<open>The specification view of a head: the lines that a CRLF ends, and what follows the last one.\<close>

function crlf_lines :: "string \<Rightarrow> string list \<times> string" where
  "crlf_lines s =
     (case find_sub crlf s of
        None \<Rightarrow> ([], s)
      | Some pos \<Rightarrow> (case crlf_lines (drop (pos + 2) s) of (ls, t) \<Rightarrow> (take pos s # ls, t)))"
  by pat_completeness auto
termination
proof (relation "measure length", goal_cases)
  case (2 s pos)
  then show ?case using find_sub_bound[of crlf s pos] by (simp add: crlf_def)
qed simp

declare crlf_lines.simps [simp del]

definition unlines :: "string list \<times> string \<Rightarrow> string" where
  "unlines x = concat (map (\<lambda>l. l @ crlf) (fst x)) @ snd x"

lemma find_sub_crlf_prefix:
  assumes "find_sub crlf s = Some pos"
  shows "find_sub crlf (take pos s @ crlf @ t) = Some pos"
proof -
  have p: "pos + 2 \<le> length s" using find_sub_bound[OF assms] by (simp add: crlf_def)
  have s: "s = take pos s @ crlf @ drop (pos + 2) s"
    using find_sub_split[OF assms] by (simp add: crlf_def)
  have "find_sub crlf (take pos s @ crlf) = Some pos"
  proof -
    have "find_sub crlf (u @ crlf @ v) = Some (length u) \<Longrightarrow> find_sub crlf (u @ crlf) = Some (length u)" for u v
    proof (induction u)
      case Nil
      then show ?case by (simp add: crlf_def starts_with_def)
    next
      case (Cons c u)
      then show ?case by (cases u) (auto simp: crlf_def starts_with_def split: if_splits)
    qed
    from this[of "take pos s" "drop (pos + 2) s"] s assms p show ?thesis by simp
  qed
  from find_sub_append_first[OF this, of t] show ?thesis by simp
qed

lemma crlf_lines_step: "find_sub crlf s = Some pos \<Longrightarrow>
    crlf_lines s = (take pos s # fst (crlf_lines (drop (pos + 2) s)), snd (crlf_lines (drop (pos + 2) s)))"
  by (subst crlf_lines.simps) (simp split: prod.split)

lemma crlf_lines_none: "find_sub crlf s = None \<Longrightarrow> crlf_lines s = ([], s)"
  by (subst crlf_lines.simps) simp

lemma unlines_crlf_lines: "unlines (crlf_lines s) = s"
proof (induction s rule: crlf_lines.induct)
  case (1 s)
  show ?case
  proof (cases "find_sub crlf s")
    case None
    then show ?thesis by (simp add: crlf_lines_none unlines_def)
  next
    case (Some pos)
    have "s = take pos s @ crlf @ drop (pos + 2) s"
      using find_sub_split[OF Some] by (simp add: crlf_def)
    with 1[OF Some] show ?thesis by (simp add: crlf_lines_step[OF Some] unlines_def)
  qed
qed

lemma crlf_lines_Cons:
  assumes "find_sub crlf s = Some pos"
  shows "crlf_lines (take pos s @ crlf @ t) = (take pos s # fst (crlf_lines t), snd (crlf_lines t))"
proof -
  have "pos \<le> length s" using find_sub_bound[OF assms] by simp
  then show ?thesis using crlf_lines_step[OF find_sub_crlf_prefix[OF assms, of t]] by (simp add: crlf_def)
qed

lemma strip_loop_lines:
  "crlf_lines (strip_loop name first s) =
    (case crlf_lines s of
       ([], t) \<Rightarrow> ([], t)
     | (l # ls, t) \<Rightarrow>
        ((if first then [l] else filter (\<lambda>l. \<not> is_header name l) [l]) @ filter (\<lambda>l. \<not> is_header name l) ls, t))"
proof (induction name first s rule: strip_loop.induct)
  case (1 name first s)
  show ?case
  proof (cases "find_sub crlf s")
    case None
    then show ?thesis by (subst strip_loop.simps) (simp add: crlf_lines_none)
  next
    case (Some pos)
    let ?r = "drop (pos + 2) s" and ?l = "take pos s"
    have ih: "crlf_lines (strip_loop name False ?r) =
        (filter (\<lambda>l. \<not> is_header name l) (fst (crlf_lines ?r)), snd (crlf_lines ?r))"
      using 1[OF Some refl refl] by (cases "crlf_lines ?r"; cases "fst (crlf_lines ?r)") auto
    have "take (pos + 2) s = ?l @ crlf"
      using find_sub_split[OF Some] find_sub_bound[OF Some]
      by (metis append_assoc append_eq_conv_conj length_append length_take crlf_def
          length_Cons list.size(3) min.absorb2 add_leD1 Suc_1 One_nat_def)
    with ih show ?thesis
      using crlf_lines_Cons[OF Some, of "strip_loop name False ?r"]
      by (subst strip_loop.simps) (auto simp: Some Let_def crlf_lines_step[OF Some])
  qed
qed

lemma find_sub_crlf_fresh: "CR \<notin> set l \<Longrightarrow> find_sub crlf (l @ crlf @ t) = Some (length l)"
  by (induction l) (auto simp: crlf_def starts_with_def)

lemma crlf_lines_fresh: "CR \<notin> set l \<Longrightarrow> crlf_lines (l @ crlf @ t) = (l # fst (crlf_lines t), snd (crlf_lines t))"
  using crlf_lines_step[OF find_sub_crlf_fresh, of l t] by (simp add: crlf_def)

lemma b64_chunk_chars: "c \<in> set (b64_chunk x) \<Longrightarrow> c \<in> set b64_alphabet \<or> c = CHR ''=''"
  by (auto simp: b64_chunk_def Let_def b64_alphabet_facts intro!: nth_mem split: if_splits)

lemma base64_chars: "c \<in> set (base64_encode s) \<Longrightarrow> c \<in> set b64_alphabet \<or> c = CHR ''=''"
proof (induction s rule: base64_encode.induct)
  case (1 s)
  then show ?case by (cases "s = []") (auto simp: base64_encode.simps[of s] base64_encode.simps[of "[]"] dest: b64_chunk_chars)
qed

lemma base64_no_CR: "CR \<notin> set (base64_encode s)"
proof
  assume "CR \<in> set (base64_encode s)"
  then have "CR \<in> set b64_alphabet \<or> CR = CHR ''=''" by (rule base64_chars)
  then show False by (simp add: b64_alphabet_def CR_def)
qed

lemma inject_header_lines:
  assumes "CR \<notin> set h"
  shows "crlf_lines (inject_header raw (h @ crlf)) =
    (case crlf_lines raw of ([], t) \<Rightarrow> ([], t) | (l # ls, t) \<Rightarrow> (l # h # ls, t))"
proof (cases "find_sub crlf raw")
  case None
  then show ?thesis by (simp add: inject_header_def crlf_lines_none)
next
  case (Some pos)
  have "take (pos + 2) raw = take pos raw @ crlf"
    using find_sub_split[OF Some] find_sub_bound[OF Some]
    by (metis append_assoc append_eq_conv_conj length_append length_take crlf_def
        length_Cons list.size(3) min.absorb2 add_leD1 Suc_1 One_nat_def)
  then have "inject_header raw (h @ crlf) = take pos raw @ crlf @ (h @ crlf @ drop (pos + 2) raw)"
    by (simp add: inject_header_def Some Let_def)
  then show ?thesis
    using crlf_lines_Cons[OF Some] crlf_lines_fresh[OF assms] by (simp add: crlf_lines_step[OF Some])
qed

section \<open>What is forwarded upstream\<close>

text \<open>The request bytes that the relay writes to the proxy.\<close>

definition forward_head :: "credentials option \<Rightarrow> string \<Rightarrow> string" where
  "forward_head auth raw =
     (let sanitized = strip_header raw ''Proxy-Authorization''
      in case auth of Some c \<Rightarrow> inject_header sanitized (basic_auth c) | None \<Rightarrow> sanitized)"

text \<open>C25. Seen as CRLF lines, a forwarded request is the client's with every
  \<open>Proxy-Authorization\<close> header removed and, when the upstream has credentials, one such header with
  these credentials after the request line; nothing else changes.\<close>

theorem forward_head_lines:
  "crlf_lines (forward_head auth raw) =
    (case crlf_lines raw of
       ([], t) \<Rightarrow> ([], t)
     | (l # ls, t) \<Rightarrow>
        (l # (case auth of None \<Rightarrow> []
              | Some c \<Rightarrow> [''Proxy-Authorization: Basic '' @ base64_encode (username c @ '':'' @ password c)])
           @ filter (\<lambda>l. \<not> is_header ''Proxy-Authorization'' l) ls, t))"
proof -
  have s: "crlf_lines (strip_header raw ''Proxy-Authorization'') =
    (case crlf_lines raw of ([], t) \<Rightarrow> ([], t)
     | (l # ls, t) \<Rightarrow> (l # filter (\<lambda>l. \<not> is_header ''Proxy-Authorization'' l) ls, t))"
    by (auto simp: strip_header_def strip_loop_lines split: prod.splits list.splits)
  show ?thesis
  proof (cases auth)
    case None
    with s show ?thesis by (simp add: forward_head_def split: prod.splits list.splits)
  next
    case (Some c)
    let ?h = "''Proxy-Authorization: Basic '' @ base64_encode (username c @ '':'' @ password c)"
    have "CR \<notin> set ?h" using base64_no_CR by (simp add: CR_def)
    from inject_header_lines[OF this, of "strip_header raw ''Proxy-Authorization''"] s Some
    show ?thesis by (auto simp: forward_head_def basic_auth_def split: prod.splits list.splits)
  qed
qed

text \<open>With bare line feeds the two readings of a head disagree: this request passes as carrying
  the credentials \<open>Basic x\<close>, but they are part of what \<^verbatim>\<open>strip_header\<close> takes for the request line,
  and are forwarded to the upstream proxy unchanged.\<close>

theorem bare_lf_auth_forwarded:
  "let raw = ''GET http://h/ HTTP/1.1'' @ [LF] @ ''Proxy-Authorization: Basic x'' @ crlf @ crlf
   in header_value raw ''Proxy-Authorization'' = Some ''Basic x'' \<and> forward_head None raw = raw"
  by code_simp

section \<open>The protocol towards the proxy\<close>

lemma pick_Some: "pick cs m = Some c \<Longrightarrow> c \<in> set cs \<and> m c \<noteq> None"
  by (auto simp: pick_def find_Some_iff)

lemma pick_None: "pick cs m = None \<longleftrightarrow> (\<forall>c \<in> set cs. m c = None)"
  by (auto simp: pick_def find_None_iff)

text \<open>A request is relayed with a protocol that was confirmed for the proxy, whenever the proxy
  was eligible for the scheme of the request.\<close>

theorem choose_proto_confirmed:
  assumes "sc \<in> set (schemes p)"
  shows "p_types p (choose_proto p sc) \<noteq> None"
proof (cases sc)
  case SHttp
  then have "pick [Http, Connect80, Socks5, Socks4] (p_types p) \<noteq> None"
    using assms by (auto simp: schemes_iff pick_None http_protos_def)
  with SHttp show ?thesis by (auto simp: choose_proto_def dest: pick_Some)
next
  case SHttps
  then have "pick [Https, Socks5, Socks4, Connect80] (p_types p) \<noteq> None"
    using assms by (auto simp: schemes_iff pick_None https_protos_def)
  with SHttps show ?thesis by (auto simp: choose_proto_def dest: pick_Some)
qed

theorem choose_proto_confirmed_witness:
  "p_types (add_type Socks4 None (proxy_new (V4 1 2 3 4) 1080 {}))
     (choose_proto (add_type Socks4 None (proxy_new (V4 1 2 3 4) 1080 {})) SHttps) \<noteq> None"
  by (rule choose_proto_confirmed) (simp add: schemes_iff add_type_def proxy_new_def)

end
