(* ===== verification/Negotiator.thy ===== *)
theory Negotiator
  imports Proxy Utils
begin

text \<open>
  \<^verbatim>\<open>src/src/negotiator.rs\<close>: turning a connection to a proxy into a stream to the target.

  A connection is what the peer will send: some bytes and then the end of file, a read error or
  silence until the deadline. Bytes written are returned beside the result. The SOCKS handshakes
  (\<^verbatim>\<open>tokio-socks\<close>) and the TLS handshake (\<^verbatim>\<open>rustls\<close>) are functions of the record \<open>net\<close>, which also
  says how dialling and writing went; they return what is left to read.
\<close>

section \<open>Connections\<close>

datatype rend = REof | RErr | RStall

type_synonym input = "string \<times> rend"

datatype wres = WOk | WErr | WStall

datatype dial_res = Dialed | DialRefused | DialTimeout

datatype socks_res = SocksOk input | SocksTimedOut | SocksErr | SocksStall

datatype tls_res = TlsOk input | TlsErr | TlsStall

datatype socks_dest = DestIp ip_addr u16 | DestName string u16

record net =
  n_dial :: dial_res
  n_in :: input
  n_write :: wres
  n_socks4 :: "ip_addr \<Rightarrow> u16 \<Rightarrow> input \<Rightarrow> socks_res"
  n_socks5 :: "socks_dest \<Rightarrow> (string \<times> string) option \<Rightarrow> input \<Rightarrow> socks_res"
  n_tls_name :: "string \<Rightarrow> bool"
  n_tls :: "string \<Rightarrow> input \<Rightarrow> tls_res"

record target =
  t_host :: string
  t_ip :: "ip_addr option"
  t_port :: u16

datatype stream = Plain input | Tls input

fun stream_in :: "stream \<Rightarrow> input" where
  "stream_in (Plain i) = i"
| "stream_in (Tls i) = i"

definition smtp_ready :: nat where
  "smtp_ready = 220"

text \<open>\<open>read_exact\<close>: all bytes or an error.\<close>

definition read_exact :: "nat \<Rightarrow> input \<Rightarrow> (rend + string) \<times> input" where
  "read_exact n i = (case i of (bs, e) \<Rightarrow>
     if n \<le> length bs then (Inr (take n bs), (drop n bs, e)) else (Inl e, ([], e)))"

section \<open>The CONNECT request\<close>

definition bare_host :: "string \<Rightarrow> string" where
  "bare_host host =
     (case strip_prefix ''['' host of
        Some h \<Rightarrow> (case strip_suffix '']'' h of Some b \<Rightarrow> b | None \<Rightarrow> host)
      | None \<Rightarrow> host)"

definition connect_request :: "string \<Rightarrow> u16 \<Rightarrow> credentials option \<Rightarrow> string" where
  "connect_request host port creds =
     (let bare = bare_host host;
          (authority, host_hdr) =
            (if contains '':'' bare then (''['' @ bare @ '']:'' @ show_word port, ''['' @ bare @ '']'')
             else (bare @ '':'' @ show_word port, bare));
          auth = (case creds of
            Some c \<Rightarrow> ''Proxy-Authorization: Basic '' @ base64_encode (username c @ '':'' @ password c) @ crlf
          | None \<Rightarrow> [])
      in ''CONNECT '' @ authority @ '' HTTP/1.1'' @ crlf @ ''Host: '' @ host_hdr @ crlf
         @ ''User-Agent: PxBroker/'' @ pkg_version @ ''/'' @ crlf @ auth
         @ ''Connection: keep-alive'' @ crlf @ crlf)"

section \<open>Reading the reply\<close>

text \<open>The loop of \<^verbatim>\<open>read_head\<close>; \<open>buf\<close> is the buffer, the remaining input comes back with the head.\<close>

fun read_head_loop :: "string \<Rightarrow> string \<Rightarrow> rend \<Rightarrow> (proxy_error + string) \<times> input" where
  "read_head_loop buf [] e =
     (Inl (case e of RErr \<Rightarrow> Reset | RStall \<Rightarrow> Timeout
        | REof \<Rightarrow> (if buf = [] then EmptyRecv else Reset)), ([], e))"
| "read_head_loop buf (b # bs) e =
     (let buf' = buf @ [b]
      in if ends_with (crlf @ crlf) buf' then (Inr buf', (bs, e))
         else if 8192 < length buf' then (Inl BadResponse, (bs, e))
         else read_head_loop buf' bs e)"

definition read_head :: "input \<Rightarrow> (proxy_error + string) \<times> input" where
  "read_head i = (case i of (bs, e) \<Rightarrow> read_head_loop [] bs e)"

definition http_connect :: "net \<Rightarrow> target \<Rightarrow> credentials option \<Rightarrow> input
    \<Rightarrow> (proxy_error + input) \<times> string" where
  "http_connect net t creds i =
     (let req = connect_request (t_host t) (t_port t) creds
      in case n_write net of
           WStall \<Rightarrow> (Inl Timeout, [])
         | WErr \<Rightarrow> (Inl Reset, [])
         | WOk \<Rightarrow>
            (case read_head i of
               (Inl err, _) \<Rightarrow> (Inl err, req)
             | (Inr head, i') \<Rightarrow>
                 if get_status_code head 9 12 \<noteq> 200 then (Inl BadStatus, req) else (Inr i', req)))"

definition read_smtp_banner :: "input \<Rightarrow> proxy_error + input" where
  "read_smtp_banner i =
     (case read_exact 3 i of
        (Inl RStall, _) \<Rightarrow> Inl Timeout
      | (Inl _, _) \<Rightarrow> Inl Reset
      | (Inr buf, i') \<Rightarrow> if get_status_code buf 0 3 \<noteq> smtp_ready then Inl BadStatus else Inr i')"

definition tls_upgrade :: "net \<Rightarrow> string \<Rightarrow> input \<Rightarrow> proxy_error + stream" where
  "tls_upgrade net host i =
     (if \<not> n_tls_name net host then Inl BadResponse
      else case n_tls net host i of
        TlsStall \<Rightarrow> Inl Timeout | TlsErr \<Rightarrow> Inl BadResponse | TlsOk i' \<Rightarrow> Inr (Tls i'))"

section \<open>SOCKS\<close>

text \<open>The deadline and \<^verbatim>\<open>map_socks_err\<close>.\<close>

fun socks_result :: "socks_res \<Rightarrow> proxy_error + stream" where
  "socks_result (SocksOk i) = Inr (Plain i)"
| "socks_result SocksTimedOut = Inl Timeout"
| "socks_result SocksErr = Inl BadResponse"
| "socks_result SocksStall = Inl Timeout"

definition socks4 :: "net \<Rightarrow> target \<Rightarrow> input \<Rightarrow> proxy_error + stream" where
  "socks4 net t i =
     (case t_ip t of
        Some (V4 a b c d) \<Rightarrow> socks_result (n_socks4 net (V4 a b c d) (t_port t) i)
      | _ \<Rightarrow> Inl BadResponse)"

definition socks5 :: "net \<Rightarrow> target \<Rightarrow> credentials option \<Rightarrow> input \<Rightarrow> proxy_error + stream" where
  "socks5 net t creds i =
     (let dest = (case t_ip t of Some ip \<Rightarrow> DestIp ip (t_port t) | None \<Rightarrow> DestName (t_host t) (t_port t));
          pw = map_option (\<lambda>c. (username c, password c)) creds
      in socks_result (n_socks5 net dest pw i))"

section \<open>Negotiation\<close>

text \<open>The result and the bytes of the CONNECT request that were written (the bytes of the SOCKS and
  TLS handshakes belong to the libraries).\<close>

definition negotiate :: "net \<Rightarrow> proto \<Rightarrow> target \<Rightarrow> credentials option \<Rightarrow> input
    \<Rightarrow> (proxy_error + stream) \<times> string" where
  "negotiate net pr t creds i =
     (case pr of
        Http \<Rightarrow> (Inr (Plain i), [])
      | Socks4 \<Rightarrow> (socks4 net t i, [])
      | Socks5 \<Rightarrow> (socks5 net t creds i, [])
      | Https \<Rightarrow>
          (case http_connect net t creds i of
             (Inl e, w) \<Rightarrow> (Inl e, w)
           | (Inr i', w) \<Rightarrow> (tls_upgrade net (t_host t) i', w))
      | _ \<Rightarrow>
          (case http_connect net t creds i of
             (Inl e, w) \<Rightarrow> (Inl e, w)
           | (Inr i', w) \<Rightarrow>
               if pr = Connect25 then
                 (case read_smtp_banner i' of
                    Inl e \<Rightarrow> (Inl e, w) | Inr i'' \<Rightarrow> (Inr (Plain i''), w))
               else (Inr (Plain i'), w)))"

definition probe_tunnel :: "net \<Rightarrow> target \<Rightarrow> credentials option \<Rightarrow> bool" where
  "probe_tunnel net t creds \<longleftrightarrow>
     n_dial net = Dialed \<and>
     (case negotiate net Connect80 t creds (n_in net) of (Inr _, _) \<Rightarrow> True | (Inl _, _) \<Rightarrow> False)"

section \<open>Facts\<close>

text \<open>A head that is read ends at its first blank line, within the size bound; what follows is left
  for the tunnel.\<close>

lemma read_head_loop_Inr:
  assumes "read_head_loop buf bs e = (Inr head, i)" "length buf \<le> 8192"
  shows "\<exists>rest. buf @ bs = head @ rest \<and> i = (rest, e) \<and> ends_with (crlf @ crlf) head
    \<and> length head \<le> 8193
    \<and> (\<forall>n. length buf < n \<longrightarrow> n < length head \<longrightarrow> \<not> ends_with (crlf @ crlf) (take n head))"
  using assms
proof (induction bs arbitrary: buf)
  case (Cons b bs)
  show ?case
  proof (cases "ends_with (crlf @ crlf) (buf @ [b])")
    case True
    with Cons.prems show ?thesis by auto
  next
    case False
    have l: "length (buf @ [b]) \<le> 8192" and r: "read_head_loop (buf @ [b]) bs e = (Inr head, i)"
      using Cons.prems False by (auto simp: Let_def split: if_splits)
    from Cons.IH[OF r l] obtain rest where h: "(buf @ [b]) @ bs = head @ rest" "i = (rest, e)"
      "ends_with (crlf @ crlf) head" "length head \<le> 8193"
      and n: "\<And>n. length (buf @ [b]) < n \<Longrightarrow> n < length head \<Longrightarrow> \<not> ends_with (crlf @ crlf) (take n head)"
      by blast
    have "\<not> ends_with (crlf @ crlf) (take n head)" if "length buf < n" "n < length head" for n
    proof (cases "n = Suc (length buf)")
      case True
      with h(1) that have "take n head = buf @ [b]"
        by (metis append_eq_append_conv_if length_append_singleton less_imp_le)
      with False show ?thesis by simp
    qed (use n[of n] that in auto)
    with h show ?thesis by auto
  qed
qed simp

lemma http_connect_Inr:
  assumes "http_connect net t creds (bs, e) = (Inr i, w)"
  shows "\<exists>head rest. bs = head @ rest \<and> i = (rest, e) \<and> ends_with (crlf @ crlf) head
    \<and> (\<forall>n < length head. \<not> ends_with (crlf @ crlf) (take n head))
    \<and> get_status_code head 9 12 = 200 \<and> w = connect_request (t_host t) (t_port t) creds"
proof -
  obtain head where h: "read_head_loop [] bs e = (Inr head, i)" "get_status_code head 9 12 = 200"
    "w = connect_request (t_host t) (t_port t) creds"
    using assms by (auto simp: http_connect_def read_head_def Let_def
        split: wres.splits sum.splits prod.splits if_splits)
  have "\<not> ends_with (crlf @ crlf) []" by (simp add: ends_with_def crlf_def)
  then have "\<forall>n < length head. \<not> ends_with (crlf @ crlf) (take n head)"
    using read_head_loop_Inr[OF h(1)] by (metis gr0I list.size(3) take0 zero_le)
  with read_head_loop_Inr[OF h(1)] h(2,3) show ?thesis by auto
qed

text \<open>A \<open>CONNECT:80\<close> negotiation succeeds only after the proxy answered the CONNECT request for
  the target with a head whose status is 200; the stream handed on starts with the first byte after
  the blank line that ends this head, so no byte of the tunnel is lost or repeated.\<close>

theorem negotiate_connect_ok:
  assumes "negotiate net Connect80 t creds (bs, e) = (Inr s, w)"
  shows "\<exists>head rest. bs = head @ rest \<and> s = Plain (rest, e) \<and> ends_with (crlf @ crlf) head
    \<and> (\<forall>n < length head. \<not> ends_with (crlf @ crlf) (take n head))
    \<and> get_status_code head 9 12 = 200 \<and> w = connect_request (t_host t) (t_port t) creds"
proof -
  obtain i where i: "http_connect net t creds (bs, e) = (Inr i, w)" "s = Plain i"
    using assms by (auto simp: negotiate_def split: sum.splits prod.splits)
  from http_connect_Inr[OF i(1)] i(2) show ?thesis by blast
qed

definition sample_net :: "string \<Rightarrow> net" where
  "sample_net bs = \<lparr>n_dial = Dialed, n_in = (bs, REof), n_write = WOk,
     n_socks4 = (\<lambda>_ _ i. SocksOk i), n_socks5 = (\<lambda>_ _ i. SocksOk i), n_tls_name = (\<lambda>_. True),
     n_tls = (\<lambda>_ i. TlsOk i)\<rparr>"

definition sample_target :: target where
  "sample_target = \<lparr>t_host = ''h'', t_ip = None, t_port = 443\<rparr>"

theorem negotiate_connect_ok_witness:
  "\<exists>head rest. ''HTTP/1.1 200 OK'' @ crlf @ crlf @ ''xy'' = head @ rest \<and> Plain (''xy'', REof) = Plain (rest, REof)
    \<and> ends_with (crlf @ crlf) head
    \<and> (\<forall>n < length head. \<not> ends_with (crlf @ crlf) (take n head))
    \<and> get_status_code head 9 12 = 200
    \<and> connect_request ''h'' 443 None = connect_request (t_host sample_target) (t_port sample_target) None"
proof (rule negotiate_connect_ok)
  have "read_head_loop [] (''HTTP/1.1 200 OK'' @ crlf @ crlf @ ''xy'') REof
      = (Inr (''HTTP/1.1 200 OK'' @ crlf @ crlf), (''xy'', REof))"
    by (simp add: ends_with_def crlf_def CR_def LF_def)
  moreover have "get_status_code (''HTTP/1.1 200 OK'' @ crlf @ crlf) 9 12 = 200"
    by (simp add: get_status_code_def str_eval)
  ultimately show "negotiate (sample_net []) Connect80 sample_target None
      (''HTTP/1.1 200 OK'' @ crlf @ crlf @ ''xy'', REof) = (Inr (Plain (''xy'', REof)), connect_request ''h'' 443 None)"
    by (simp add: negotiate_def http_connect_def read_head_def sample_net_def sample_target_def Let_def)
qed

end
