(* ===== verification/Client_Request.thy ===== *)
theory Client_Request
  imports Http_Head Negotiator
begin

text \<open>
  The front end of \<^verbatim>\<open>src/src/server.rs\<close>: reading and parsing the first request of a client, an HTTP
  head (forward or CONNECT) or a SOCKS5 handshake. The client is an input as in the negotiator; the
  bytes written to it come back with the result, and \<open>cw k\<close> says whether the \<open>k\<close>-th write succeeds.
\<close>

section \<open>Definitions\<close>

record client_request =
  rq_scheme :: scheme
  rq_frontend :: frontend
  rq_host :: string
  rq_port :: u16
  rq_raw :: string
  rq_proxy_auth :: "string option"
  rq_path :: string

record auth_expect =
  ae_user :: string
  ae_pass :: string
  ae_basic :: string

text \<open>The expected credentials, precomputed by \<^verbatim>\<open>serve\<close> from \<open>user:pass\<close>.\<close>

definition auth_expect_of :: "string \<Rightarrow> auth_expect" where
  "auth_expect_of up =
     (let (user, pass) = (case split_once '':'' up of Some x \<Rightarrow> x | None \<Rightarrow> (up, []))
      in \<lparr>ae_user = user, ae_pass = pass, ae_basic = ''Basic '' @ base64_encode up\<rparr>)"

text \<open>\<open>read_exact(..).await.ok()?\<close> under the deadline.\<close>

definition rd :: "nat \<Rightarrow> input \<Rightarrow> (string \<times> input) option" where
  "rd n i = (case read_exact n i of (Inr bs, i') \<Rightarrow> Some (bs, i') | (Inl _, _) \<Rightarrow> None)"

definition byte :: "nat \<Rightarrow> char" where
  "byte n = char_of n"

definition val :: "string \<Rightarrow> nat \<Rightarrow> nat" where
  "val bs k = of_char (bs ! k)"

definition be16 :: "string \<Rightarrow> u16" where
  "be16 bs = of_nat (256 * val bs 0 + val bs 1)"

definition v4_of_bytes :: "string \<Rightarrow> string" where
  "v4_of_bytes a = show_v4 (of_nat (val a 0)) (of_nat (val a 1)) (of_nat (val a 2)) (of_nat (val a 3))"

definition v6_of_bytes :: "string \<Rightarrow> string" where
  "v6_of_bytes a = show_v6 (of_nat (foldl (\<lambda>n c. 256 * n + of_char c) 0 a))"

definition socks_reply :: "nat \<Rightarrow> string" where
  "socks_reply rep = map byte [5, rep, 0, 1, 0, 0, 0, 0, 0, 0]"

text \<open>The method selection and, with expected credentials, the RFC 1929 exchange: the input after
  it, or nothing when the client is rejected.\<close>

definition socks5_auth :: "(nat \<Rightarrow> bool) \<Rightarrow> auth_expect option \<Rightarrow> string \<Rightarrow> input
    \<Rightarrow> input option \<times> string" where
  "socks5_auth cw want methods i =
     (case want of
        None \<Rightarrow>
          if byte 0 \<notin> set methods then (None, map byte [5, 255])
          else if \<not> cw 0 then (None, []) else (Some i, map byte [5, 0])
      | Some ex \<Rightarrow>
          if byte 2 \<notin> set methods then (None, map byte [5, 255])
          else if \<not> cw 0 then (None, [])
          else
            (case rd 2 i of None \<Rightarrow> (None, map byte [5, 2])
             | Some (vu, i1) \<Rightarrow>
            (case rd (val vu 1) i1 of None \<Rightarrow> (None, map byte [5, 2])
             | Some (user, i2) \<Rightarrow>
            (case rd 1 i2 of None \<Rightarrow> (None, map byte [5, 2])
             | Some (pl, i3) \<Rightarrow>
            (case rd (val pl 0) i3 of None \<Rightarrow> (None, map byte [5, 2])
             | Some (pass, i4) \<Rightarrow>
                if user = ae_user ex \<and> pass = ae_pass ex then
                  (if cw 1 then (Some i4, map byte [5, 2, 1, 0]) else (None, map byte [5, 2]))
                else (None, map byte [5, 2, 1, 1]))))))"

text \<open>The CONNECT request: the host, the port and the input after it, or nothing and the reply.\<close>

definition socks5_dest :: "input \<Rightarrow> (string \<times> u16 \<times> input) option \<times> string" where
  "socks5_dest i =
     (case rd 4 i of None \<Rightarrow> (None, [])
      | Some (hdr, i1) \<Rightarrow>
         if val hdr 0 \<noteq> 5 then (None, [])
         else if val hdr 1 \<noteq> 1 then (None, socks_reply 7)
         else if val hdr 3 = 1 then
           (case rd 4 i1 of None \<Rightarrow> (None, [])
            | Some (a, i2) \<Rightarrow> (case rd 2 i2 of None \<Rightarrow> (None, [])
            | Some (p, i3) \<Rightarrow> (Some (v4_of_bytes a, be16 p, i3), [])))
         else if val hdr 3 = 4 then
           (case rd 16 i1 of None \<Rightarrow> (None, [])
            | Some (a, i2) \<Rightarrow> (case rd 2 i2 of None \<Rightarrow> (None, [])
            | Some (p, i3) \<Rightarrow> (Some (v6_of_bytes a, be16 p, i3), [])))
         else if val hdr 3 = 3 then
           (case rd 1 i1 of None \<Rightarrow> (None, [])
            | Some (l, i2) \<Rightarrow> (case rd (val l 0) i2 of None \<Rightarrow> (None, [])
            | Some (d, i3) \<Rightarrow> (case rd 2 i3 of None \<Rightarrow> (None, [])
            | Some (p, i4) \<Rightarrow> (Some (utf8_lossy d, be16 p, i4), []))))
         else (None, socks_reply 8))"

definition parse_socks5_request :: "(nat \<Rightarrow> bool) \<Rightarrow> auth_expect option \<Rightarrow> input
    \<Rightarrow> (client_request \<times> input) option \<times> string" where
  "parse_socks5_request cw want i =
     (case rd 1 i of None \<Rightarrow> (None, [])
      | Some (nm, i1) \<Rightarrow>
     (case rd (val nm 0) i1 of None \<Rightarrow> (None, [])
      | Some (methods, i2) \<Rightarrow>
     (case socks5_auth cw want methods i2 of
        (None, w) \<Rightarrow> (None, w)
      | (Some i3, w) \<Rightarrow>
         (case socks5_dest i3 of
            (None, w') \<Rightarrow> (None, w @ w')
          | (Some (host, port, i4), w') \<Rightarrow>
              (Some (\<lparr>rq_scheme = SHttps, rq_frontend = FSocks5, rq_host = host, rq_port = port,
                     rq_raw = [], rq_proxy_auth = None, rq_path = host @ '':'' @ show_word port\<rparr>, i4),
               w @ w')))))"

fun http_head_loop :: "string \<Rightarrow> string \<Rightarrow> (string \<times> string) option" where
  "http_head_loop buf [] = None"
| "http_head_loop buf (b # bs) =
     (let buf' = buf @ [b]
      in if ends_with (crlf @ crlf) buf' \<or> 65536 < length buf' then Some (buf', bs)
         else http_head_loop buf' bs)"

text \<open>The part after the head is buffered.\<close>

definition parse_http_request :: "string \<Rightarrow> client_request option" where
  "parse_http_request buf =
     (case lines (utf8_lossy buf) of
        [] \<Rightarrow> None
      | first # ls \<Rightarrow>
         (case split_ws first of
            method # uri # _ \<Rightarrow>
              (let proxy_auth = header_value buf ''Proxy-Authorization''
               in if eq_ignore_case method ''CONNECT'' then
                    (let (host, port) = split_host_port uri 443
                     in Some \<lparr>rq_scheme = SHttps, rq_frontend = HttpConnect, rq_host = host,
                          rq_port = port, rq_raw = [], rq_proxy_auth = proxy_auth, rq_path = uri\<rparr>)
                  else
                    (let host_hdr = map_option (\<lambda>l. trim (drop 5 l))
                           (find (\<lambda>l. starts_with ''host:'' (lowercase l)) ls);
                         host_port = (case strip_prefix ''http://'' uri of
                             Some rest \<Rightarrow> Some (hd (split_char (CHR ''/'') rest))
                           | None \<Rightarrow> host_hdr)
                     in case host_port of
                          None \<Rightarrow> None
                        | Some hp \<Rightarrow>
                            let (host, port) = split_host_port hp 80
                            in Some \<lparr>rq_scheme = SHttp, rq_frontend = HttpForward, rq_host = host,
                                 rq_port = port, rq_raw = buf, rq_proxy_auth = proxy_auth, rq_path = uri\<rparr>))
          | _ \<Rightarrow> None))"

definition parse_client_request :: "(nat \<Rightarrow> bool) \<Rightarrow> auth_expect option \<Rightarrow> input
    \<Rightarrow> (client_request \<times> input) option \<times> string" where
  "parse_client_request cw want i =
     (case rd 1 i of None \<Rightarrow> (None, [])
      | Some (first, i1) \<Rightarrow>
         if val first 0 = 5 then parse_socks5_request cw want i1
         else
           (case http_head_loop first (fst i1) of
              None \<Rightarrow> (None, [])
            | Some (buf, rest) \<Rightarrow>
                (case parse_http_request buf of
                   None \<Rightarrow> (None, [])
                 | Some rq \<Rightarrow> (Some (rq, (rest, snd i1)), []))))"

section \<open>Reading\<close>

lemma rd_app [simp]: "length a = n \<Longrightarrow> rd n (a @ b, e) = Some (a, (b, e))"
  by (simp add: rd_def read_exact_def)

lemma rd_Some: "rd n (bs, e) = Some (a, i) \<longleftrightarrow> (\<exists>b. bs = a @ b \<and> length a = n \<and> i = (b, e))"
  by (auto simp: rd_def read_exact_def split: if_splits)

section \<open>SOCKS5\<close>

lemma val_byte [simp]: "n < 256 \<Longrightarrow> val (byte n # bs) 0 = n"
  by (simp add: val_def byte_def)

lemma socks5_auth_Some:
  assumes "socks5_auth cw (Some ex) methods (bs, e) = (Some i, w)"
  shows "\<exists>v ul pl rest. bs = [v, ul] @ ae_user ex @ [pl] @ ae_pass ex @ rest \<and> i = (rest, e)
    \<and> of_char ul = length (ae_user ex) \<and> of_char pl = length (ae_pass ex)"
proof -
  obtain vu b1 b2 pl b3 b4 where r: "rd 2 (bs, e) = Some (vu, b1, e)"
    "rd (val vu 1) (b1, e) = Some (ae_user ex, b2, e)" "rd 1 (b2, e) = Some (pl, b3, e)"
    "rd (val pl 0) (b3, e) = Some (ae_pass ex, b4, e)" "i = (b4, e)"
    using assms by (auto simp: socks5_auth_def rd_Some split: option.splits if_splits prod.splits)
  then obtain v ul where vu: "vu = [v, ul]" by (auto simp: rd_Some length_Suc_conv numeral_2_eq_2)
  obtain p where pl: "pl = [p]" using r(3) by (auto simp: rd_Some length_Suc_conv)
  have "bs = [v, ul] @ ae_user ex @ [p] @ ae_pass ex @ b4" "of_char ul = length (ae_user ex)"
    "of_char p = length (ae_pass ex)"
    using r vu pl by (auto simp: rd_Some val_def)
  with r(5) show ?thesis by blast
qed

text \<open>C24. On a server with credentials, a SOCKS5 client whose request is accepted sent exactly the
  expected user name and password in the RFC 1929 exchange, after offering that method.\<close>

theorem socks5_authenticated:
  assumes "parse_client_request cw (Some ex) (bs, e) = (Some (rq, i), w)" "rq_frontend rq = FSocks5"
  shows "\<exists>methods v ul pl rest. bs = [byte 5, byte (length methods)] @ methods
      @ [v, ul] @ ae_user ex @ [pl] @ ae_pass ex @ rest
    \<and> byte 2 \<in> set methods \<and> of_char ul = length (ae_user ex) \<and> of_char pl = length (ae_pass ex)"
proof -
  have nh: "parse_http_request buf = Some rq \<Longrightarrow> rq_frontend rq \<noteq> FSocks5" for buf
    by (auto simp: parse_http_request_def Let_def split: list.splits if_splits prod.splits option.splits)
  obtain f b1 where f: "rd 1 (bs, e) = Some (f, b1, e)" "val f 0 = 5"
    and s: "parse_socks5_request cw (Some ex) (b1, e) = (Some (rq, i), w)"
    using assms nh by (auto simp: parse_client_request_def rd_Some split: option.splits if_splits prod.splits)
  obtain nm b2 methods b3 i3 w1 where n: "rd 1 (b1, e) = Some (nm, b2, e)"
    "rd (val nm 0) (b2, e) = Some (methods, b3, e)" and a: "socks5_auth cw (Some ex) methods (b3, e) = (Some i3, w1)"
    using s by (auto simp: parse_socks5_request_def rd_Some split: option.splits prod.splits)
  have m: "byte 2 \<in> set methods" using a by (auto simp: socks5_auth_def split: if_splits)
  obtain c d where "f = [c]" "nm = [d]" using f(1) n(1) by (auto simp: rd_Some length_Suc_conv)
  with f n have "bs = [c, d] @ methods @ b3" "of_char c = (5 :: nat)" "of_char d = length methods"
    by (auto simp: rd_Some val_def)
  then have "bs = [byte 5, byte (length methods)] @ methods @ b3"
    by (metis byte_def char_of_char)
  with socks5_auth_Some[OF a] m show ?thesis by fastforce
qed

definition sample_auth :: auth_expect where
  "sample_auth = \<lparr>ae_user = ''u'', ae_pass = ''pw'', ae_basic = ''Basic dTpwdw==''\<rparr>"

text \<open>The bytes of a SOCKS5 client that asks for a name.\<close>

definition be_port :: "u16 \<Rightarrow> string" where
  "be_port p = [byte (unat p div 256), byte (unat p mod 256)]"

lemma be16_port [simp]: "be16 (be_port p) = p"
proof -
  have "unat p < 65536" using unsigned_less[where 'b = 16 and 'a = nat, of p] by simp
  then have "unat p div 256 < 256" by (simp add: div_less_iff_less_mult)
  then have "256 * val (be_port p) 0 + val (be_port p) 1 = unat p"
    by (simp add: be_port_def val_def byte_def)
  then show ?thesis by (simp add: be16_def)
qed

lemma length_be_port [simp]: "length (be_port p) = 2"
  by (simp add: be_port_def)

definition socks5_name_bytes :: "string \<Rightarrow> u16 \<Rightarrow> string" where
  "socks5_name_bytes d p = map byte [5, 1, 0] @ map byte [5, 1, 0, 3, length d] @ d @ be_port p"

lemma socks5_dest_name:
  assumes "length d < 256" "utf8_valid d"
  shows "socks5_dest (map byte [5, 1, 0, 3, length d] @ d @ be_port p @ rest, e)
    = (Some (d, p, (rest, e)), [])"
proof -
  have "rd 4 (map byte [5, 1, 0, 3] @ [byte (length d)] @ d @ be_port p @ rest, e)
      = Some (map byte [5, 1, 0, 3], [byte (length d)] @ d @ be_port p @ rest, e)"
    by (rule rd_app) simp
  moreover have "val (map byte [5, 1, 0, 3]) 0 = 5" "val (map byte [5, 1, 0, 3]) 1 = 1"
    "val (map byte [5, 1, 0, 3]) 3 = 3" by (simp_all add: val_def byte_def)
  moreover have "rd 1 ([byte (length d)] @ d @ be_port p @ rest, e)
      = Some ([byte (length d)], d @ be_port p @ rest, e)" by (rule rd_app) simp
  ultimately show ?thesis
    using assms by (simp add: socks5_dest_def utf8_lossy_valid)
qed

text \<open>Round trip of the SOCKS5 front end: the handshake of a client that offers no
  authentication and asks for a name and a port is parsed to exactly this name and port, answered
  with the method selection only, and the bytes after it stay for the tunnel.\<close>

theorem socks5_name_roundtrip:
  assumes "length d < 256" "utf8_valid d" "cw 0"
  shows "parse_client_request cw None (socks5_name_bytes d p @ rest, e) =
    (Some (\<lparr>rq_scheme = SHttps, rq_frontend = FSocks5, rq_host = d, rq_port = p, rq_raw = [],
       rq_proxy_auth = None, rq_path = d @ '':'' @ show_word p\<rparr>, (rest, e)), map byte [5, 0])"
proof -
  let ?t = "map byte [5, 1, 0, 3, length d] @ d @ be_port p @ rest"
  have b: "socks5_name_bytes d p @ rest = [byte 5] @ [byte 1] @ [byte 0] @ ?t"
    by (simp add: socks5_name_bytes_def)
  have r: "rd 1 ([byte 5] @ [byte 1] @ [byte 0] @ ?t, e) = Some ([byte 5], [byte 1] @ [byte 0] @ ?t, e)"
    "rd 1 ([byte 1] @ [byte 0] @ ?t, e) = Some ([byte 1], [byte 0] @ ?t, e)"
    "rd 1 ([byte 0] @ ?t, e) = Some ([byte 0], ?t, e)"
    by (rule rd_app, simp)+
  show ?thesis unfolding b parse_client_request_def parse_socks5_request_def
    using assms(3) socks5_dest_name[OF assms(1,2), of p rest e]
    by (simp only: r option.case prod.case val_byte) (simp add: r[simplified] socks5_auth_def)
qed

theorem socks5_name_roundtrip_witness:
  "parse_client_request (\<lambda>_. True) None (socks5_name_bytes ''ab.c'' 443 @ ''zz'', REof) =
    (Some (\<lparr>rq_scheme = SHttps, rq_frontend = FSocks5, rq_host = ''ab.c'', rq_port = 443, rq_raw = [],
       rq_proxy_auth = None, rq_path = ''ab.c'' @ '':'' @ show_word (443 :: u16)\<rparr>, (''zz'', REof)), map byte [5, 0])"
  by (rule socks5_name_roundtrip) (simp_all add: str_eval)

text \<open>The converse: the expected user name and password are accepted.\<close>

definition socks5_login :: "auth_expect \<Rightarrow> string" where
  "socks5_login ex = [byte 1, byte (length (ae_user ex))] @ ae_user ex
     @ [byte (length (ae_pass ex))] @ ae_pass ex"

lemma socks5_auth_login:
  assumes "byte 2 \<in> set methods" "cw 0" "cw 1" "length (ae_user ex) < 256" "length (ae_pass ex) < 256"
  shows "socks5_auth cw (Some ex) methods (socks5_login ex @ t, e) = (Some (t, e), map byte [5, 2, 1, 0])"
proof -
  let ?u = "ae_user ex" and ?p = "ae_pass ex"
  have "rd 2 ([byte 1, byte (length ?u)] @ ?u @ [byte (length ?p)] @ ?p @ t, e)
      = Some ([byte 1, byte (length ?u)], ?u @ [byte (length ?p)] @ ?p @ t, e)"
    "rd 1 ([byte (length ?p)] @ ?p @ t, e) = Some ([byte (length ?p)], ?p @ t, e)"
    by (rule rd_app, simp)+
  moreover have "val [byte 1, byte (length ?u)] 1 = length ?u" using assms(4) by (simp add: val_def byte_def)
  ultimately show ?thesis using assms by (simp add: socks5_auth_def socks5_login_def)
qed

definition sample_login :: string where
  "sample_login = [byte 5] @ [byte 1] @ [byte 2] @ socks5_login sample_auth
     @ map byte [5, 1, 0, 3, length ''h''] @ ''h'' @ be_port 80 @ []"

lemma sample_login_parsed:
  "parse_client_request (\<lambda>_. True) (Some sample_auth) (sample_login, REof) =
    (Some (\<lparr>rq_scheme = SHttps, rq_frontend = FSocks5, rq_host = ''h'', rq_port = 80,
       rq_raw = [], rq_proxy_auth = None, rq_path = ''h:'' @ show_word (80 :: u16)\<rparr>, ([], REof)),
     map byte [5, 2, 1, 0])"
proof -
  let ?d = "map byte [5, 1, 0, 3, length ''h''] @ ''h'' @ be_port 80 @ []"
  have "socks5_dest (?d, REof) = (Some (''h'', 80, ([], REof)), [])"
    by (rule socks5_dest_name) (simp_all add: str_eval)
  moreover have "socks5_auth (\<lambda>_. True) (Some sample_auth) [byte 2] (socks5_login sample_auth @ ?d, REof)
      = (Some (?d, REof), map byte [5, 2, 1, 0])"
    by (rule socks5_auth_login) (simp_all add: sample_auth_def)
  moreover have "rd 1 ([byte 5] @ [byte 1] @ [byte 2] @ socks5_login sample_auth @ ?d, REof)
      = Some ([byte 5], [byte 1] @ [byte 2] @ socks5_login sample_auth @ ?d, REof)"
    "rd 1 ([byte 1] @ [byte 2] @ socks5_login sample_auth @ ?d, REof)
      = Some ([byte 1], [byte 2] @ socks5_login sample_auth @ ?d, REof)"
    "rd 1 ([byte 2] @ socks5_login sample_auth @ ?d, REof) = Some ([byte 2], socks5_login sample_auth @ ?d, REof)"
    by (rule rd_app, simp)+
  ultimately show ?thesis
    by (simp only: sample_login_def parse_client_request_def parse_socks5_request_def option.case prod.case) simp
qed

theorem socks5_authenticated_witness:
  "\<exists>methods v ul pl rest. sample_login = [byte 5, byte (length methods)] @ methods
      @ [v, ul] @ ae_user sample_auth @ [pl] @ ae_pass sample_auth @ rest
    \<and> byte 2 \<in> set methods \<and> of_char ul = length (ae_user sample_auth)
    \<and> of_char pl = length (ae_pass sample_auth)"
  by (rule socks5_authenticated[OF sample_login_parsed]) simp

section \<open>HTTP\<close>

lemma http_head_loop_Some:
  "http_head_loop buf bs = Some (head, rest) \<Longrightarrow> buf @ bs = head @ rest
     \<and> (ends_with (crlf @ crlf) head \<or> 65536 < length head)"
proof (induction bs arbitrary: buf)
  case (Cons b bs)
  then show ?case using Cons.IH[of "buf @ [b]"] by (auto simp: Let_def split: if_splits)
qed simp

lemma http_head_loop_bound:
  "http_head_loop buf bs = Some (head, rest) \<Longrightarrow> length buf \<le> 65536 \<Longrightarrow> length head \<le> 65537"
proof (induction bs arbitrary: buf)
  case (Cons b bs)
  then show ?case using Cons.IH[of "buf @ [b]"] by (auto simp: Let_def not_less split: if_splits)
qed simp

lemma parse_http_raw: "parse_http_request buf = Some rq \<Longrightarrow>
    rq_proxy_auth rq = header_value buf ''Proxy-Authorization''
    \<and> (rq_frontend rq = HttpForward \<and> rq_scheme rq = SHttp \<and> rq_raw rq = buf
       \<or> rq_frontend rq = HttpConnect \<and> rq_scheme rq = SHttps \<and> rq_raw rq = [])"
  by (auto simp: parse_http_request_def Let_def split: list.splits if_splits prod.splits option.splits)

lemma parse_socks5_frontend: "parse_socks5_request cw want i1 = (Some (rq, i), w) \<Longrightarrow> rq_frontend rq = FSocks5"
  by (auto simp: parse_socks5_request_def split: option.splits prod.splits)

lemma parse_http_silent:
  assumes "parse_client_request cw want inp = (Some (rq, i), w)" "rq_frontend rq \<noteq> FSocks5"
  shows "w = []"
  using assms
  by (auto simp: parse_client_request_def dest: parse_socks5_frontend split: option.splits if_splits)

text \<open>A forward request is buffered byte for byte: its raw bytes are a prefix of what the client
  sent, at most 65537 bytes, and the rest is still to be read; a tunnel request has none.\<close>

theorem parse_keeps_bytes:
  assumes "parse_client_request cw want (bs, e) = (Some (rq, i), w)" "rq_frontend rq \<noteq> FSocks5"
  shows "w = [] \<and> (\<exists>head rest. bs = head @ rest \<and> i = (rest, e) \<and> length head \<le> 65537
    \<and> (ends_with (crlf @ crlf) head \<or> length head = 65537)
    \<and> rq_proxy_auth rq = header_value head ''Proxy-Authorization''
    \<and> rq_raw rq = (if rq_frontend rq = HttpForward then head else []))"
proof -
  obtain f b1 where f: "rd 1 (bs, e) = Some (f, b1, e)" "val f 0 \<noteq> 5"
  proof -
    obtain f b1 where r: "rd 1 (bs, e) = Some (f, b1, e)"
      using assms(1) by (cases "rd 1 (bs, e)") (auto simp: parse_client_request_def rd_Some)
    moreover have "val f 0 \<noteq> 5" using assms parse_socks5_frontend[of cw want "(b1, e)" rq i w] r by (auto simp: parse_client_request_def)
    ultimately show thesis using that by blast
  qed
  then obtain head rest where h: "http_head_loop f b1 = Some (head, rest)" "parse_http_request head = Some rq"
    "i = (rest, e)" "w = []"
    using assms(1) by (auto simp: parse_client_request_def split: option.splits if_splits)
  have f1: "length f \<le> 65536" using f by (auto simp: rd_Some)
  have "bs = head @ rest" using http_head_loop_Some[OF h(1)] f by (auto simp: rd_Some)
  moreover have "length head \<le> 65537" using http_head_loop_bound[OF h(1) f1] .
  moreover have "ends_with (crlf @ crlf) head \<or> length head = 65537"
    using http_head_loop_Some[OF h(1)] http_head_loop_bound[OF h(1) f1] by linarith
  ultimately show ?thesis using h parse_http_raw[OF h(2)] by (auto split: if_splits)
qed

definition sample_get_head :: string where
  "sample_get_head = ''GET http://h/x HTTP/1.1'' @ crlf @ crlf"

definition sample_get_request :: client_request where
  "sample_get_request = \<lparr>rq_scheme = SHttp, rq_frontend = HttpForward, rq_host = ''h'', rq_port = 80,
     rq_raw = sample_get_head, rq_proxy_auth = None, rq_path = ''http://h/x''\<rparr>"

lemma sample_get_ascii: "ascii sample_get_head"
  by (simp add: sample_get_head_def ascii_def str_eval)

lemma sample_get_lines: "lines (utf8_lossy sample_get_head) = [''GET http://h/x HTTP/1.1'', []]"
  unfolding utf8_lossy_ascii[OF sample_get_ascii] by (simp add: sample_get_head_def str_eval)

lemma sample_get_no_header: "header_prefix n \<noteq> [] \<Longrightarrow> header_value sample_get_head n = None"
  unfolding header_value_def sample_get_lines by (simp add: starts_with_def lowercase_def)

lemma sample_get_parsed:
  "parse_client_request cw want (sample_get_head @ rest, e) = (Some (sample_get_request, (rest, e)), [])"
proof -
  have "rd 1 (sample_get_head @ rest, e) = Some (''G'', drop 1 sample_get_head @ rest, e)"
    by (simp add: sample_get_head_def rd_def read_exact_def)
  moreover have "http_head_loop ''G'' (drop 1 sample_get_head @ rest) = Some (sample_get_head, rest)"
    by (simp add: sample_get_head_def str_eval)
  moreover have "parse_http_request sample_get_head = Some sample_get_request"
    using sample_get_no_header[of "''Proxy-Authorization''"]
    unfolding parse_http_request_def sample_get_lines
    by (simp add: sample_get_request_def split_host_port_def header_prefix_def str_eval)
  ultimately show ?thesis by (simp add: parse_client_request_def val_def)
qed

theorem parse_keeps_bytes_witness:
  "[] = ([] :: string) \<and> (\<exists>head rest. sample_get_head @ ''xy'' = head @ rest \<and> (''xy'', REof) = (rest, REof)
    \<and> length head \<le> 65537 \<and> (ends_with (crlf @ crlf) head \<or> length head = 65537)
    \<and> rq_proxy_auth sample_get_request = header_value head ''Proxy-Authorization''
    \<and> rq_raw sample_get_request = (if rq_frontend sample_get_request = HttpForward then head else []))"
  by (rule parse_keeps_bytes[OF sample_get_parsed]) (simp add: sample_get_request_def)

end
