(* ===== verification/Server.thy ===== *)
theory Server
  imports Pool_Spec Client_Request "HOL-Library.AList"
begin

text \<open>
  The rotating server of \<^verbatim>\<open>src/src/server.rs\<close>: relaying one request through one proxy, the control
  interface and its history, and the handler of a client connection with its retry loop.

  One relay attempt sees a \<open>conn\<close>: the network of the negotiation, whether the writes after it
  succeed, and the bidirectional copy of \<^verbatim>\<open>tokio\<close> as a function of what both sides have left to
  send. A failed write delivers nothing. The relay returns its outcome with the bytes that reached
  the client and those that were written upstream.
\<close>

section \<open>Relaying\<close>

datatype relay_outcome = RelayOk | RetryableFailure proxy_error | ClientCommitted proxy_error | ClientGone

record splice_res =
  sp_ok :: bool
  sp_client :: string
  sp_up :: string

record conn =
  c_net :: net
  c_up_write :: bool
  c_client_write :: bool
  c_splice :: "input \<Rightarrow> input \<Rightarrow> splice_res"

record relay_res =
  ro_outcome :: relay_outcome
  ro_client :: string
  ro_up :: string

definition relay_stop :: "relay_outcome \<Rightarrow> string \<Rightarrow> relay_res" where
  "relay_stop oc up = \<lparr>ro_outcome = oc, ro_client = [], ro_up = up\<rparr>"

fun read_status_loop :: "string \<Rightarrow> string \<Rightarrow> rend \<Rightarrow> (proxy_error + string) \<times> input" where
  "read_status_loop head [] e =
     (Inl (case e of RErr \<Rightarrow> Reset | REof \<Rightarrow> EmptyRecv | RStall \<Rightarrow> Timeout), ([], e))"
| "read_status_loop head (b # bs) e =
     (let head' = head @ [b]
      in if ends_with [LF] head' \<or> 256 \<le> length head' then (Inr head', (bs, e))
         else read_status_loop head' bs e)"

definition read_status_line :: "input \<Rightarrow> (proxy_error + string) \<times> input" where
  "read_status_line i = (case i of (bs, e) \<Rightarrow> read_status_loop [] bs e)"

definition proxy_label :: "proxy \<Rightarrow> string" where
  "proxy_label p = show_ip (p_host p) @ '':'' @ show_word (p_port p)"

definition connect_ack :: "proxy \<Rightarrow> string" where
  "connect_ack p = ''HTTP/1.1 200 Connection established'' @ crlf @ ''X-Proxy-Info: '' @ proxy_label p @ crlf @ crlf"

text \<open>The splice that ends every successful set-up; \<open>sent\<close> and \<open>up\<close> are what went out before.\<close>

definition splice :: "conn \<Rightarrow> input \<Rightarrow> input \<Rightarrow> string \<Rightarrow> string \<Rightarrow> relay_res" where
  "splice c ci ui sent up =
     (let r = c_splice c ci ui
      in \<lparr>ro_outcome = (if sp_ok r then RelayOk else ClientCommitted ErrorOnStream),
          ro_client = sent @ sp_client r, ro_up = up @ sp_up r\<rparr>)"

text \<open>The branch of a plain forward request.\<close>

definition relay_forward :: "conn \<Rightarrow> proxy \<Rightarrow> client_request \<Rightarrow> input \<Rightarrow> input \<Rightarrow> nat list option
    \<Rightarrow> string \<Rightarrow> relay_res" where
  "relay_forward c p rq ci ui codes w =
     (let up = w @ forward_head (p_auth p) (rq_raw rq)
      in if \<not> c_up_write c then relay_stop (RetryableFailure Reset) w
         else if request_has_body (rq_raw rq) then splice c ci ui [] up
         else
           (case read_status_line ui of
              (Inl e, _) \<Rightarrow> relay_stop (RetryableFailure e) up
            | (Inr line, ui') \<Rightarrow>
                let code = parse_http_status line
                in if (case codes of Some allowed \<Rightarrow> code \<notin> set allowed | None \<Rightarrow> False)
                   then relay_stop (RetryableFailure (DisallowedStatus (of_nat code))) up
                   else if \<not> c_client_write c then relay_stop ClientGone up
                   else splice c ci ui' (inject_header line (''X-Proxy-Info: '' @ proxy_label p @ crlf)) up))"

definition relay :: "conn \<Rightarrow> proxy \<Rightarrow> proto \<Rightarrow> target \<Rightarrow> client_request \<Rightarrow> input \<Rightarrow> nat list option
    \<Rightarrow> relay_res" where
  "relay c p pr t rq ci codes =
     (case n_dial (c_net c) of
        DialTimeout \<Rightarrow> relay_stop (RetryableFailure Timeout) []
      | DialRefused \<Rightarrow> relay_stop (RetryableFailure ConnFailed) []
      | Dialed \<Rightarrow>
         (case negotiate (c_net c) (relay_negotiation_proto pr (rq_frontend rq)) t (p_auth p) (n_in (c_net c)) of
            (Inl e, w) \<Rightarrow> relay_stop (RetryableFailure e) w
          | (Inr s, w) \<Rightarrow>
              (case rq_frontend rq of
                 HttpConnect \<Rightarrow>
                   if \<not> c_client_write c then relay_stop ClientGone w
                   else splice c ci (stream_in s) (connect_ack p) w
               | FSocks5 \<Rightarrow>
                   if \<not> c_client_write c then relay_stop ClientGone w
                   else splice c ci (stream_in s) (socks_reply 0) w
               | HttpForward \<Rightarrow> relay_forward c p rq ci (stream_in s) codes w)))"

section \<open>The control interface\<close>

type_synonym history = "(string \<times> string) list"

definition history_cap :: nat where
  "history_cap = 10000"

definition history_record :: "string \<Rightarrow> string \<Rightarrow> history \<Rightarrow> history" where
  "history_record key p h =
     (let m = (if history_cap \<le> length h \<and> map_of h key = None then [] else h) in AList.update key p m)"

definition history_get :: "string \<Rightarrow> history \<Rightarrow> string option" where
  "history_get key h = map_of h key"

definition no_content :: string where
  "no_content = ''HTTP/1.1 204 No Content'' @ crlf @ crlf"

definition history_reply :: "string \<Rightarrow> string" where
  "history_reply p =
     (let body = ''{'' @ [CHR 0x22] @ ''proxy'' @ [CHR 0x22] @ '': '' @ [CHR 0x22] @ p @ [CHR 0x22] @ ''}'' @ crlf
      in ''HTTP/1.1 200 OK'' @ crlf @ ''Content-Type: application/json'' @ crlf
         @ ''Content-Length: '' @ show_nat (length body) @ crlf @ ''Access-Control-Allow-Origin: *'' @ crlf
         @ ''Access-Control-Allow-Credentials: true'' @ crlf @ crlf @ body)"

definition history_key :: "ip_addr \<Rightarrow> string \<Rightarrow> string" where
  "history_key peer path = show_ip peer @ ''-'' @ path"

definition serve_control :: "client_request \<Rightarrow> ip_addr \<Rightarrow> history \<Rightarrow> pool \<Rightarrow> string \<times> pool" where
  "serve_control rq peer h pl =
     (let path = (case strip_prefix ''http://proxycontrol'' (rq_path rq) of Some r \<Rightarrow> r | None \<Rightarrow> rq_path rq);
          rest = trim_start ((=) (CHR ''/'')) path
      in case splitn 3 (CHR ''/'') rest of
           [_, op, params] \<Rightarrow>
             if op = ''remove'' then
               (let (hst, prt) = split_host_port params 0
                in case parse_ip hst of
                     Some ip \<Rightarrow> (no_content, snd (pool_remove (ip, prt) pl))
                   | None \<Rightarrow> (no_content, pl))
             else if op = ''history'' then
               (let url = (case strip_prefix ''url:'' params of Some u \<Rightarrow> u | None \<Rightarrow> [])
                in case history_get (history_key peer url) h of
                     Some p \<Rightarrow> (history_reply p, pl)
                   | None \<Rightarrow> (no_content, pl))
             else (no_content, pl)
         | _ \<Rightarrow> (no_content, pl))"

section \<open>The handler of a connection\<close>

definition terminal_failure :: "frontend \<Rightarrow> string" where
  "terminal_failure fe =
     (case fe of FSocks5 \<Rightarrow> socks_reply 1 | _ \<Rightarrow> ''HTTP/1.1 502 Bad Gateway'' @ crlf @ crlf)"

definition auth_required :: string where
  "auth_required = ''HTTP/1.1 407 Proxy Authentication Required'' @ crlf
     @ ''Proxy-Authenticate: Basic realm='' @ [CHR 0x22] @ ''proxybroker'' @ [CHR 0x22] @ crlf @ crlf"

definition client_key_of :: "pool_config \<Rightarrow> ip_addr \<Rightarrow> client_request \<Rightarrow> client_key" where
  "client_key_of cfg peer rq =
     (if rq_scheme rq = SHttp then
        (case sticky_header cfg of
           Some name \<Rightarrow> (case header_value (rq_raw rq) name of Some v \<Rightarrow> KeyHeader v | None \<Rightarrow> KeyIp peer)
         | None \<Rightarrow> KeyIp peer)
      else KeyIp peer)"

definition verify_live :: "pool_config \<Rightarrow> net \<Rightarrow> proxy \<Rightarrow> bool" where
  "verify_live cfg net p =
     (case verify_target cfg of (host, port) \<Rightarrow>
        probe_tunnel net \<lparr>t_host = host, t_ip = None, t_port = port\<rparr> (p_auth p))"

text \<open>What a connection meets outside: clocks, networks and the resolver, per attempt (and per
  probe of the attempt).\<close>

record outside =
  o_cw :: "nat \<Rightarrow> bool"
  o_resolve :: "string \<Rightarrow> ip_addr option"
  o_clk :: "nat \<Rightarrow> nat \<Rightarrow> instant"
  o_probe :: "nat \<Rightarrow> nat \<Rightarrow> proxy \<Rightarrow> net"
  o_now :: "nat \<Rightarrow> instant"
  o_conn :: "nat \<Rightarrow> proxy \<Rightarrow> conn"

record handled =
  h_pool :: pool
  h_history :: history
  h_out :: string
  h_waiting :: bool

definition answered :: "pool \<Rightarrow> history \<Rightarrow> string \<Rightarrow> handled" where
  "answered pl h out = \<lparr>h_pool = pl, h_history = h, h_out = out, h_waiting = False\<rparr>"

text \<open>The retry loop: \<open>a\<close> attempts were made, the second argument is how many are left. The
  statistics of an attempt are recorded on the leased proxy before it goes back.\<close>

fun serve_attempts :: "outside \<Rightarrow> client_request \<Rightarrow> input \<Rightarrow> target \<Rightarrow> client_key \<Rightarrow> ip_addr \<Rightarrow> nat
    \<Rightarrow> nat \<Rightarrow> pool \<Rightarrow> history \<Rightarrow> handled" where
  "serve_attempts ow rq ci t key peer a 0 pl h = answered pl h (terminal_failure (rq_frontend rq))"
| "serve_attempts ow rq ci t key peer a (Suc r) pl h =
     (case get (o_clk ow a) (\<lambda>n p. verify_live (config pl) (o_probe ow a n p) p) quiet (rq_scheme rq) key pl of
        (NoProxies, pl1) \<Rightarrow> answered pl1 h (terminal_failure (rq_frontend rq))
      | (Waiting _, pl1) \<Rightarrow> \<lparr>h_pool = pl1, h_history = h, h_out = [], h_waiting = True\<rparr>
      | (Leased p, pl1) \<Rightarrow>
         (let pl2 = (if 0 < a then pl1\<lparr>rotations := rotations pl1 + 1\<rparr> else pl1);
              rl = relay (o_conn ow a p) p (choose_proto p (rq_scheme rq)) t rq ci
                     (http_allowed_codes (config pl))
          in case ro_outcome rl of
               RelayOk \<Rightarrow>
                 answered (put_ok (record_attempt (Some 0) None p) pl2)
                   (history_record (history_key peer (rq_path rq)) (proxy_label p) h) (ro_client rl)
             | RetryableFailure e \<Rightarrow>
                 serve_attempts ow rq ci t key peer (a + 1) r
                   (put_failed (o_now ow a) (record_attempt None (Some e) p) pl2) h
             | ClientCommitted e \<Rightarrow>
                 answered (put_failed (o_now ow a) (record_attempt None (Some e) p) pl2) h (ro_client rl)
             | ClientGone \<Rightarrow>
                 answered (put_ok (record_attempt (Some 0) None p) pl2) h (ro_client rl)))"

definition auth_ok :: "auth_expect option \<Rightarrow> client_request \<Rightarrow> bool" where
  "auth_ok want rq \<longleftrightarrow>
     rq_frontend rq = FSocks5 \<or>
     (case want of None \<Rightarrow> True | Some ex \<Rightarrow> rq_proxy_auth rq = Some (ae_basic ex))"

definition handle_client :: "outside \<Rightarrow> auth_expect option \<Rightarrow> ip_addr \<Rightarrow> input \<Rightarrow> pool \<Rightarrow> history
    \<Rightarrow> handled" where
  "handle_client ow want peer inp pl h =
     (case parse_client_request (o_cw ow) want inp of
        (None, w) \<Rightarrow> answered pl h w
      | (Some (rq, ci), w) \<Rightarrow>
         if \<not> auth_ok want rq then answered pl h (w @ auth_required)
         else if rq_host rq = ''proxycontrol'' then
           (case serve_control rq peer h pl of (out, pl') \<Rightarrow> answered pl' h (w @ out))
         else
           (let key = client_key_of (config pl) peer rq;
                t = \<lparr>t_host = rq_host rq, t_ip = o_resolve ow (rq_host rq), t_port = rq_port rq\<rparr>;
                r = serve_attempts ow rq ci t key peer 0 (max_tries (config pl)) pl h
            in r\<lparr>h_out := w @ h_out r\<rparr>))"

section \<open>Facts about a relay\<close>

lemma relay_stop_simps [simp]:
  "ro_outcome (relay_stop oc up) = oc" "ro_client (relay_stop oc up) = []" "ro_up (relay_stop oc up) = up"
  by (simp_all add: relay_stop_def)

lemma splice_simps [simp]:
  "ro_outcome (splice c ci ui sent up) = (if sp_ok (c_splice c ci ui) then RelayOk else ClientCommitted ErrorOnStream)"
  "ro_client (splice c ci ui sent up) = sent @ sp_client (c_splice c ci ui)"
  "ro_up (splice c ci ui sent up) = up @ sp_up (c_splice c ci ui)"
  by (simp_all add: splice_def Let_def)

definition sample_conn :: "string \<Rightarrow> conn" where
  "sample_conn bs = \<lparr>c_net = sample_net bs, c_up_write = True, c_client_write = True,
     c_splice = (\<lambda>ci ui. \<lparr>sp_ok = True, sp_client = fst ui, sp_up = fst ci\<rparr>)\<rparr>"

text \<open>C21. The commit boundary of the retry loop: an attempt that is retried has sent nothing to the
  client, whatever the network did and for every front end.\<close>

theorem relay_retry_clean:
  assumes "ro_outcome (relay c p pr t rq ci codes) = RetryableFailure e"
  shows "ro_client (relay c p pr t rq ci codes) = []"
  using assms
  by (auto simp: relay_def relay_forward_def Let_def
      split: dial_res.splits sum.splits prod.splits frontend.splits if_splits)

theorem relay_retry_clean_witness:
  "ro_client (relay \<lparr>c_net = (sample_net [])\<lparr>n_dial := DialRefused\<rparr>, c_up_write = True, c_client_write = True,
      c_splice = (\<lambda>_ _. \<lparr>sp_ok = True, sp_client = ''x'', sp_up = []\<rparr>)\<rparr>
     (sample_proxy 1) Http sample_target sample_get_request ([], REof) None) = []"
  by (rule relay_retry_clean[where e = ConnFailed]) (simp add: relay_def sample_net_def)

lemma relay_forward_up: "ro_up (relay_forward c p rq ci ui codes w) = w
    \<or> (\<exists>s. ro_up (relay_forward c p rq ci ui codes w) = w @ forward_head (p_auth p) (rq_raw rq) @ s)"
  by (auto simp: relay_forward_def Let_def split: sum.splits prod.splits if_splits)




lemma sample_relay:
  "ro_client (relay (sample_conn (''HTTP/1.1 200 OK'' @ crlf @ ''B'')) (sample_proxy 1) Http sample_target
     sample_get_request ([], REof) (Some [200])) \<noteq> []"
proof -
  have "read_status_line (''HTTP/1.1 200 OK'' @ crlf @ ''B'', REof) = (Inr (''HTTP/1.1 200 OK'' @ crlf), (''B'', REof))"
    by (simp add: read_status_line_def str_eval)
  moreover have "parse_http_status (''HTTP/1.1 200 OK'' @ crlf) = 200"
    by (simp add: parse_http_status_def str_eval)
  moreover have "\<not> request_has_body sample_get_head"
    by (simp add: request_has_body_def sample_get_no_header header_prefix_def)
  ultimately show ?thesis
    by (simp add: relay_def relay_negotiation_proto_def negotiate_def sample_conn_def sample_net_def
        sample_get_request_def relay_forward_def inject_header_def find_sub_here str_eval Let_def)
qed


section \<open>Facts about the handler\<close>

lemma lease_return_balanced:
  assumes "lease_outcome pl (Leased p, pl1)" "held pl2 = held pl1" "evictions pl2 = evictions pl1"
    "p_addr q = p_addr p"
  shows "lp.balanced pl (lease_give f q pl2)"
proof -
  obtain gone where g: "held pl = add_mset (p_addr p) (held pl1) + gone"
    "evictions pl1 = evictions pl + of_nat (size gone)"
    using assms(1) by (auto simp: lease_outcome_def)
  show ?thesis
  proof (cases "unhealthy (config pl2) q")
    case True
    with g assms show ?thesis unfolding lp.balanced_def
      by (intro exI[of _ "add_mset (p_addr p) gone"]) simp
  next
    case False
    with g assms show ?thesis unfolding lp.balanced_def by (intro exI[of _ gone]) simp
  qed
qed

lemma record_attempt_addr [simp]: "p_addr (record_attempt rt err p) = p_addr p"
  by simp

lemma serve_attempts_balanced: "lp.balanced pl (h_pool (serve_attempts ow rq ci t key peer a r pl h))"
proof (induction r arbitrary: a pl h)
  case 0
  then show ?case by (simp add: answered_def lp.balanced_refl)
next
  case (Suc r)
  obtain l pl1 where g: "get (o_clk ow a) (\<lambda>n p. verify_live (config pl) (o_probe ow a n p) p) quiet
      (rq_scheme rq) key pl = (l, pl1)"
    by (cases "get (o_clk ow a) (\<lambda>n p. verify_live (config pl) (o_probe ow a n p) p) quiet (rq_scheme rq) key pl")
  then have o: "lease_outcome pl (l, pl1)"
    using get_loop_outcome[of pl "o_clk ow a" "\<lambda>n p. verify_live (config pl) (o_probe ow a n p) p"
        "rq_scheme rq" key 0] by (simp add: get_def)
  show ?case
  proof (cases l)
    case (Leased p)
    let ?pl2 = "if 0 < a then pl1\<lparr>rotations := rotations pl1 + 1\<rparr> else pl1"
    have b: "lp.balanced pl (put_ok (record_attempt (Some 0) None p) ?pl2)"
      "lp.balanced pl (put_failed now (record_attempt None (Some e) p) ?pl2)" for now e
      using lease_return_balanced[OF o[unfolded Leased], of ?pl2 "record_attempt (Some 0) None p" None]
        lease_return_balanced[OF o[unfolded Leased], of ?pl2 "record_attempt None (Some e) p" "Some now"]
      by (simp_all add: lease_give_def)
    show ?thesis
      using Leased g b lp.balanced_trans[OF b(2) Suc.IH]
      by (auto simp: Let_def answered_def split: relay_outcome.split)
  qed (use g o in \<open>auto simp: lease_outcome_def answered_def\<close>)
qed

text \<open>Serving a client request keeps the pool's books: whatever happens on the network and
  however many proxies are tried, every proxy that was pooled before is pooled after, or was evicted
  and counted.\<close>

theorem serve_conserves:
  "\<exists>gone. held pl = held (h_pool (serve_attempts ow rq ci t key peer a r pl h)) + gone
     \<and> evictions (h_pool (serve_attempts ow rq ci t key peer a r pl h)) = evictions pl + of_nat (size gone)"
  using serve_attempts_balanced by (auto simp: lp.balanced_def)

lemma serve_attempts_out:
  "h_out (serve_attempts ow rq ci t key peer a r pl h) \<in> {[], terminal_failure (rq_frontend rq)}
   \<or> (\<exists>k p codes. a \<le> k \<and> k < a + r \<and> h_out (serve_attempts ow rq ci t key peer a r pl h)
        = ro_client (relay (o_conn ow k p) p (choose_proto p (rq_scheme rq)) t rq ci codes))"
proof (induction r arbitrary: a pl h)
  case 0
  then show ?case by (simp add: answered_def)
next
  case (Suc r)
  obtain l pl1 where g: "get (o_clk ow a) (\<lambda>n p. verify_live (config pl) (o_probe ow a n p) p) quiet
      (rq_scheme rq) key pl = (l, pl1)"
    by (cases "get (o_clk ow a) (\<lambda>n p. verify_live (config pl) (o_probe ow a n p) p) quiet (rq_scheme rq) key pl")
  show ?case
  proof (cases l)
    case (Leased p)
    let ?rl = "relay (o_conn ow a p) p (choose_proto p (rq_scheme rq)) t rq ci (http_allowed_codes (config pl))"
    define P where "P out \<longleftrightarrow> out \<in> {[], terminal_failure (rq_frontend rq)}
       \<or> (\<exists>k p codes. a \<le> k \<and> k < a + Suc r \<and> out
            = ro_client (relay (o_conn ow k p) p (choose_proto p (rq_scheme rq)) t rq ci codes))" for out
    have here: "P (h_out (answered pl' h' (ro_client ?rl)))" for pl' h'
      unfolding P_def by (intro disjI2 exI[of _ a] exI[of _ p] exI[of _ "http_allowed_codes (config pl)"])
        (simp add: answered_def)
    have later: "P (h_out (serve_attempts ow rq ci t key peer (a + 1) r pl' h))" for pl'
      using Suc.IH[of "a + 1" pl' h] unfolding P_def by (metis Suc_eq_plus1 Suc_leD add_Suc_shift)
    have "P (h_out (serve_attempts ow rq ci t key peer a (Suc r) pl h))"
      unfolding serve_attempts.simps g Leased Let_def prod.case lease.case
      by (cases "ro_outcome ?rl") (simp_all only: relay_outcome.case here later)
    then show ?thesis unfolding P_def .
  qed (use g in \<open>auto simp: answered_def\<close>)
qed

text \<open>A client never sees two attempts mixed: what it is sent is what one single relay attempt
  (of the at most \<open>max_tries\<close> ones) sent, or the failure reply of its own protocol, or nothing.\<close>

theorem client_sees_one_attempt:
  "h_out (serve_attempts ow rq ci t key peer 0 tries pl h) \<in> {[], terminal_failure (rq_frontend rq)}
   \<or> (\<exists>k p codes. k < tries \<and> h_out (serve_attempts ow rq ci t key peer 0 tries pl h)
        = ro_client (relay (o_conn ow k p) p (choose_proto p (rq_scheme rq)) t rq ci codes))"
  using serve_attempts_out[of ow rq ci t key peer 0 tries pl h] by auto

lemma get_rotations: "rotations (snd (get clk live quiet sc key pl)) = rotations pl"
proof -
  have "rotations (snd (get_loop clk live quiet sc key n pl)) = rotations pl" for n
  proof (induction clk live "quiet" sc key n pl rule: get_loop.induct)
    case (1 clk live sc key n pl)
    obtain r pl1 where t: "try_select (clk n) sc key pl = (r, pl1)" by (cases "try_select (clk n) sc key pl")
    have "rotations pl1 = rotations pl" using try_select_simps(4)[of "clk n" sc key pl] t by simp
    moreover have "rotations (put_failed (clk n) p pl1) = rotations pl1" for p by (simp add: put_failed_def)
    moreover obtain r2 pl2 where t2: "try_select (clk n) sc key pl1 = (r2, pl2)"
      by (cases "try_select (clk n) sc key pl1")
    moreover have "rotations pl2 = rotations pl1" using try_select_simps(4)[of "clk n" sc key pl1] t2 by simp
    ultimately show ?case using 1[OF t[symmetric]] t
      by (subst get_loop.simps) (auto simp: quiet_def Let_def split: option.splits prod.splits)
  qed
  then show ?thesis by (simp add: get_def)
qed

lemma serve_rotations:
  "\<exists>k \<le> (if a = 0 then r - 1 else r).
     rotations (h_pool (serve_attempts ow rq ci t key peer a r pl h)) = rotations pl + of_nat k"
proof (induction r arbitrary: a pl h)
  case 0
  then show ?case by (simp add: answered_def)
next
  case (Suc r)
  obtain l pl1 where g: "get (o_clk ow a) (\<lambda>n p. verify_live (config pl) (o_probe ow a n p) p) quiet
      (rq_scheme rq) key pl = (l, pl1)"
    by (cases "get (o_clk ow a) (\<lambda>n p. verify_live (config pl) (o_probe ow a n p) p) quiet (rq_scheme rq) key pl")
  then have r1: "rotations pl1 = rotations pl"
    using get_rotations[of "o_clk ow a" "\<lambda>n p. verify_live (config pl) (o_probe ow a n p) p"
        "rq_scheme rq" key pl] by simp
  show ?case
  proof (cases l)
    case (Leased p)
    define one where "one = (if 0 < a then 1 else 0 :: nat)"
    let ?pl2 = "if 0 < a then pl1\<lparr>rotations := rotations pl1 + 1\<rparr> else pl1"
    have r2: "rotations (put_ok q ?pl2) = rotations pl + of_nat one"
      "rotations (put_failed now q ?pl2) = rotations pl + of_nat one" for q now
      using r1 by (simp_all add: put_ok_def put_failed_def one_def)
    let ?P = "\<lambda>hd. \<exists>k \<le> (if a = 0 then Suc r - 1 else Suc r). rotations (h_pool hd) = rotations pl + of_nat k"
    have here: "?P (answered (put_ok q ?pl2) h' out)" "?P (answered (put_failed now q ?pl2) h' out)" for q now h' out
      by (rule exI[of _ one], simp add: answered_def r2, simp add: one_def)+
    have later: "?P (serve_attempts ow rq ci t key peer (a + 1) r (put_failed now q ?pl2) h)" for now q
    proof -
      from Suc.IH[of "a + 1" "put_failed now q ?pl2" h] obtain k where "k \<le> r"
        "rotations (h_pool (serve_attempts ow rq ci t key peer (a + 1) r (put_failed now q ?pl2) h))
          = rotations pl + of_nat one + of_nat k" unfolding r2 by auto
      then show ?thesis by (intro exI[of _ "one + k"]) (auto simp: one_def)
    qed
    show ?thesis using Leased g here later by (auto simp: Let_def split: relay_outcome.split)
  qed (use g r1 in \<open>auto simp: answered_def\<close>)
qed

text \<open>A request counts at most \<open>max_tries - 1\<close> rotations.\<close>

theorem rotations_bounded:
  "\<exists>k \<le> tries - 1. rotations (h_pool (serve_attempts ow rq ci t key peer 0 tries pl h)) = rotations pl + of_nat k"
  using serve_rotations[of 0 tries ow rq ci t key peer pl h] by simp

text \<open>C23. Authentication: on a server with credentials a client whose HTTP request does not carry
  exactly the header for them is answered 407 and touches neither the pool nor the history, also when
  it asks for the control interface.\<close>

theorem unauthenticated_rejected:
  assumes "parse_client_request (o_cw ow) (Some (auth_expect_of up)) inp = (Some (rq, ci), w)"
    and "rq_frontend rq \<noteq> FSocks5" "rq_proxy_auth rq \<noteq> Some (''Basic '' @ base64_encode up)"
  shows "handle_client ow (Some (auth_expect_of up)) peer inp pl h
    = \<lparr>h_pool = pl, h_history = h, h_out = auth_required, h_waiting = False\<rparr>"
proof -
  have "w = []" using parse_http_silent[OF assms(1,2)] .
  then show ?thesis
    using assms by (simp add: handle_client_def auth_ok_def auth_expect_of_def answered_def split: prod.splits)
qed

definition sample_outside :: outside where
  "sample_outside = \<lparr>o_cw = (\<lambda>_. True), o_resolve = (\<lambda>_. None), o_clk = (\<lambda>_ _. 0),
     o_probe = (\<lambda>_ _ _. sample_net []), o_now = (\<lambda>_. 0), o_conn = (\<lambda>_ _. sample_conn [])\<rparr>"

theorem unauthenticated_rejected_witness:
  "handle_client sample_outside (Some (auth_expect_of ''u:pw'')) (V4 9 9 9 9) (sample_get_head @ [], REof)
     (sample_pool Best) [] = \<lparr>h_pool = sample_pool Best, h_history = [], h_out = auth_required, h_waiting = False\<rparr>"
proof -
  have "parse_client_request (o_cw sample_outside) (Some (auth_expect_of ''u:pw'')) (sample_get_head @ [], REof)
      = (Some (sample_get_request, ([], REof)), [])" by (rule sample_get_parsed)
  moreover have "rq_frontend sample_get_request \<noteq> FSocks5"
    "rq_proxy_auth sample_get_request \<noteq> Some (''Basic '' @ base64_encode ''u:pw'')"
    by (simp_all add: sample_get_request_def)
  ultimately show ?thesis by (rule unauthenticated_rejected)
qed

section \<open>Facts about the control interface\<close>

lemma length_update: "length (AList.update k v h) = (if map_of h k = None then Suc (length h) else length h)"
  by (induction h) auto

text \<open>The history of the control interface never exceeds its cap and always returns what was
  recorded last for a key; recording for one key changes the answer for another at most to
  \<open>nothing known\<close>.\<close>

theorem history_bounded:
  assumes "length h \<le> history_cap"
  shows "length (history_record k v h) \<le> history_cap \<and> history_get k (history_record k v h) = Some v
    \<and> (k' \<noteq> k \<longrightarrow> history_get k' (history_record k v h) \<in> {None, history_get k' h})"
  using assms by (auto simp: history_record_def history_get_def history_cap_def length_update update_conv' Let_def)

theorem history_bounded_witness:
  "length (history_record ''a'' ''p'' []) \<le> history_cap \<and> history_get ''a'' (history_record ''a'' ''p'' []) = Some ''p''
    \<and> (''b'' \<noteq> ''a'' \<longrightarrow> history_get ''b'' (history_record ''a'' ''p'' []) \<in> {None, history_get ''b'' []})"
  by (rule history_bounded) simp

lemma control_parts:
  "splitn 3 (CHR ''/'') (trim_start ((=) (CHR ''/'')) (''/api/remove/'' @ s)) = [''api'', ''remove'', s]"
  by (simp add: numeral_3_eq_3 trim_start_def split_once_def starts_with_def)

text \<open>A control request to remove a printed IPv4 address and port is answered 204 and leaves no
  proxy at this address in the pool; the other addresses stay.\<close>

theorem control_remove:
  assumes "rq_path rq = ''http://proxycontrol/api/remove/'' @ show_v4 a b c d @ '':'' @ show_word port"
  shows "fst (serve_control rq peer h pl) = no_content
    \<and> addrs (snd (serve_control rq peer h pl)) = addrs pl - {(V4 a b c d, port)}"
proof -
  let ?s = "show_v4 a b c d @ '':'' @ show_word port"
  have "strip_prefix ''http://proxycontrol'' (rq_path rq) = Some (''/api/remove/'' @ ?s)"
    using assms by (simp add: strip_prefix_def starts_with_def)
  moreover have "split_host_port ?s 0 = (show_v4 a b c d, port)"
    by (rule split_host_port_plain[OF show_v4_hd])
  ultimately have "serve_control rq peer h pl = (no_content, snd (pool_remove (V4 a b c d, port) pl))"
    by (simp only: serve_control_def Let_def option.case control_parts list.case prod.case
        parse_ip_show_v4 refl if_True)
  then show ?thesis by (simp add: pa.addrs_remove)
qed

theorem control_remove_witness:
  "fst (serve_control (sample_get_request\<lparr>rq_path := ''http://proxycontrol/api/remove/'' @ show_v4 10 0 0 1
       @ '':'' @ show_word (8080 :: u16)\<rparr>) (V4 9 9 9 9) [] (sample_pool Best)) = no_content
   \<and> addrs (snd (serve_control (sample_get_request\<lparr>rq_path := ''http://proxycontrol/api/remove/'' @ show_v4 10 0 0 1
       @ '':'' @ show_word (8080 :: u16)\<rparr>) (V4 9 9 9 9) [] (sample_pool Best)))
     = addrs (sample_pool Best) - {(V4 10 0 0 1, 8080)}"
  by (rule control_remove) simp

end
