(* ===== verification/Chain.thy ===== *)
theory Chain
  imports Server
begin

text \<open>
  The client side against the server side: the CONNECT request that the negotiator
  (\<^verbatim>\<open>src/src/negotiator.rs\<close>) writes is what the front end of the server (\<^verbatim>\<open>src/src/server.rs\<close>) reads,
  credentials included.
\<close>

section \<open>Heads made of lines\<close>

definition unl :: "string list \<Rightarrow> string" where
  "unl ls = concat (map (\<lambda>l. l @ crlf) ls)"

lemma unl_simps [simp]: "unl [] = []" "unl (l # ls) = l @ crlf @ unl ls" "unl (xs @ ys) = unl xs @ unl ys"
  by (simp_all add: unl_def)

definition plain_line :: "string \<Rightarrow> bool" where
  "plain_line l \<longleftrightarrow> l \<noteq> [] \<and> list_all (between 32 126) l"

lemma plain_no_LF: "plain_line l \<Longrightarrow> LF \<notin> set l \<and> CR \<notin> set l"
  by (auto simp: plain_line_def list_all_iff between_def LF_def CR_def)

lemma not_end_LF: "c \<noteq> LF \<Longrightarrow> \<not> ends_with (crlf @ crlf) (s @ [c])"
proof
  assume c: "c \<noteq> LF" and "ends_with (crlf @ crlf) (s @ [c])"
  then have "drop (Suc (length s) - 4) (s @ [c]) = crlf @ crlf" by (simp add: ends_with_def crlf_def)
  then have "last (drop (Suc (length s) - 4) (s @ [c])) = LF" by (simp add: crlf_def)
  with c show False by simp
qed

lemma http_head_loop_nolf:
  "LF \<notin> set l \<Longrightarrow> length buf + length l \<le> 65536 \<Longrightarrow> http_head_loop buf (l @ bs) = http_head_loop (buf @ l) bs"
proof (induction l arbitrary: buf)
  case (Cons c l)
  then have "\<not> ends_with (crlf @ crlf) (buf @ [c])" using not_end_LF[of c buf] by auto
  with Cons show ?case using Cons.IH[of "buf @ [c]"] by (simp add: Let_def)
qed simp

lemma http_head_loop_line:
  assumes "l \<noteq> []" "LF \<notin> set l" "length buf + length l + 2 \<le> 65536"
  shows "http_head_loop buf (l @ crlf @ bs) = http_head_loop (buf @ l @ crlf) bs"
proof -
  have "http_head_loop buf ((l @ [CR]) @ LF # bs) = http_head_loop (buf @ (l @ [CR])) (LF # bs)"
    by (rule http_head_loop_nolf) (use assms in \<open>auto simp: CR_def LF_def\<close>)
  moreover have "\<not> ends_with (crlf @ crlf) ((buf @ l) @ [CR, LF])"
  proof
    assume "ends_with (crlf @ crlf) ((buf @ l) @ [CR, LF])"
    then have "drop (length (buf @ l) - 2) (buf @ l) = crlf"
      by (simp add: ends_with_def crlf_def numeral_2_eq_2)
    then have "last (drop (length (buf @ l) - 2) (buf @ l)) = LF" by (simp add: crlf_def)
    moreover have "length (buf @ l) - 2 < length (buf @ l)" using assms(1) by simp
    ultimately have "last (buf @ l) = LF" by (simp only: last_drop)
    with assms(1) have "last l = LF" by simp
    with assms(1,2) show False using last_in_set by metis
  qed
  ultimately show ?thesis using assms(3) by (simp add: crlf_def Let_def)
qed

lemma http_head_loop_lines:
  "list_all plain_line ls \<Longrightarrow> length buf + length (unl ls) \<le> 65536 \<Longrightarrow>
    http_head_loop buf (unl ls @ bs) = http_head_loop (buf @ unl ls) bs"
proof (induction ls arbitrary: buf)
  case (Cons l ls)
  then have "l \<noteq> []" "LF \<notin> set l" using plain_no_LF[of l] by (auto simp: plain_line_def)
  with Cons show ?case using http_head_loop_line[of l buf "unl ls @ bs"] Cons.IH[of "buf @ l @ crlf"]
    by (simp add: crlf_def)
qed simp

lemma http_head_loop_end:
  assumes "length buf + 4 \<le> 65536"
  shows "http_head_loop (buf @ crlf) (crlf @ rest) = Some (buf @ crlf @ crlf, rest)"
  using assms not_end_LF[of CR "buf @ crlf"] by (simp add: crlf_def ends_with_def CR_def LF_def Let_def)

lemma lines_unl:
  assumes "list_all plain_line ls"
  shows "lines (unl ls @ crlf) = ls @ [[]]"
proof -
  have "split_char LF (unl ls @ crlf) = map (\<lambda>l. l @ [CR]) ls @ [[CR], []]"
    using assms
  proof (induction ls)
    case Nil
    show ?case by (simp add: split_char_def crlf_def CR_def LF_def)
  next
    case (Cons l ls)
    then have "\<forall>c \<in> set (l @ [CR]). \<not> LF = c" using plain_no_LF[of l] by (auto simp: CR_def LF_def)
    from split_on_sep[OF this, of LF "unl ls @ crlf"] Cons show ?case
      by (simp add: split_char_def crlf_def)
  qed
  then show ?thesis by (simp add: lines_def Let_def strip_cr_def o_def butlast_append)
qed

lemma between_mono: "between a b c \<Longrightarrow> a' \<le> a \<Longrightarrow> b \<le> b' \<Longrightarrow> between a' b' c"
  by (simp add: between_def)

lemma ascii_unl: "list_all plain_line ls \<Longrightarrow> ascii (unl ls @ crlf)"
  by (induction ls) (auto simp: ascii_def plain_line_def list_all_iff crlf_def CR_def LF_def between_def)

section \<open>A CONNECT request is read back\<close>

definition plain_host :: "string \<Rightarrow> bool" where
  "plain_host h \<longleftrightarrow> h \<noteq> [] \<and> list_all (between 33 126) h \<and> CHR ''['' \<notin> set h \<and> CHR '':'' \<notin> set h"

definition basic_of :: "credentials \<Rightarrow> string" where
  "basic_of c = ''Basic '' @ base64_encode (username c @ '':'' @ password c)"

definition connect_lines :: "string \<Rightarrow> u16 \<Rightarrow> credentials option \<Rightarrow> string list" where
  "connect_lines h p creds =
     [''CONNECT '' @ h @ '':'' @ show_word p @ '' HTTP/1.1'', ''Host: '' @ h,
      ''User-Agent: PxBroker/'' @ pkg_version @ ''/'']
     @ (case creds of Some c \<Rightarrow> [''Proxy-Authorization: '' @ basic_of c] | None \<Rightarrow> [])
     @ [''Connection: keep-alive'']"

lemma contains_char: "contains [c] s \<longleftrightarrow> c \<in> set s"
  unfolding contains_def by (induction s) (auto simp: starts_with_def)

lemma connect_request_lines:
  assumes "plain_host h"
  shows "connect_request h p creds = unl (connect_lines h p creds) @ crlf"
proof -
  have "strip_prefix ''['' h = None"
    using assms by (cases h) (auto simp: strip_prefix_def starts_with_def plain_host_def)
  then have "bare_host h = h" by (simp add: bare_host_def)
  moreover have "\<not> contains '':'' h" using assms by (simp add: contains_char plain_host_def)
  ultimately show ?thesis
    by (auto simp: connect_request_def connect_lines_def basic_of_def Let_def split: option.split)
qed

lemma show_word_plain: "list_all (between 48 57) (show_word (w :: 'a::len word))"
  using show_word_chars[of _ w] by (auto simp: list_all_iff is_digit_def between_def)

lemma base64_plain: "list_all (between 33 126) (base64_encode s)"
proof -
  have "\<forall>c \<in> set b64_alphabet. between 33 126 c" by (simp add: b64_alphabet_def between_def)
  then show ?thesis using base64_chars[of _ s] by (fastforce simp: list_all_iff between_def)
qed

lemma list_all_between_mono: "list_all (between a b) s \<Longrightarrow> a' \<le> a \<Longrightarrow> b \<le> b' \<Longrightarrow> list_all (between a' b') s"
  by (auto simp: list_all_iff between_def)

lemma connect_lines_plain:
  assumes "plain_host h"
  shows "list_all plain_line (connect_lines h p creds)"
proof -
  have "list_all (between 32 126) h" "list_all (between 32 126) (show_word p)"
    using assms show_word_plain[of p] by (auto simp: plain_host_def intro: list_all_between_mono)
  moreover have "list_all (between 32 126) (base64_encode x)" for x
    by (rule list_all_between_mono[OF base64_plain]) simp_all
  ultimately show ?thesis
    by (simp add: connect_lines_def plain_line_def basic_of_def pkg_version_def between_def split: option.split)
qed

lemma base64_ne: "s \<noteq> [] \<Longrightarrow> base64_encode s \<noteq> []"
  by (simp add: base64_encode.simps[of s] b64_chunk_def Let_def)

lemma not_ws_between: "between 33 126 c \<Longrightarrow> \<not> is_ws c"
  by (auto simp: is_ws_def between_def)

lemma trim_basic: "trim ('' '' @ basic_of c) = basic_of c"
proof -
  let ?b = "base64_encode (username c @ '':'' @ password c)"
  have ne: "?b \<noteq> []" by (rule base64_ne) simp
  then have "\<not> is_ws (last ?b)" using base64_plain last_in_set[OF ne]
    by (metis list_all_iff not_ws_between)
  with ne have "dropWhile is_ws (rev (basic_of c)) = rev (basic_of c)"
    by (cases ?b rule: rev_cases) (auto simp: basic_of_def)
  moreover have "trim_start is_ws ('' '' @ basic_of c) = basic_of c"
    by (simp add: trim_start_def basic_of_def is_ws_def)
  ultimately show ?thesis by (simp add: trim_def trim_end_def)
qed

lemma connect_first_words:
  assumes "plain_host h"
  shows "split_ws (''CONNECT '' @ h @ '':'' @ show_word p @ '' HTTP/1.1'')
    = [''CONNECT'', h @ '':'' @ show_word p, ''HTTP/1.1'']"
proof -
  let ?a = "h @ '':'' @ show_word p"
  have a: "\<forall>c \<in> set ?a. \<not> is_ws c"
    using assms show_word_plain[of p] by (auto simp: plain_host_def list_all_iff is_ws_def between_def)
  have w: "is_ws (CHR '' '')" "\<forall>c \<in> set ''CONNECT''. \<not> is_ws c" "\<forall>c \<in> set ''HTTP/1.1''. \<not> is_ws c"
    by (simp_all add: is_ws_def)
  have "split_on is_ws (''CONNECT'' @ CHR '' '' # (?a @ CHR '' '' # ''HTTP/1.1'')) = [''CONNECT'', ?a, ''HTTP/1.1'']"
    by (simp only: split_on_sep[OF w(2,1)] split_on_sep[OF a w(1)] split_on_word[OF w(3)])
  then show ?thesis by (simp add: split_ws_def)
qed

lemma connect_header_value:
  assumes "plain_host h"
  shows "header_value (connect_request h p creds) ''Proxy-Authorization'' = map_option basic_of creds"
proof -
  let ?ls = "connect_lines h p creds"
  have l: "lines (utf8_lossy (connect_request h p creds)) = ?ls @ [[]]"
    unfolding connect_request_lines[OF assms]
    by (simp add: utf8_lossy_ascii ascii_unl lines_unl connect_lines_plain[OF assms])
  show ?thesis unfolding header_value_def l
    by (cases creds) (simp_all add: connect_lines_def header_prefix_def lowercase_def to_lower_def
        starts_with_def trim_basic[simplified])
qed

lemma connect_parsed_head:
  assumes "plain_host h"
  shows "parse_http_request (connect_request h p creds)
    = Some \<lparr>rq_scheme = SHttps, rq_frontend = HttpConnect, rq_host = h, rq_port = p, rq_raw = [],
        rq_proxy_auth = map_option basic_of creds, rq_path = h @ '':'' @ show_word p\<rparr>"
proof -
  have l: "lines (utf8_lossy (connect_request h p creds)) = connect_lines h p creds @ [[]]"
    unfolding connect_request_lines[OF assms]
    by (simp add: utf8_lossy_ascii ascii_unl lines_unl connect_lines_plain[OF assms])
  have "split_host_port (h @ '':'' @ show_word p) 443 = (h, p)"
    by (rule split_host_port_plain) (use assms in \<open>cases h; auto simp: plain_host_def\<close>)+
  then show ?thesis
    unfolding parse_http_request_def l using connect_first_words[OF assms, of p] connect_header_value[OF assms]
    by (simp add: connect_lines_def Let_def)
qed

text \<open>Chained brokers understand each other: for a printable host name or IPv4 address the CONNECT
  request of the negotiator is read by the server as a tunnel request for the same host and port, with
  the same credentials in the header form that the server expects, and the bytes after it stay for the
  tunnel.\<close>

theorem connect_request_parsed:
  assumes "plain_host h" "length (connect_request h p creds) \<le> 65536"
  shows "parse_client_request cw want (connect_request h p creds @ rest, e) =
    (Some (\<lparr>rq_scheme = SHttps, rq_frontend = HttpConnect, rq_host = h, rq_port = p, rq_raw = [],
        rq_proxy_auth = map_option (\<lambda>c. ae_basic (auth_expect_of (username c @ '':'' @ password c))) creds,
        rq_path = h @ '':'' @ show_word p\<rparr>, (rest, e)), [])"
proof -
  let ?ls = "connect_lines h p creds" and ?l = "''ONNECT '' @ h @ '':'' @ show_word p @ '' HTTP/1.1''"
  have b: "map_option basic_of creds = map_option (\<lambda>c. ae_basic (auth_expect_of (username c @ '':'' @ password c))) creds"
    by (cases creds) (simp_all add: basic_of_def auth_expect_of_def split: prod.split)
  have ls: "?ls = (CHR ''C'' # ?l) # tl ?ls" by (simp add: connect_lines_def)
  have pl: "list_all plain_line ?ls" by (rule connect_lines_plain[OF assms(1)])
  then have p1: "plain_line (CHR ''C'' # ?l)" "list_all plain_line (tl ?ls)"
    by (subst (asm) ls, simp)+
  have cr: "connect_request h p creds = CHR ''C'' # ?l @ crlf @ unl (tl ?ls) @ crlf"
    unfolding connect_request_lines[OF assms(1)] by (subst ls) simp
  then have len: "length ?l + length (unl (tl ?ls)) + 5 \<le> 65536" using assms(2) by (simp add: crlf_def)
  have "http_head_loop ''C'' (?l @ crlf @ unl (tl ?ls) @ crlf @ rest)
      = http_head_loop (''C'' @ ?l @ crlf) (unl (tl ?ls) @ crlf @ rest)"
    using len plain_no_LF[OF p1(1)] by (intro http_head_loop_line) auto
  also have "\<dots> = http_head_loop ((''C'' @ ?l @ crlf) @ unl (tl ?ls)) (crlf @ rest)"
    using len by (intro http_head_loop_lines[OF p1(2)]) (simp add: crlf_def)
  also have "(''C'' @ ?l @ crlf) @ unl (tl ?ls) = unl ?ls" by (subst ls) simp
  also have "unl ?ls = (unl (butlast ?ls) @ ''Connection: keep-alive'') @ crlf"
    by (simp add: connect_lines_def butlast_append split: option.split)
  also have "http_head_loop \<dots> (crlf @ rest) = Some ((unl (butlast ?ls) @ ''Connection: keep-alive'') @ crlf @ crlf, rest)"
    using assms(2) unfolding connect_request_lines[OF assms(1)]
    by (intro http_head_loop_end) (simp add: connect_lines_def crlf_def split: option.splits)
  also have "(unl (butlast ?ls) @ ''Connection: keep-alive'') @ crlf @ crlf = connect_request h p creds"
    unfolding connect_request_lines[OF assms(1)]
    by (simp add: connect_lines_def split: option.split)
  finally have "http_head_loop ''C'' (?l @ crlf @ unl (tl ?ls) @ crlf @ rest) = Some (connect_request h p creds, rest)" .
  moreover have "rd 1 (connect_request h p creds @ rest, e) = Some (''C'', ?l @ crlf @ unl (tl ?ls) @ crlf @ rest, e)"
    unfolding cr by (simp add: rd_def read_exact_def)
  ultimately show ?thesis
    using connect_parsed_head[OF assms(1)] b by (simp add: parse_client_request_def val_def)
qed

theorem connect_request_parsed_witness:
  "parse_client_request (\<lambda>_. True) None (connect_request ''ex.org'' 443 None @ ''hi'', REof) =
    (Some (\<lparr>rq_scheme = SHttps, rq_frontend = HttpConnect, rq_host = ''ex.org'', rq_port = 443, rq_raw = [],
        rq_proxy_auth = map_option (\<lambda>c. ae_basic (auth_expect_of (username c @ '':'' @ password c))) (None :: credentials option),
        rq_path = ''ex.org'' @ '':'' @ show_word (443 :: u16)\<rparr>, (''hi'', REof)), [])"
proof (rule connect_request_parsed)
  show p: "plain_host ''ex.org''" by (simp add: plain_host_def between_def)
  have "length (show_word (443 :: u16)) = 3" by (simp add: show_word_def show_nat.simps)
  then show "length (connect_request ''ex.org'' 443 None) \<le> 65536"
    unfolding connect_request_lines[OF p] by (simp add: connect_lines_def pkg_version_def crlf_def)
qed

end
