(* ===== verification/Scan.thy ===== *)
theory Scan
  imports Proxy Utils
begin

text \<open>
  Finding addresses in text: \<^verbatim>\<open>src/src/parse.rs\<close>, \<^verbatim>\<open>get_all_ip\<close> of \<^verbatim>\<open>src/src/utils.rs\<close> and
  \<^verbatim>\<open>ProviderSpec::extract\<close> of \<^verbatim>\<open>src/src/provider.rs\<close>. The patterns are literals of the source; the
  leftmost-first matching of the \<^verbatim>\<open>regex\<close> crate is given by the lengths of all matches at a position,
  in order of preference. Digits are the ASCII digits. A provider's own pattern is an argument, the
  captures that the \<^verbatim>\<open>regex\<close> crate returns for it.
\<close>

section \<open>Patterns\<close>

datatype re = Cls "char \<Rightarrow> bool" | Seq re re | Alt re re | Opt re | Many nat nat "char \<Rightarrow> bool" | Star "char \<Rightarrow> bool"

text \<open>The lengths of the matches at the start of the text, the preferred one first.\<close>

fun ends :: "re \<Rightarrow> string \<Rightarrow> nat list" where
  "ends (Cls f) s = (case s of c # _ \<Rightarrow> if f c then [1] else [] | [] \<Rightarrow> [])"
| "ends (Seq a b) s = concat (map (\<lambda>n. map ((+) n) (ends b (drop n s))) (ends a s))"
| "ends (Alt a b) s = ends a s @ ends b s"
| "ends (Opt a) s = ends a s @ [0]"
| "ends (Many m n f) s = (let k = min n (length (takeWhile f s)) in if m \<le> k then rev [m..<Suc k] else [])"
| "ends (Star f) s = rev [0..<Suc (length (takeWhile f s))]"

text \<open>The leftmost match: its start and length.\<close>

fun find_re :: "re \<Rightarrow> string \<Rightarrow> (nat \<times> nat) option" where
  "find_re r s =
     (case ends r s of
        n # _ \<Rightarrow> Some (0, n)
      | [] \<Rightarrow> (case s of [] \<Rightarrow> None | c # s' \<Rightarrow> map_option (\<lambda>(i, n). (Suc i, n)) (find_re r s')))"

declare find_re.simps [simp del]

definition in_range :: "nat \<Rightarrow> nat \<Rightarrow> char \<Rightarrow> bool" where
  "in_range a b c \<longleftrightarrow> a \<le> of_char c \<and> of_char c \<le> b"

text \<open>\<open>25[0-5]|2[0-4]\d|[01]?\d\d?\<close>\<close>

definition octet_re :: re where
  "octet_re =
     Alt (Seq (Cls ((=) (CHR ''2''))) (Seq (Cls ((=) (CHR ''5''))) (Cls (in_range 48 53))))
    (Alt (Seq (Cls ((=) (CHR ''2''))) (Seq (Cls (in_range 48 52)) (Cls is_digit)))
         (Seq (Opt (Cls (in_range 48 49))) (Seq (Cls is_digit) (Opt (Cls is_digit)))))"

definition octet_dot :: re where
  "octet_dot = Seq octet_re (Cls ((=) (CHR ''.'')))"

definition ipv4_re :: re where
  "ipv4_re = Seq octet_dot (Seq octet_dot (Seq octet_dot octet_re))"

definition port_re :: re where
  "port_re = Many 2 5 is_digit"

definition v6_head :: "char \<Rightarrow> bool" where
  "v6_head c \<longleftrightarrow> is_hex c \<or> c = CHR '':''"

definition zone_char :: "char \<Rightarrow> bool" where
  "zone_char c \<longleftrightarrow> is_alpha c \<or> is_digit c \<or> c \<in> set ''_.-''"

text \<open>\<open>[0-9A-Fa-f:][0-9A-Fa-f:.]*(?:%[A-Za-z0-9_.\-]+)?\<close>; the repetition in the zone has no upper
  bound, the length of the text is one.\<close>

definition ipv6_candidate_re :: "nat \<Rightarrow> re" where
  "ipv6_candidate_re len = Seq (Cls v6_head) (Seq (Star (\<lambda>c. v6_head c \<or> c = CHR ''.''))
     (Opt (Seq (Cls ((=) (CHR ''%''))) (Many 1 len zone_char))))"

section \<open>Matches\<close>

lemma ends_le: "n \<in> set (ends r s) \<Longrightarrow> n \<le> length s"
proof (induction r arbitrary: s n)
  case (Seq a b)
  then obtain m k where mk: "m \<in> set (ends a s)" "k \<in> set (ends b (drop m s))" "n = m + k" by auto
  with Seq.IH(1)[OF mk(1)] Seq.IH(2)[OF mk(2)] show ?case by simp
next
  case (Many m k f)
  then show ?case using length_takeWhile_le[of f s] by (auto simp: Let_def split: if_splits)
next
  case (Star f)
  then show ?case using length_takeWhile_le[of f s] by auto
qed (auto split: list.splits if_splits)

lemma find_re_Some: "find_re r s = Some (i, n) \<Longrightarrow> i \<le> length s \<and> n \<in> set (ends r (drop i s))"
proof (induction s arbitrary: i)
  case Nil
  then show ?case by (subst (asm) find_re.simps) (auto split: list.splits)
next
  case (Cons c s)
  then show ?case
    by (subst (asm) find_re.simps) (auto split: list.splits)
qed

lemma find_re_bound:
  assumes "find_re r s = Some (i, n)"
  shows "i + n \<le> length s"
  using find_re_Some[OF assms] ends_le[of n r "drop i s"] by auto

lemma octet_pos: "n \<in> set (ends octet_re s) \<Longrightarrow> 0 < n"
  by (auto simp: octet_re_def split: list.splits if_splits)

lemma seq_pos: "n \<in> set (ends (Seq a b) s) \<Longrightarrow> (\<And>m. m \<in> set (ends a s) \<Longrightarrow> 0 < m) \<Longrightarrow> 0 < n"
  by fastforce

lemma ipv4_pos: "n \<in> set (ends ipv4_re s) \<Longrightarrow> 0 < n"
  unfolding ipv4_re_def octet_dot_def by (blast dest: seq_pos octet_pos)

lemma v6_pos: "n \<in> set (ends (ipv6_candidate_re len) s) \<Longrightarrow> 0 < n"
  by (auto simp: ipv6_candidate_re_def split: list.splits if_splits)

text \<open>\<open>find_iter\<close>: the non-overlapping matches; a pattern that only matches non-empty text.\<close>

fun find_iter :: "nat \<Rightarrow> re \<Rightarrow> string \<Rightarrow> string list" where
  "find_iter 0 r s = []"
| "find_iter (Suc k) r s =
     (case find_re r s of
        None \<Rightarrow> []
      | Some (i, n) \<Rightarrow> take n (drop i s) # find_iter k r (drop (i + n) s))"

text \<open>Each match consumes at least one character, so the length of the text is enough fuel.\<close>

definition matches :: "re \<Rightarrow> string \<Rightarrow> string list" where
  "matches r s = find_iter (Suc (length s)) r s"

lemma find_iter_fuel:
  assumes "\<And>s n. n \<in> set (ends r s) \<Longrightarrow> 0 < n" "length s < k" "length s < k'"
  shows "find_iter k r s = find_iter k' r s"
  using assms(2,3)
proof (induction k arbitrary: k' s)
  case (Suc k)
  obtain j where j: "k' = Suc j" using Suc.prems(2) by (cases k') auto
  show ?case
  proof (cases "find_re r s")
    case (Some x)
    obtain i n where x: "x = (i, n)" by (cases x)
    have "0 < n" "i + n \<le> length s"
      using find_re_Some[of r s i n] find_re_bound[of r s i n] Some x assms(1) by auto
    then show ?thesis using Suc.prems j Some x Suc.IH[of "drop (i + n) s" j] by simp
  qed (simp add: j)
qed simp

section \<open>\<^verbatim>\<open>parse.rs\<close>\<close>

definition line_addr :: "string \<Rightarrow> (string \<times> string) option" where
  "line_addr line =
     (case find_re ipv4_re line of
        None \<Rightarrow> None
      | Some (i, n) \<Rightarrow>
         (let after = drop (i + n) line
          in case find_re port_re after of
               None \<Rightarrow> None
             | Some (j, m) \<Rightarrow> Some (take n (drop i line), take m (drop j after))))"

definition find_addrs_line :: "string \<Rightarrow> (string \<times> string) list" where
  "find_addrs_line text = List.map_filter line_addr (split_char LF text)"

function find_addrs_global :: "string \<Rightarrow> (string \<times> string) list" where
  "find_addrs_global text =
     (case find_re ipv4_re text of
        None \<Rightarrow> []
      | Some (i, n) \<Rightarrow>
         (let after = drop (i + n) text;
              port = (case (find_re port_re after, find_re ipv4_re after) of
                  (Some (pj, pm), Some (ij, im)) \<Rightarrow>
                    if pj < ij then Some (take pm (drop pj after)) else Some []
                | (Some (pj, pm), None) \<Rightarrow> Some (take pm (drop pj after))
                | (None, Some _) \<Rightarrow> Some []
                | (None, None) \<Rightarrow> None)
          in (case port of Some pt \<Rightarrow> [(take n (drop i text), pt)] | None \<Rightarrow> [])
               @ find_addrs_global after))"
  by pat_completeness auto
termination
proof (relation "measure length", goal_cases)
  case (2 tx x i n aft pt)
  then have f: "find_re ipv4_re tx = Some (i, n)" by simp
  have "0 < n" using find_re_Some[OF f] ipv4_pos by blast
  with find_re_bound[OF f] 2 show ?case by simp
qed simp

declare find_addrs_global.simps [simp del]

definition parse_proxy_lines :: "string \<Rightarrow> proxy list" where
  "parse_proxy_lines text =
     List.map_filter (\<lambda>(ip_str, port_str).
        case parse_ip_lenient ip_str of None \<Rightarrow> None
        | Some ip \<Rightarrow> (case parse_u16 port_str of None \<Rightarrow> None | Some port \<Rightarrow> Some (proxy_new ip port {})))
       (find_addrs_line text)"

section \<open>\<^verbatim>\<open>get_all_ip\<close>\<close>

definition get_all_ip :: "string \<Rightarrow> string set" where
  "get_all_ip page =
     set (matches ipv4_re page)
     \<union> set (List.map_filter (\<lambda>tok. canonicalize_ip (trim_end ((=) (CHR ''.'')) tok))
              (filter (contains '':'') (matches (ipv6_candidate_re (length page)) page)))"

section \<open>\<^verbatim>\<open>provider.rs\<close>\<close>

record provider_spec =
  pv_url :: string
  pv_protocols :: "proto list"
  pv_pattern :: "string option"
  pv_timeout :: nat
  pv_kind :: "string option"

record candidate =
  cd_host :: string
  cd_port :: u16
  cd_protocols :: "proto set"

text \<open>\<open>caps pat body\<close>: nothing when the pattern does not compile, else the whole match and the two
  groups of every match.\<close>

type_synonym captures = "string \<Rightarrow> string \<Rightarrow> (string \<times> string option \<times> string option) list option"

definition extract_with_pattern :: "captures \<Rightarrow> string \<Rightarrow> string \<Rightarrow> (string \<times> string) list" where
  "extract_with_pattern caps pat body =
     (case caps pat body of
        None \<Rightarrow> []
      | Some ms \<Rightarrow>
         List.map_filter (\<lambda>(whole, g1, g2).
            case (g1, g2) of (Some h, Some p) \<Rightarrow> Some (h, p) | _ \<Rightarrow> rsplit_once (CHR '':'') whole) ms)"

definition candidate_of :: "proto set \<Rightarrow> string \<times> string \<Rightarrow> candidate option" where
  "candidate_of protos hp =
     (case hp of (raw_host, raw_port) \<Rightarrow>
        (case parse_u16 raw_port of None \<Rightarrow> None
         | Some port \<Rightarrow>
            if port = 0 then None
            else (case canonicalize_ip raw_host of None \<Rightarrow> None
             | Some host \<Rightarrow>
                if (case parse_ip host of Some ip \<Rightarrow> is_unspecified ip | None \<Rightarrow> False) then None
                else Some \<lparr>cd_host = host, cd_port = port, cd_protocols = protos\<rparr>)))"

definition push_candidate :: "candidate list \<Rightarrow> candidate \<Rightarrow> candidate list" where
  "push_candidate out c =
     (if (cd_host c, cd_port c) \<in> set (map (\<lambda>c. (cd_host c, cd_port c)) out) then out else out @ [c])"

definition extract_candidates :: "captures \<Rightarrow> provider_spec \<Rightarrow> string \<Rightarrow> candidate list" where
  "extract_candidates caps spec body =
     (let pairs = (case pv_pattern spec of
          Some pat \<Rightarrow> extract_with_pattern caps pat body | None \<Rightarrow> find_addrs_global body)
      in foldl push_candidate [] (List.map_filter (candidate_of (set (pv_protocols spec))) pairs))"

section \<open>Properties\<close>

text \<open>The preferred match of a sequence starts with the preferred match of its first part, if the
  second part matches after it.\<close>

lemma seq_hd: "ends a (w @ s) = length w # xs \<Longrightarrow> ends b s = m # ys \<Longrightarrow>
    \<exists>zs. ends (Seq a b) (w @ s) = (length w + m) # zs"
  by simp

lemma digit_is: "n < 10 \<Longrightarrow> k < 10 \<Longrightarrow> digit n = digit k \<longleftrightarrow> n = k"
  by (metis add_left_cancel of_char_digit)

lemma chr_digit: "CHR ''2'' = digit 2" "CHR ''5'' = digit 5"
  by code_simp+

lemma in_range_is_digit: "in_range 48 k c \<Longrightarrow> k \<le> 57 \<Longrightarrow> is_digit c"
  by (simp add: in_range_def is_digit_def)

lemma in_range_digit: "n < 10 \<Longrightarrow> in_range 48 (48 + k) (digit n) \<longleftrightarrow> n \<le> k"
  by (simp add: in_range_def)

lemma octet_hd:
  assumes "n < 256" "s = [] \<or> \<not> is_digit (hd s)"
  shows "\<exists>xs. ends octet_re (show_nat n @ s) = length (show_nat n) # xs"
proof -
  note ev = octet_re_def chr_digit digit_is in_range_digit[of _ 5, simplified] in_range_digit[of _ 4, simplified]
    in_range_digit[of _ 1, simplified]
  have sd: "(case s of [] \<Rightarrow> [] | c # x \<Rightarrow> if is_digit c then [1] else []) = []"
    "\<And>f. (case s of [] \<Rightarrow> [] | c # x \<Rightarrow> if f c then [Suc 0] else [])
        = (if s \<noteq> [] \<and> f (hd s) then [Suc 0] else [])" using assms(2) by (auto split: list.split)
  consider "n < 10" | "10 \<le> n" "n < 100" | "100 \<le> n" by linarith
  then show ?thesis
  proof cases
    case 1
    then show ?thesis using sd assms(2) by (cases s) (auto simp: ev show_nat.simps dest: in_range_is_digit)
  next
    case 2
    then have d: "n div 10 < 10" "0 < n div 10" by auto
    then have "show_nat n = [digit (n div 10), digit (n mod 10)]"
      using 2 by (simp add: show_nat.simps[of n] show_nat.simps[of "n div 10"])
    then show ?thesis using sd assms(2) d by (cases s) (auto simp: ev dest: in_range_is_digit)
  next
    case 3
    then have d: "n div 100 < 10" "n div 100 = 1 \<or> n div 100 = 2" "n div 10 mod 10 < 10" using assms(1) by auto
    have sh: "show_nat n = [digit (n div 100), digit (n div 10 mod 10), digit (n mod 10)]"
    proof -
      have "show_nat n = show_nat (n div 10) @ [digit (n mod 10)]"
        "show_nat (n div 10) = show_nat (n div 10 div 10) @ [digit (n div 10 mod 10)]"
        using 3 show_nat.simps[of n] show_nat.simps[of "n div 10"] by simp_all
      moreover have "n div 10 div 10 = n div 100" by (simp add: div_mult2_eq[symmetric])
      moreover have "show_nat (n div 100) = [digit (n div 100)]" using d(1) show_nat.simps[of "n div 100"] by simp
      ultimately show ?thesis by simp
    qed
    have "n = 10 * (n div 10) + n mod 10" "n div 10 = 10 * (n div 10 div 10) + n div 10 mod 10"
      "n div 10 div 10 = n div 100"
      using div_mult2_eq[of n 10 10] by (simp_all only: mult_div_mod_eq)
    then have two: "n div 100 = 2 \<Longrightarrow> n div 10 mod 10 \<noteq> 5 \<Longrightarrow> n div 10 mod 10 \<le> 4"
      "n div 100 = 2 \<Longrightarrow> n div 10 mod 10 = 5 \<Longrightarrow> n mod 10 \<le> 5" using assms(1) by linarith+
    show ?thesis
    proof (cases "n div 100 = 1")
      case True
      then show ?thesis using sh d by (auto simp: ev)
    next
      case False
      with d two sh show ?thesis by (cases "n div 10 mod 10 = 5") (auto simp: ev)
    qed
  qed
qed

lemma octet_word:
  assumes "s = [] \<or> \<not> is_digit (hd s)"
  shows "\<exists>xs. ends octet_re (show_word (b :: u8) @ s) = length (show_word b) # xs"
  using octet_hd[of "unat b" s] assms unsigned_less[where 'a = nat, of b] by (simp add: show_word_def)

lemma octet_dot_word: "\<exists>xs. ends octet_dot ((show_word (b :: u8) @ ''.'') @ s) = length (show_word b @ ''.'') # xs"
proof -
  obtain xs where "ends octet_re (show_word b @ ''.'' @ s) = length (show_word b) # xs"
    using octet_word[of "''.'' @ s" b] by (auto simp: is_digit_def)
  from seq_hd[OF this, of "Cls ((=) (CHR ''.''))" 1 "[]"] show ?thesis
    unfolding octet_dot_def by simp
qed

lemma ipv4_v4:
  assumes "s = [] \<or> \<not> is_digit (hd s)"
  shows "\<exists>xs. ends ipv4_re (show_v4 a b c d @ s) = length (show_v4 a b c d) # xs"
proof -
  obtain x4 where 4: "ends octet_re (show_word d @ s) = length (show_word d) # x4"
    using octet_word[OF assms] by blast
  obtain x3 where "ends octet_dot ((show_word c @ ''.'') @ show_word d @ s) = length (show_word c @ ''.'') # x3"
    using octet_dot_word by blast
  from seq_hd[OF this 4] obtain y3 where
    3: "ends (Seq octet_dot octet_re) ((show_word c @ ''.'') @ show_word d @ s)
      = (length (show_word c @ ''.'') + length (show_word d)) # y3" by blast
  obtain x2 where "ends octet_dot ((show_word b @ ''.'') @ (show_word c @ ''.'') @ show_word d @ s)
      = length (show_word b @ ''.'') # x2"
    using octet_dot_word by blast
  from seq_hd[OF this 3] obtain y2 where
    2: "ends (Seq octet_dot (Seq octet_dot octet_re)) ((show_word b @ ''.'') @ (show_word c @ ''.'') @ show_word d @ s)
      = (length (show_word b @ ''.'') + (length (show_word c @ ''.'') + length (show_word d))) # y2" by blast
  obtain x1 where "ends octet_dot ((show_word a @ ''.'') @ (show_word b @ ''.'') @ (show_word c @ ''.'') @ show_word d @ s)
      = length (show_word a @ ''.'') # x1"
    using octet_dot_word by blast
  from seq_hd[OF this 2] show ?thesis by (simp add: ipv4_re_def show_v4_def)
qed

lemma port_word:
  assumes "10 \<le> unat (p :: u16)"
  shows "find_re port_re ('':'' @ show_word p) = Some (1, length (show_word p))"
proof -
  have lt: "unat p < 65536" using unsigned_less[where 'a = nat, of p] by simp
  have len: "2 \<le> length (show_nat (unat p))" "length (show_nat (unat p)) \<le> 5"
    using assms lt by (simp_all add: show_nat.simps[of "unat p"] show_nat.simps[of "unat p div 10"]
        show_nat.simps[of "unat p div 100"] show_nat.simps[of "unat p div 1000"] show_nat.simps[of "unat p div 10000"]
        div_mult2_eq[symmetric])
  have tw: "takeWhile is_digit (show_nat (unat p)) = show_nat (unat p)"
    using show_nat_digits[of "unat p"] by (simp add: list_all_iff)
  have "ends port_re (show_word p) = rev [2..<Suc (length (show_word p))]"
    unfolding port_re_def show_word_def ends.simps tw Let_def using len by (simp add: min_absorb2)
  then have "find_re port_re (show_word p) = Some (0, length (show_word p))"
    using len by (subst find_re.simps) (simp add: show_word_def)
  moreover have "ends port_re ('':'' @ show_word p) = []" by (simp add: port_re_def is_digit_def)
  ultimately show ?thesis by (subst find_re.simps) simp
qed

lemma line_addr_v4:
  assumes "10 \<le> unat (p :: u16)"
  shows "line_addr (show_v4 a b c d @ '':'' @ show_word p) = Some (show_v4 a b c d, show_word p)"
proof -
  have "find_re ipv4_re (show_v4 a b c d @ '':'' @ show_word p) = Some (0, length (show_v4 a b c d))"
    using ipv4_v4[of "'':'' @ show_word p" a b c d] by (subst find_re.simps) (auto simp: is_digit_def)
  then show ?thesis using port_word[OF assms] by (simp add: line_addr_def)
qed

lemma addr_no_LF: "p_host p = V4 a b c d \<Longrightarrow> LF \<notin> set (addr p)"
  using show_v4_chars[of LF a b c d] show_word_chars[of LF "p_port p"]
  by (auto simp: addr_def LF_def is_digit_def)

text \<open>Round trip of the scanner: the printed addresses of IPv4 proxies, one per line, are scanned
  back to exactly these proxies in order. The scanner needs a port of at least two digits.\<close>

theorem scan_roundtrip:
  assumes "\<forall>p \<in> set ps. (\<exists>a b c d. p_host p = V4 a b c d) \<and> 10 \<le> unat (p_port p)"
  shows "parse_proxy_lines (join [LF] (map addr ps)) = map (\<lambda>p. proxy_new (p_host p) (p_port p) {}) ps"
proof (cases "ps = []")
  case True
  have "line_addr [] = None"
    by (simp add: line_addr_def find_re.simps ipv4_re_def octet_dot_def octet_re_def)
  with True show ?thesis
    by (simp add: parse_proxy_lines_def find_addrs_line_def split_char_def map_filter_def)
next
  case False
  have "split_char LF (join [LF] (map addr ps)) = map addr ps"
    using assms addr_no_LF False by (intro split_join) fastforce+
  moreover have "List.map_filter line_addr (map addr ps) = map (\<lambda>p. (show_ip (p_host p), show_word (p_port p))) ps"
    using assms by (induction ps) (auto simp: map_filter_def addr_def line_addr_v4[simplified])
  moreover have "List.map_filter (\<lambda>(ip_str, port_str).
        case parse_ip_lenient ip_str of None \<Rightarrow> None
        | Some ip \<Rightarrow> (case parse_u16 port_str of None \<Rightarrow> None | Some port \<Rightarrow> Some (proxy_new ip port {})))
      (map (\<lambda>p. (show_ip (p_host p), show_word (p_port p))) ps) = map (\<lambda>p. proxy_new (p_host p) (p_port p) {}) ps"
    using assms by (induction ps) (auto simp: map_filter_def parse_ip_lenient_def parse_ip_show_v4 show_v4_hd)
  ultimately show ?thesis by (simp only: parse_proxy_lines_def find_addrs_line_def)
qed

theorem scan_roundtrip_witness:
  "let ps = [proxy_new (V4 1 2 3 4) 8080 {}, proxy_new (V4 255 0 10 99) 80 {Http}]
   in parse_proxy_lines (join [LF] (map addr ps)) = map (\<lambda>p. proxy_new (p_host p) (p_port p) {}) ps"
  unfolding Let_def by (rule scan_roundtrip) (simp add: proxy_new_def)

lemma push_candidates_distinct:
  "distinct (map (\<lambda>c. (cd_host c, cd_port c)) out) \<Longrightarrow>
    distinct (map (\<lambda>c. (cd_host c, cd_port c)) (foldl push_candidate out cs))"
  by (induction cs arbitrary: out) (auto simp: push_candidate_def)

lemma push_candidates_set: "set (foldl push_candidate out cs) \<subseteq> set out \<union> set cs"
proof (induction cs arbitrary: out)
  case (Cons c cs)
  have "set (push_candidate out c) \<subseteq> insert c (set out)" by (simp add: push_candidate_def subset_insertI)
  with Cons[of "push_candidate out c"] show ?case by auto
qed simp

lemma candidate_of_Some:
  assumes "candidate_of protos hp = Some c"
  shows "cd_port c \<noteq> 0 \<and> cd_protocols c = protos \<and> canonicalize_ip (fst hp) = Some (cd_host c)
    \<and> (\<forall>ip. parse_ip (cd_host c) = Some ip \<longrightarrow> \<not> is_unspecified ip)"
  using assms by (auto simp: candidate_of_def split: prod.splits option.splits if_splits)


end
