(* ===== verification/Checker.thy ===== *)
theory Checker
  imports Scan Negotiator
begin

text \<open>
  Judges and the checker: \<^verbatim>\<open>src/src/judge.rs\<close> and \<^verbatim>\<open>src/src/checker.rs\<close>.

  Outside code is an argument: the URL parser (\<^verbatim>\<open>url\<close>), the resolver, the direct HTTP client
  (\<^verbatim>\<open>reqwest\<close>), the decompressors (\<^verbatim>\<open>flate2\<close>), random choices and the clock. A connection attempt
  sees a \<open>check_net\<close>: the network of the negotiation, how the write of a given request ends, the marker
  that was drawn and the measured time. The case conversion of pages is that of ASCII.
\<close>

section \<open>Judges\<close>

record judge_end =
  j_url :: string
  j_scheme :: judge_scheme
  j_host :: string
  j_path :: string
  j_ip :: "ip_addr option"
  j_via :: nat
  j_proxy :: nat

record url_parts =
  u_scheme :: string
  u_host :: "string option"
  u_path :: string
  u_query :: "string option"

definition judge_parse :: "(string \<Rightarrow> url_parts option) \<Rightarrow> string \<Rightarrow> judge_end option" where
  "judge_parse parse_url url =
     (case parse_url url of None \<Rightarrow> None
      | Some u \<Rightarrow>
         (case (if u_scheme u = ''http'' then Some JHttp else if u_scheme u = ''https'' then Some JHttps
                else if u_scheme u = ''smtp'' then Some JSmtp else None) of
            None \<Rightarrow> None
          | Some sc \<Rightarrow>
             (case u_host u of None \<Rightarrow> None
              | Some host \<Rightarrow>
                 Some \<lparr>j_url = url, j_scheme = sc, j_host = host,
                   j_path = (case u_query u of Some q \<Rightarrow> u_path u @ ''?'' @ q | None \<Rightarrow> u_path u),
                   j_ip = None, j_via = 0, j_proxy = 0\<rparr>)))"

definition real_visible :: "ip_addr list \<Rightarrow> string set \<Rightarrow> bool" where
  "real_visible ips found \<longleftrightarrow> list_ex (\<lambda>ip. show_ip ip \<in> found) ips"

text \<open>\<open>fetch\<close> is the direct request: the status and the body, if a response and its text came.\<close>

definition judge_probe :: "(string \<Rightarrow> ip_addr option) \<Rightarrow> (judge_end \<Rightarrow> string \<Rightarrow> (nat \<times> string option) option)
    \<Rightarrow> string \<Rightarrow> ip_addr list \<Rightarrow> judge_end \<Rightarrow> judge_end option" where
  "judge_probe resolve fetch marker ips j =
     (case resolve (j_host j) of None \<Rightarrow> None
      | Some ip \<Rightarrow>
         (let j = j\<lparr>j_ip := Some ip\<rparr>
          in if j_scheme j = JSmtp then Some j
             else (case fetch j marker of
                Some (status, Some body) \<Rightarrow>
                  (let page = lowercase body
                   in if status = 200 \<and> real_visible ips (get_all_ip page) \<and> contains marker page
                      then Some (j\<lparr>j_via := count_matches ''via'' page, j_proxy := count_matches ''proxy'' page\<rparr>)
                      else None)
              | _ \<Rightarrow> None)))"

record judge_pool =
  jp_http :: "judge_end list"
  jp_https :: "judge_end list"
  jp_smtp :: "judge_end list"

definition probe_all :: "(judge_end \<Rightarrow> judge_end option) \<Rightarrow> judge_end list \<Rightarrow> judge_pool" where
  "probe_all probe candidates =
     (let working = List.map_filter probe candidates
      in \<lparr>jp_http = filter (\<lambda>j. j_scheme j = JHttp) working,
          jp_https = filter (\<lambda>j. j_scheme j = JHttps) working,
          jp_smtp = filter (\<lambda>j. j_scheme j = JSmtp) working\<rparr>)"

definition bucket :: "judge_pool \<Rightarrow> judge_scheme \<Rightarrow> judge_end list" where
  "bucket jp sc = (case sc of JHttp \<Rightarrow> jp_http jp | JHttps \<Rightarrow> jp_https jp | JSmtp \<Rightarrow> jp_smtp jp)"

definition random_judge :: "nat \<Rightarrow> judge_pool \<Rightarrow> judge_scheme \<Rightarrow> judge_end option" where
  "random_judge r jp sc = (let b = bucket jp sc in if b = [] then None else Some (b ! (r mod length b)))"

definition jp_empty :: "judge_pool \<Rightarrow> bool" where
  "jp_empty jp \<longleftrightarrow> jp_http jp = [] \<and> jp_https jp = [] \<and> jp_smtp jp = []"

section \<open>Retry policy\<close>

record retry_policy =
  rp_max_tries :: nat
  rp_retry_on :: "proxy_error set"
  rp_backoff :: duration
  rp_factor :: real
  rp_jitter :: real
  rp_max_backoff :: duration

definition retry_default :: retry_policy where
  "retry_default = \<lparr>rp_max_tries = 3, rp_retry_on = {Timeout}, rp_backoff = 0, rp_factor = 1,
     rp_jitter = 0, rp_max_backoff = 0\<rparr>"

definition retry_tries :: "nat \<Rightarrow> retry_policy" where
  "retry_tries n = retry_default\<lparr>rp_max_tries := n\<rparr>"

definition retry_transient :: "nat \<Rightarrow> retry_policy" where
  "retry_transient n = retry_default\<lparr>rp_max_tries := n, rp_retry_on := {Timeout, Reset, ConnFailed, EmptyRecv}\<rparr>"

text \<open>The delay before a retry; \<open>r\<close> is the random number in \<open>[-1, 1]\<close>, \<open>None\<close> a panic of the
  conversion.\<close>

definition backoff_for :: "retry_policy \<Rightarrow> real \<Rightarrow> nat \<Rightarrow> duration option" where
  "backoff_for rp r i =
     (if rp_backoff rp = 0 then Some 0
      else let d = as_secs_f64 (rp_backoff rp) * rp_factor rp ^ i;
               d = (if 0 < rp_jitter rp then d * (1 + rp_jitter rp * r) else d);
               d = (if rp_max_backoff rp \<noteq> 0 then min d (as_secs_f64 (rp_max_backoff rp)) else d)
        in from_secs_f64 (max d 0))"

section \<open>The checker\<close>

record liveness_target =
  lt_host :: string
  lt_path :: string
  lt_ip :: ip_addr
  lt_scheme :: judge_scheme

datatype check_mode = Judged | Liveness liveness_target

datatype probe = PJudged judge_end | PLiveness liveness_target

record codec =
  gunzip :: "string \<Rightarrow> string option"
  inflate :: "string \<Rightarrow> string option"

record checker =
  ck_judges :: judge_pool
  ck_ips :: "ip_addr list"
  ck_requested :: "type_spec list"
  ck_post :: bool
  ck_strict :: bool
  ck_relaxed :: bool
  ck_trust :: bool
  ck_dnsbl :: "string list"
  ck_mode :: check_mode
  ck_retry :: retry_policy

record checker_config =
  cc_judges :: "string list"
  cc_types :: "type_spec list"
  cc_retry :: retry_policy
  cc_post :: bool
  cc_strict :: bool
  cc_relaxed :: bool
  cc_trust :: bool
  cc_dnsbl :: "string list"
  cc_liveness_url :: "string option"

definition liveness_resolve :: "(string \<Rightarrow> url_parts option) \<Rightarrow> (string \<Rightarrow> ip_addr option) \<Rightarrow> string
    \<Rightarrow> liveness_target option" where
  "liveness_resolve parse_url resolve url =
     (case judge_parse parse_url url of None \<Rightarrow> None
      | Some j \<Rightarrow>
         if j_scheme j = JSmtp then None
         else (case resolve (j_host j) of None \<Rightarrow> None
          | Some ip \<Rightarrow> Some \<lparr>lt_host = j_host j, lt_path = j_path j, lt_ip = ip, lt_scheme = j_scheme j\<rparr>))"

definition default_judges :: "string list" where
  "default_judges =
     [''http://httpbin.org/get?show_env'', ''https://httpbin.org/get?show_env'', ''smtp://smtp.gmail.com'',
      ''smtp://aspmx.l.google.com'', ''http://azenv.net/'', ''https://www.proxy-listen.de/azenv.php'',
      ''http://proxyjudge.us/azenv.php'', ''http://ip.spys.ru/'']"

definition checker_new :: "(string \<Rightarrow> url_parts option) \<Rightarrow> (string \<Rightarrow> ip_addr option) \<Rightarrow> (judge_end \<Rightarrow> judge_end option)
    \<Rightarrow> checker_config \<Rightarrow> ip_addr list \<Rightarrow> error + checker" where
  "checker_new parse_url resolve probe cfg ips =
     (if cc_types cfg = [] then Inl NoTypes
      else
        let urls = (if cc_judges cfg = [] then default_judges else cc_judges cfg);
            judges = probe_all probe (List.map_filter (judge_parse parse_url) urls);
            mode = (if jp_empty judges then
                (case cc_liveness_url cfg of
                   Some url \<Rightarrow> (case liveness_resolve parse_url resolve url of
                      Some lt \<Rightarrow> Inr (Liveness lt) | None \<Rightarrow> Inl NoJudges)
                 | None \<Rightarrow> Inl NoJudges)
              else Inr Judged)
        in case mode of
             Inl e \<Rightarrow> Inl e
           | Inr m \<Rightarrow> Inr \<lparr>ck_judges = judges, ck_ips = ips, ck_requested = cc_types cfg, ck_post = cc_post cfg,
               ck_strict = cc_strict cfg, ck_relaxed = cc_relaxed cfg, ck_trust = cc_trust cfg,
               ck_dnsbl = cc_dnsbl cfg, ck_mode = m, ck_retry = cc_retry cfg\<rparr>)"

section \<open>Requests and responses\<close>

definition build_request :: "checker \<Rightarrow> judge_end \<Rightarrow> proto \<Rightarrow> string \<Rightarrow> string" where
  "build_request ck j pr marker =
     (let hdrs = im_insert ''Content-Length'' ''0'' (im_insert ''Connection'' ''close''
                   (im_insert ''Host'' (j_host j) (request_headers (Some marker))));
          verb = (if ck_post ck then ''POST'' else ''GET'');
          path = (if uses_full_path pr then ''http://'' @ j_host j @ j_path j else j_path j)
      in verb @ '' '' @ path @ '' HTTP/1.1'' @ crlf @ render_headers hdrs @ crlf @ crlf)"

definition build_liveness_request :: "liveness_target \<Rightarrow> proto \<Rightarrow> string" where
  "build_liveness_request lt pr =
     (let hdrs = im_insert ''Connection'' ''close'' (im_insert ''Host'' (lt_host lt) (request_headers None));
          path = (if uses_full_path pr then ''http://'' @ lt_host lt @ lt_path lt else lt_path lt)
      in ''GET '' @ path @ '' HTTP/1.1'' @ crlf @ render_headers hdrs @ crlf @ crlf)"

definition read_response :: "input \<Rightarrow> proxy_error + string" where
  "read_response i =
     (case i of (bs, e) \<Rightarrow>
        (case e of RStall \<Rightarrow> Inl Timeout | RErr \<Rightarrow> Inl Reset
         | REof \<Rightarrow> if bs = [] then Inl EmptyRecv else Inr bs))"

definition split_head_body :: "string \<Rightarrow> string \<times> string" where
  "split_head_body raw =
     (case find_sub (crlf @ crlf) raw of Some i \<Rightarrow> (take i raw, drop (i + 4) raw) | None \<Rightarrow> (raw, []))"

definition decompress :: "codec \<Rightarrow> string \<Rightarrow> string \<Rightarrow> string" where
  "decompress cd head body =
     (let encs = List.map_filter (strip_prefix ''content-encoding:'') (lines (lowercase (utf8_lossy head)));
          decoded = (case encs of [] \<Rightarrow> None
            | v # _ \<Rightarrow> if trim v = ''gzip'' then gunzip cd body
                       else if trim v = ''deflate'' then inflate cd body else None)
      in case decoded of Some s \<Rightarrow> s | None \<Rightarrow> utf8_lossy body)"

definition caps_from_content :: "string \<Rightarrow> caps" where
  "caps_from_content c = \<lparr>cookie_echo = contains ''cookie=ok'' c, referer_echo = contains ''https://www.google.com/'' c\<rparr>"

definition response_is_valid :: "string \<Rightarrow> string \<Rightarrow> bool" where
  "response_is_valid content marker \<longleftrightarrow>
     contains marker content \<and> get_all_ip content \<noteq> {}
     \<and> referer_echo (caps_from_content content) \<and> cookie_echo (caps_from_content content)"

definition anonymity_level :: "checker \<Rightarrow> string \<Rightarrow> judge_end \<Rightarrow> anon_level" where
  "anonymity_level ck content j =
     (let lower = lowercase content
      in if real_visible (ck_ips ck) (get_all_ip lower) then Transparent
         else if j_via j < count_matches ''via'' lower \<or> j_proxy j < count_matches ''proxy'' lower then Anonymous
         else High)"

definition sent_header_names :: "string list" where
  "sent_header_names = map fst (request_headers None) @ [''Host'', ''Connection'', ''Content-Length'']"

definition benign :: "string list" where
  "benign = [''host'', ''connection'', ''content-length'', ''x-forwarded-for'', ''via'']"

text \<open>Is this line of the echo a header that was not sent?\<close>

definition injected :: "string list \<Rightarrow> string \<Rightarrow> bool" where
  "injected sent line =
     (case split_once '': '' line of None \<Rightarrow> False
      | Some (raw, _) \<Rightarrow>
         (let name = lowercase (trim raw)
          in name \<noteq> [] \<and> list_all (\<lambda>c. is_alpha c \<or> is_digit c \<or> c = CHR ''-'') name
             \<and> name \<notin> set (map lowercase sent) \<and> name \<notin> set benign))"

definition assess :: "string list \<Rightarrow> string \<Rightarrow> string \<Rightarrow> trust_report" where
  "assess sent canary content =
     (if contains canary content then [] else [CanaryMismatch])
     @ (if list_ex (injected sent) (lines content) then [InjectedHeader] else [])"

section \<open>One attempt\<close>

record check_net =
  cn_net :: net
  cn_write :: "string \<Rightarrow> wres"
  cn_marker :: string
  cn_rtt :: real

record observation =
  ob_level :: "anon_level option"
  ob_caps :: caps
  ob_trust :: trust_report

definition ob_default :: observation where
  "ob_default = \<lparr>ob_level = None, ob_caps = caps_default, ob_trust = []\<rparr>"

datatype attempt_res = Working observation | Invalid

definition judge_response :: "codec \<Rightarrow> checker \<Rightarrow> proto \<Rightarrow> judge_end \<Rightarrow> string \<Rightarrow> string \<Rightarrow> string \<Rightarrow> attempt_res" where
  "judge_response cd ck pr j marker head body =
     (let content = decompress cd head body;
          valid = (if ck_relaxed ck then contains marker content \<and> get_all_ip content \<noteq> {}
                   else response_is_valid content marker)
      in if \<not> valid then Invalid
         else Working \<lparr>ob_level = (if checks_anon_level pr then Some (anonymity_level ck content j) else None),
                ob_caps = caps_from_content content,
                ob_trust = (if ck_trust ck then assess sent_header_names marker content else [])\<rparr>)"

definition test_request :: "checker \<Rightarrow> string \<Rightarrow> proto \<Rightarrow> probe \<Rightarrow> string" where
  "test_request ck marker pr pb =
     (case pb of PJudged j \<Rightarrow> build_request ck j pr marker | PLiveness lt \<Rightarrow> build_liveness_request lt pr)"

definition attempt :: "codec \<Rightarrow> checker \<Rightarrow> check_net \<Rightarrow> proto \<Rightarrow> probe \<Rightarrow> target \<Rightarrow> proxy_error + attempt_res" where
  "attempt cd ck cn pr pb t =
     (case n_dial (cn_net cn) of
        DialTimeout \<Rightarrow> Inl Timeout
      | DialRefused \<Rightarrow> Inl ConnFailed
      | Dialed \<Rightarrow>
         (case negotiate (cn_net cn) pr t None (n_in (cn_net cn)) of
            (Inl e, _) \<Rightarrow> Inl e
          | (Inr s, _) \<Rightarrow>
             if pr = Connect25 then Inr (Working ob_default)
             else (case cn_write cn (test_request ck (cn_marker cn) pr pb) of
                WStall \<Rightarrow> Inl Timeout
              | WErr \<Rightarrow> Inl Reset
              | WOk \<Rightarrow>
                 (case read_response (stream_in s) of
                    Inl e \<Rightarrow> Inl e
                  | Inr raw \<Rightarrow>
                     (let (head, body) = split_head_body raw
                      in if get_status_code head 9 12 \<noteq> 200 then Inl BadStatus
                         else (case pb of
                            PLiveness _ \<Rightarrow> Inr (Working ob_default)
                          | PJudged j \<Rightarrow> Inr (judge_response cd ck pr j (cn_marker cn) head body)))))))"

section \<open>Checking a proxy\<close>

definition probe_target :: "checker \<Rightarrow> nat \<Rightarrow> proto \<Rightarrow> (probe \<times> target) option" where
  "probe_target ck r pr =
     (case ck_mode ck of
        Judged \<Rightarrow>
          map_option (\<lambda>j. (PJudged j, \<lparr>t_host = j_host j, t_ip = j_ip j, t_port = default_port (judge_scheme_of pr)\<rparr>))
            (random_judge r (ck_judges ck) (judge_scheme_of pr))
      | Liveness lt \<Rightarrow>
          Some (PLiveness lt, \<lparr>t_host = lt_host lt, t_ip = Some (lt_ip lt), t_port = default_port (lt_scheme lt)\<rparr>))"

definition confirm :: "proto \<Rightarrow> real \<Rightarrow> observation \<Rightarrow> proxy \<Rightarrow> proxy" where
  "confirm pr rtt ob p =
     record_trust (ob_trust ob) (record_caps (ob_caps ob) (add_type pr (ob_level ob)
       (record_probe_latency rtt (record_attempt (Some rtt) None p))))"

text \<open>The retry loop: attempt number \<open>i\<close>, the second argument is how many are left. The delay
  between two attempts (\<open>backoff_for\<close>) only takes time.\<close>

fun check_loop :: "codec \<Rightarrow> checker \<Rightarrow> (nat \<Rightarrow> check_net) \<Rightarrow> proto \<Rightarrow> probe \<Rightarrow> target \<Rightarrow> nat \<Rightarrow> nat \<Rightarrow> proxy
    \<Rightarrow> bool \<times> proxy" where
  "check_loop cd ck cn pr pb t i 0 p = (False, p)"
| "check_loop cd ck cn pr pb t i (Suc r) p =
     (case attempt cd ck (cn i) pr pb t of
        Inr (Working ob) \<Rightarrow> (True, confirm pr (cn_rtt (cn i)) ob p)
      | Inr Invalid \<Rightarrow> (False, record_attempt None (Some BadResponse) p)
      | Inl e \<Rightarrow>
         (let p' = record_attempt None (Some e) p
          in if e \<in> rp_retry_on (ck_retry ck) \<and> i + 1 < rp_max_tries (ck_retry ck)
             then check_loop cd ck cn pr pb t (i + 1) r p' else (False, p')))"

definition check_one :: "codec \<Rightarrow> checker \<Rightarrow> nat \<Rightarrow> (nat \<Rightarrow> check_net) \<Rightarrow> proto \<Rightarrow> proxy \<Rightarrow> bool \<times> proxy" where
  "check_one cd ck r cn pr p =
     (case probe_target ck r pr of
        None \<Rightarrow> (False, p)
      | Some (pb, t) \<Rightarrow> check_loop cd ck cn pr pb t 0 (rp_max_tries (ck_retry ck)) p)"

definition in_dnsbl :: "(string \<Rightarrow> ip_addr option) \<Rightarrow> checker \<Rightarrow> ip_addr \<Rightarrow> bool" where
  "in_dnsbl resolve ck host \<longleftrightarrow>
     list_ex (\<lambda>q. resolve q \<noteq> None) (List.map_filter (dnsbl_query host) (ck_dnsbl ck))"

definition level_matches :: "type_spec list \<Rightarrow> proto \<Rightarrow> anon_level option \<Rightarrow> bool" where
  "level_matches req pr lvl =
     (case map_of (rev (map (\<lambda>t. (ts_proto t, ts_levels t)) req)) pr of
        None \<Rightarrow> True
      | Some None \<Rightarrow> True
      | Some (Some levels) \<Rightarrow>
          levels = [] \<or> (case lvl of Some l \<Rightarrow> l \<in> set levels | None \<Rightarrow> False))"

definition types_passed :: "checker \<Rightarrow> proxy \<Rightarrow> bool \<times> proxy" where
  "types_passed ck p =
     (if ck_requested ck = [] then (True, p)
      else if \<not> ck_strict ck then
        (list_ex (\<lambda>(pr, lvl). level_matches (ck_requested ck) pr lvl) (type_entries (p_types p)), p)
      else
        let drop = map fst (filter (\<lambda>(pr, lvl). \<not> level_matches (ck_requested ck) pr lvl) (type_entries (p_types p)));
            p' = foldl (\<lambda>p pr. remove_type pr p) p drop
        in (is_working p', p'))"

definition negotiators :: "checker \<Rightarrow> proxy \<Rightarrow> proto list" where
  "negotiators ck p =
     filter (\<lambda>pr. pr \<in> ts_proto ` set (ck_requested ck) \<and> (expected_types p = {} \<or> pr \<in> expected_types p)) proto_ALL"

fun check_each :: "(proto \<Rightarrow> proxy \<Rightarrow> bool \<times> proxy) \<Rightarrow> proto list \<Rightarrow> proxy \<Rightarrow> bool \<times> proxy" where
  "check_each one [] p = (False, p)"
| "check_each one (pr # prs) p =
     (case one pr p of (a, p1) \<Rightarrow> (case check_each one prs p1 of (b, p2) \<Rightarrow> (a \<or> b, p2)))"

definition check :: "codec \<Rightarrow> (string \<Rightarrow> ip_addr option) \<Rightarrow> checker \<Rightarrow> (proto \<Rightarrow> nat) \<Rightarrow> (proto \<Rightarrow> nat \<Rightarrow> check_net)
    \<Rightarrow> proxy \<Rightarrow> bool \<times> proxy" where
  "check cd resolve ck rnd cn p =
     (if ck_dnsbl ck \<noteq> [] \<and> in_dnsbl resolve ck (p_host p) then (False, p)
      else case check_each (\<lambda>pr. check_one cd ck (rnd pr) (cn pr) pr) (negotiators ck p) p of
        (any, p') \<Rightarrow> if any then types_passed ck p' else (False, p'))"

section \<open>Facts\<close>

lemma confirm_simps [simp]:
  "p_types (confirm pr rtt ob p) = (p_types p)(pr \<mapsto> ob_level ob)" "p_requests (confirm pr rtt ob p) = p_requests p + 1"
  "p_addr (confirm pr rtt ob p) = p_addr p"
  by (simp_all add: confirm_def record_trust_def record_caps_def add_type_def record_probe_latency_def)

lemma check_loop_spec:
  assumes "r \<le> rp_max_tries (ck_retry ck) - i"
  shows "\<exists>k \<le> r. p_requests (snd (check_loop cd ck cn pr pb t i r p)) = p_requests p + of_nat k
    \<and> (\<forall>m < k - 1. \<exists>e \<in> rp_retry_on (ck_retry ck). attempt cd ck (cn (i + m)) pr pb t = Inl e)
    \<and> (fst (check_loop cd ck cn pr pb t i r p) \<longrightarrow>
        (\<exists>ob. 0 < k \<and> attempt cd ck (cn (i + (k - 1))) pr pb t = Inr (Working ob)
          \<and> p_types (snd (check_loop cd ck cn pr pb t i r p)) = (p_types p)(pr \<mapsto> ob_level ob)))
    \<and> (\<not> fst (check_loop cd ck cn pr pb t i r p) \<longrightarrow>
        p_types (snd (check_loop cd ck cn pr pb t i r p)) = p_types p)"
  using assms
proof (induction r arbitrary: i p)
  case 0
  then show ?case by simp
next
  case (Suc r)
  show ?case
  proof (cases "attempt cd ck (cn i) pr pb t")
    case (Inr a)
    then show ?thesis by (cases a) (auto intro!: exI[of _ "Suc 0"])
  next
    case (Inl e)
    let ?p = "record_attempt None (Some e) p"
    show ?thesis
    proof (cases "e \<in> rp_retry_on (ck_retry ck) \<and> i + 1 < rp_max_tries (ck_retry ck)")
      case False
      with Inl show ?thesis by (auto intro!: exI[of _ "Suc 0"])
    next
      case True
      let ?c = "check_loop cd ck cn pr pb t (i + 1) r ?p"
      have "r \<le> rp_max_tries (ck_retry ck) - (i + 1)" using Suc.prems by simp
      from Suc.IH[OF this, of ?p] obtain k where k: "k \<le> r" "p_requests (snd ?c) = p_requests ?p + of_nat k"
        "\<forall>m < k - 1. \<exists>e \<in> rp_retry_on (ck_retry ck). attempt cd ck (cn (i + 1 + m)) pr pb t = Inl e"
        "fst ?c \<longrightarrow> (\<exists>ob. 0 < k \<and> attempt cd ck (cn (i + 1 + (k - 1))) pr pb t = Inr (Working ob)
          \<and> p_types (snd ?c) = (p_types ?p)(pr \<mapsto> ob_level ob))"
        "\<not> fst ?c \<longrightarrow> p_types (snd ?c) = p_types ?p" by blast
      have c: "check_loop cd ck cn pr pb t i (Suc r) p = ?c" using Inl True by simp
      have "\<exists>e \<in> rp_retry_on (ck_retry ck). attempt cd ck (cn (i + m)) pr pb t = Inl e" if "m < Suc k - 1" for m
      proof (cases m)
        case 0
        with Inl True show ?thesis by auto
      next
        case (Suc m')
        with that k(3) show ?thesis by (metis Suc_less_eq add.assoc diff_Suc_1 less_diff_conv plus_1_eq_Suc add.commute)
      qed
      then show ?thesis unfolding c
        using k by (intro exI[of _ "Suc k"]) (auto simp: ac_simps fun_upd_def)
    qed
  qed
qed


lemma check_each_types:
  assumes "\<And>pr p. if fst (one pr p) then \<exists>l. p_types (snd (one pr p)) = (p_types p)(pr \<mapsto> l)
      else p_types (snd (one pr p)) = p_types p"
  shows "(fst (check_each one prs p) \<longrightarrow> (\<exists>pr \<in> set prs. p_types (snd (check_each one prs p)) pr \<noteq> None))
    \<and> (\<forall>pr. p_types p pr \<noteq> None \<longrightarrow> p_types (snd (check_each one prs p)) pr \<noteq> None)
    \<and> (\<forall>pr. pr \<notin> set prs \<longrightarrow> p_types (snd (check_each one prs p)) pr = p_types p pr)"
proof (induction prs arbitrary: p)
  case (Cons pr prs)
  let ?p1 = "snd (one pr p)"
  have s: "check_each one (pr # prs) p = (fst (one pr p) \<or> fst (check_each one prs ?p1), snd (check_each one prs ?p1))"
    by (simp split: prod.split)
  have keep: "p_types p q \<noteq> None \<Longrightarrow> p_types ?p1 q \<noteq> None" and new: "fst (one pr p) \<Longrightarrow> p_types ?p1 pr \<noteq> None"
    and oth: "q \<noteq> pr \<Longrightarrow> p_types ?p1 q = p_types p q" for q
    using assms[of pr p] by (auto split: if_splits)
  show ?case unfolding s using Cons[of ?p1] keep new oth by auto
qed simp

lemma check_one_types:
  "if fst (check_one cd ck r cn pr p) then \<exists>l. p_types (snd (check_one cd ck r cn pr p)) = (p_types p)(pr \<mapsto> l)
   else p_types (snd (check_one cd ck r cn pr p)) = p_types p"
proof (cases "probe_target ck r pr")
  case None
  then show ?thesis by (simp add: check_one_def)
next
  case (Some x)
  then show ?thesis
    using check_loop_spec[of "rp_max_tries (ck_retry ck)" ck 0 cd cn pr "fst x" "snd x" p]
    by (auto simp: check_one_def split: prod.split) metis
qed

lemma level_matches_accepts:
  assumes "level_matches req pr lvl" "map_of (rev (map (\<lambda>t. (ts_proto t, ts_levels t)) req)) pr = Some lv" "lv \<noteq> Some []"
  shows "ts_accepts \<lparr>ts_proto = pr, ts_levels = lv\<rparr> pr lvl"
  using assms by (cases lv) (auto simp: level_matches_def ts_accepts_def split: option.splits)

lemma foldl_remove: "p_types (foldl (\<lambda>p pr. remove_type pr p) p prs) pr = (if pr \<in> set prs then None else p_types p pr)"
  by (induction prs arbitrary: p) (auto simp: remove_type_def)

lemma types_passed_strict:
  assumes "ck_requested ck \<noteq> []" "ck_strict ck"
  shows "p_types (snd (types_passed ck p)) pr =
    (case p_types p pr of Some l \<Rightarrow> if level_matches (ck_requested ck) pr l then Some l else None | None \<Rightarrow> None)"
    "fst (types_passed ck p) \<longleftrightarrow> is_working (snd (types_passed ck p))"
proof -
  let ?d = "map fst (filter (\<lambda>(pr, lvl). \<not> level_matches (ck_requested ck) pr lvl) (type_entries (p_types p)))"
  have d: "pr \<in> set ?d \<longleftrightarrow> (\<exists>l. p_types p pr = Some l \<and> \<not> level_matches (ck_requested ck) pr l)"
    by (force simp: type_entries_iff)
  show "p_types (snd (types_passed ck p)) pr =
    (case p_types p pr of Some l \<Rightarrow> if level_matches (ck_requested ck) pr l then Some l else None | None \<Rightarrow> None)"
    using assms d by (auto simp: types_passed_def Let_def foldl_remove split: option.splits)
  show "fst (types_passed ck p) \<longleftrightarrow> is_working (snd (types_passed ck p))"
    using assms by (simp add: types_passed_def Let_def)
qed

lemma check_true:
  assumes "fst (check cd resolve ck rnd cn p)" "ck_requested ck \<noteq> []"
  shows "let p' = snd (check cd resolve ck rnd cn p)
    in is_working p'
    \<and> (\<exists>pr l. p_types p' pr = Some l \<and> level_matches (ck_requested ck) pr l)
    \<and> (ck_strict ck \<longrightarrow> (\<forall>pr l. p_types p' pr = Some l \<longrightarrow> level_matches (ck_requested ck) pr l))"
proof -
  define p' where "p' = snd (check cd resolve ck rnd cn p)"
  define q where "q = snd (check_each (\<lambda>pr. check_one cd ck (rnd pr) (cn pr) pr) (negotiators ck p) p)"
  have c: "check cd resolve ck rnd cn p = types_passed ck q" and t: "fst (types_passed ck q)"
    using assms(1) by (auto simp: check_def q_def split: if_splits prod.splits)
  have "is_working p' \<and> (\<exists>pr l. p_types p' pr = Some l \<and> level_matches (ck_requested ck) pr l)
    \<and> (ck_strict ck \<longrightarrow> (\<forall>pr l. p_types p' pr = Some l \<longrightarrow> level_matches (ck_requested ck) pr l))"
  proof (cases "ck_strict ck")
    case True
    note s = types_passed_strict[OF assms(2) True, of q]
    have w: "is_working p'" using s(2) t c by (simp add: p'_def)
    have "\<forall>pr l. p_types p' pr = Some l \<longrightarrow> level_matches (ck_requested ck) pr l"
      unfolding p'_def c using s(1) by (auto split: option.splits if_splits)
    with w show ?thesis unfolding is_working_iff by auto
  next
    case False
    then obtain pr l where "p_types q pr = Some l" "level_matches (ck_requested ck) pr l"
      using t assms(2) by (auto simp: types_passed_def list_ex_iff type_entries_iff)
    moreover have "p' = q" using False assms(2) c by (simp add: p'_def types_passed_def)
    ultimately show ?thesis using False by (auto simp: is_working_iff)
  qed
  then show ?thesis unfolding p'_def Let_def .
qed

lemma confirm_geo [simp]: "p_geo (confirm pr rtt ob p) = p_geo p"
  "p_host (confirm pr rtt ob p) = p_host p" "p_port (confirm pr rtt ob p) = p_port p"
  by (simp_all add: confirm_def record_trust_def record_caps_def add_type_def record_probe_latency_def)

lemma check_loop_keeps: "p_addr (snd (check_loop cd ck cn pr pb t i r p)) = p_addr p
    \<and> p_geo (snd (check_loop cd ck cn pr pb t i r p)) = p_geo p"
  by (induction cd ck cn pr pb t i r p rule: check_loop.induct)
    (auto simp: Let_def split: sum.splits attempt_res.splits)

lemma check_one_keeps: "p_addr (snd (check_one cd ck r cn pr p)) = p_addr p \<and> p_geo (snd (check_one cd ck r cn pr p)) = p_geo p"
  using check_loop_keeps by (auto simp: check_one_def split: option.splits prod.splits)

lemma check_each_keeps:
  assumes "\<And>pr p. p_addr (snd (one pr p)) = p_addr p \<and> p_geo (snd (one pr p)) = p_geo p"
  shows "p_addr (snd (check_each one prs p)) = p_addr p \<and> p_geo (snd (check_each one prs p)) = p_geo p"
proof (induction prs arbitrary: p)
  case (Cons pr prs)
  with assms[of pr p] show ?case by (auto split: prod.splits) (metis snd_conv)+
qed simp

lemma foldl_remove_keeps: "p_addr (foldl (\<lambda>p pr. remove_type pr p) p prs) = p_addr p
    \<and> p_geo (foldl (\<lambda>p pr. remove_type pr p) p prs) = p_geo p"
  by (induction prs arbitrary: p) (auto simp: remove_type_def)

text \<open>A check never changes which proxy it is about.\<close>

lemma check_keeps: "p_addr (snd (check cd resolve ck rnd cn p)) = p_addr p
    \<and> p_geo (snd (check cd resolve ck rnd cn p)) = p_geo p"
proof -
  define r where "r = check_each (\<lambda>pr. check_one cd ck (rnd pr) (cn pr) pr) (negotiators ck p) p"
  have "p_addr (snd r) = p_addr p \<and> p_geo (snd r) = p_geo p"
    unfolding r_def by (rule check_each_keeps) (rule check_one_keeps)
  moreover have "p_addr (snd (types_passed ck q)) = p_addr q \<and> p_geo (snd (types_passed ck q)) = p_geo q" for q
    using foldl_remove_keeps by (simp add: types_passed_def Let_def)
  ultimately show ?thesis by (auto simp: check_def simp flip: r_def split: prod.split)
qed

text \<open>A proxy that passes the check is working, and for at least one of its confirmed protocols the
  level is one that was asked for; under \<open>--strict\<close> this holds for every protocol that it still
  has.\<close>

theorem check_passes:
  assumes "fst (check cd resolve ck rnd cn p)" "ck_requested ck \<noteq> []"
  shows "let p' = snd (check cd resolve ck rnd cn p)
    in is_working p'
    \<and> (\<exists>pr l. p_types p' pr = Some l \<and> level_matches (ck_requested ck) pr l)
    \<and> (ck_strict ck \<longrightarrow> (\<forall>pr l. p_types p' pr = Some l \<longrightarrow> level_matches (ck_requested ck) pr l))"
  using assms by (rule check_true)

definition sample_checker :: checker where
  "sample_checker = \<lparr>ck_judges = \<lparr>jp_http = [], jp_https = [], jp_smtp = []\<rparr>, ck_ips = [], ck_requested = [ts_any Http],
     ck_post = False, ck_strict = True, ck_relaxed = True, ck_trust = False, ck_dnsbl = [],
     ck_mode = Liveness \<lparr>lt_host = ''h'', lt_path = ''/'', lt_ip = V4 1 1 1 1, lt_scheme = JHttp\<rparr>, ck_retry = retry_default\<rparr>"

definition sample_codec :: codec where
  "sample_codec = \<lparr>gunzip = (\<lambda>_. None), inflate = (\<lambda>_. None)\<rparr>"

definition sample_check_net :: "string \<Rightarrow> check_net" where
  "sample_check_net body = \<lparr>cn_net = sample_net (''HTTP/1.1 200 OK'' @ crlf @ crlf @ body), cn_write = (\<lambda>_. WOk),
     cn_marker = ''m'', cn_rtt = 1/4\<rparr>"

lemma sample_head: "split_head_body (''HTTP/1.1 200 OK'' @ crlf @ crlf @ body) = (''HTTP/1.1 200 OK'', body)"
  by (simp add: split_head_body_def starts_with_def crlf_def CR_def LF_def)

lemma sample_status: "get_status_code ''HTTP/1.1 200 OK'' 9 12 = 200"
  by (simp add: get_status_code_def str_eval)

lemma sample_read: "read_response (n_in (sample_net (''HTTP/1.1 200 OK'' @ crlf @ crlf @ body)))
    = Inr (''HTTP/1.1 200 OK'' @ crlf @ crlf @ body)"
  by (simp add: read_response_def sample_net_def)

lemma sample_attempt:
  "attempt cd ck (sample_check_net body) Http pb t =
    (case pb of PLiveness _ \<Rightarrow> Inr (Working ob_default)
     | PJudged j \<Rightarrow> Inr (judge_response cd ck Http j ''m'' ''HTTP/1.1 200 OK'' body))"
  using sample_head[of body] sample_read[of body]
  by (simp add: attempt_def sample_check_net_def negotiate_def sample_net_def sample_status Let_def
      split: probe.split)

theorem check_passes_witness:
  "let p' = snd (check sample_codec (\<lambda>_. None) sample_checker (\<lambda>_. 0) (\<lambda>_ _. sample_check_net []) (proxy_new (V4 1 2 3 4) 80 {}))
   in is_working p'
    \<and> (\<exists>pr l. p_types p' pr = Some l \<and> level_matches (ck_requested sample_checker) pr l)
    \<and> (ck_strict sample_checker \<longrightarrow> (\<forall>pr l. p_types p' pr = Some l \<longrightarrow> level_matches (ck_requested sample_checker) pr l))"
proof (rule check_passes)
  let ?p = "proxy_new (V4 1 2 3 4) 80 {}"
  let ?q = "confirm Http (1/4) ob_default ?p"
  have c: "check_one sample_codec sample_checker 0 (\<lambda>_. sample_check_net []) Http ?p = (True, ?q)"
    by (simp add: check_one_def probe_target_def sample_checker_def retry_default_def numeral_3_eq_3 sample_attempt)
      (simp add: sample_check_net_def)
  have n: "negotiators sample_checker ?p = [Http]"
    by (simp add: negotiators_def sample_checker_def proto_ALL_def ts_any_def proxy_new_def)
  have "level_matches [ts_any Http] pr l" for pr l
    by (simp add: level_matches_def ts_any_def)
  moreover have ck: "ck_requested sample_checker = [ts_any Http]" "ck_strict sample_checker" "ck_dnsbl sample_checker = []"
    by (simp_all add: sample_checker_def)
  ultimately have "fst (types_passed sample_checker ?q)"
    by (simp add: types_passed_strict is_working_iff exI[of _ Http])
  with c n show "fst (check sample_codec (\<lambda>_. None) sample_checker (\<lambda>_. 0) (\<lambda>_ _. sample_check_net []) ?p)"
    using ck by (simp add: check_def)
  show "ck_requested sample_checker \<noteq> []" by (simp add: sample_checker_def)
qed

text \<open>C38. A proxy is rated \<open>High\<close> only on the evidence of a page that came through it: the page has the
  marker of this very request and at least one address, none of the real external addresses, and no
  more mentions of \<open>via\<close> and \<open>proxy\<close> than the judge's own baseline.\<close>

theorem high_rating_evidence:
  assumes "attempt cd ck cn Http (PJudged j) t = Inr (Working ob)" "ob_level ob = Some High"
  shows "\<exists>h b content. split_head_body (fst (n_in (cn_net cn))) = (h, b) \<and> content = decompress cd h b
    \<and> contains (cn_marker cn) content
    \<and> get_all_ip content \<noteq> {} \<and> \<not> real_visible (ck_ips ck) (get_all_ip (lowercase content))
    \<and> count_matches ''via'' (lowercase content) \<le> j_via j
    \<and> count_matches ''proxy'' (lowercase content) \<le> j_proxy j"
proof -
  obtain raw h b where r: "read_response (n_in (cn_net cn)) = Inr raw" "split_head_body raw = (h, b)"
    and w: "judge_response cd ck Http j (cn_marker cn) h b = Working ob"
    using assms(1) by (auto simp: attempt_def negotiate_def split: dial_res.splits wres.splits sum.splits
        prod.splits if_splits)
  have raw: "raw = fst (n_in (cn_net cn))"
    using r(1) by (auto simp: read_response_def split: prod.splits rend.splits if_splits)
  let ?c = "decompress cd h b"
  have v: "contains (cn_marker cn) ?c" "get_all_ip ?c \<noteq> {}"
    and l: "anonymity_level ck ?c j = High"
    using w assms(2) by (auto simp: judge_response_def response_is_valid_def checks_anon_level_def Let_def split: if_splits)
  have "\<not> real_visible (ck_ips ck) (get_all_ip (lowercase ?c))"
    "count_matches ''via'' (lowercase ?c) \<le> j_via j" "count_matches ''proxy'' (lowercase ?c) \<le> j_proxy j"
    using l by (auto simp: anonymity_level_def Let_def split: if_splits)
  with v r(2) raw show ?thesis by blast
qed

definition sample_judge :: judge_end where
  "sample_judge = \<lparr>j_url = ''http://j/'', j_scheme = JHttp, j_host = ''j'', j_path = ''/'', j_ip = None, j_via = 0, j_proxy = 0\<rparr>"

definition sample_page :: string where
  "sample_page = show_v4 1 2 3 4 @ ''m''"

lemma sample_page_lit: "sample_page = [digit 1] @ ''.'' @ [digit 2] @ ''.'' @ [digit 3] @ ''.'' @ [digit 4] @ ''m''"
  by (simp add: sample_page_def show_v4_def show_word_def show_nat.simps)

lemma sample_page_facts: "ascii sample_page" "contains ''m'' sample_page" "get_all_ip sample_page \<noteq> {}"
  "count_matches ''via'' (lowercase sample_page) = 0" "count_matches ''proxy'' (lowercase sample_page) = 0"
proof -
  have d: "of_char (digit k) = 48 + k" if "k < 10" for k using that by simp
  show "ascii sample_page" by (simp add: sample_page_lit ascii_def between_def)
  show "contains ''m'' sample_page" by (simp add: sample_page_lit contains_def starts_with_def)
  have "find_re ipv4_re sample_page = Some (0, length (show_v4 1 2 3 4))"
    unfolding sample_page_def using ipv4_v4[of "''m''" 1 2 3 4] by (subst find_re.simps) (auto simp: is_digit_def)
  then have "matches ipv4_re sample_page \<noteq> []" by (simp add: matches_def)
  then show "get_all_ip sample_page \<noteq> {}" by (simp add: get_all_ip_def)
  have "find_sub ''via'' (lowercase sample_page) = None" "find_sub ''proxy'' (lowercase sample_page) = None"
    by (simp_all add: sample_page_lit lowercase_def to_lower_def starts_with_def)
  then show "count_matches ''via'' (lowercase sample_page) = 0" "count_matches ''proxy'' (lowercase sample_page) = 0"
    by (subst count_matches.simps, simp)+
qed

lemma sample_high: "attempt sample_codec sample_checker (sample_check_net sample_page) Http (PJudged sample_judge) t
    = Inr (Working \<lparr>ob_level = Some High, ob_caps = caps_from_content sample_page, ob_trust = []\<rparr>)"
proof -
  have "ascii ''HTTP/1.1 200 OK''" by (simp add: ascii_def between_def)
  then have "lines (lowercase (utf8_lossy ''HTTP/1.1 200 OK'')) = [''http/1.1 200 ok'']"
    unfolding utf8_lossy_ascii[OF \<open>ascii ''HTTP/1.1 200 OK''\<close>] by code_simp
  moreover have "strip_prefix ''content-encoding:'' ''http/1.1 200 ok'' = None"
    by (simp add: strip_prefix_def starts_with_def)
  ultimately have "decompress sample_codec ''HTTP/1.1 200 OK'' sample_page = sample_page"
    by (simp add: decompress_def utf8_lossy_ascii[OF sample_page_facts(1)] map_filter_def)
  then show ?thesis
    using sample_page_facts by (simp add: sample_attempt judge_response_def sample_checker_def checks_anon_level_def
        anonymity_level_def real_visible_def sample_judge_def Let_def)
qed

theorem high_rating_evidence_witness:
  "\<exists>h b content. split_head_body (fst (n_in (cn_net (sample_check_net sample_page)))) = (h, b)
    \<and> content = decompress sample_codec h b \<and> contains (cn_marker (sample_check_net sample_page)) content
    \<and> get_all_ip content \<noteq> {} \<and> \<not> real_visible (ck_ips sample_checker) (get_all_ip (lowercase content))
    \<and> count_matches ''via'' (lowercase content) \<le> j_via sample_judge
    \<and> count_matches ''proxy'' (lowercase content) \<le> j_proxy sample_judge"
  by (rule high_rating_evidence[OF sample_high]) simp

text \<open>With a cap on the delay, every delay before a retry is defined and within the cap, whatever
  the factor, the jitter, the random number and the number of the retry.\<close>

theorem backoff_capped:
  assumes "0 < rp_max_backoff rp" "as_secs_f64 (rp_max_backoff rp) < 2 ^ 64"
  shows "\<exists>d. backoff_for rp r i = Some d \<and> d \<le> rp_max_backoff rp"
proof (cases "rp_backoff rp = 0")
  case True
  then show ?thesis by (simp add: backoff_for_def)
next
  case False
  define x where "x = as_secs_f64 (rp_backoff rp) * rp_factor rp ^ i"
  define y where "y = (if 0 < rp_jitter rp then x * (1 + rp_jitter rp * r) else x)"
  have "as_secs_f64 0 \<le> max (min y (as_secs_f64 (rp_max_backoff rp))) 0"
    "max (min y (as_secs_f64 (rp_max_backoff rp))) 0 \<le> as_secs_f64 (rp_max_backoff rp)"
    by (simp_all add: as_secs_f64_def)
  from from_secs_f64_between[OF this assms(2)] obtain d where
    "from_secs_f64 (max (min y (as_secs_f64 (rp_max_backoff rp))) 0) = Some d" "d \<le> rp_max_backoff rp" by metis
  moreover have "backoff_for rp r i = from_secs_f64 (max (min y (as_secs_f64 (rp_max_backoff rp))) 0)"
    using False assms(1) by (simp add: backoff_for_def Let_def x_def y_def)
  ultimately show ?thesis by simp
qed

theorem backoff_capped_witness:
  "\<exists>d. backoff_for (retry_default\<lparr>rp_backoff := 500, rp_factor := 2, rp_jitter := 1/2, rp_max_backoff := 1000\<rparr>) 1 40 = Some d
    \<and> d \<le> rp_max_backoff (retry_default\<lparr>rp_backoff := 500, rp_factor := 2, rp_jitter := 1/2, rp_max_backoff := 1000\<rparr>)"
  by (rule backoff_capped) (simp_all add: as_secs_f64_def)

end
