(* ===== verification/Check_Stream.thy ===== *)
theory Check_Stream
  imports Checker
begin

text \<open>
  The concurrent checking pipeline \<^verbatim>\<open>check_stream\<close> of \<^verbatim>\<open>src/src/broker.rs\<close>, shared by \<^verbatim>\<open>find\<close> and
  \<^verbatim>\<open>check\<close>: the loop that pulls proxies and takes a permit, the spawned check tasks, the atomic count
  of emitted proxies, the bounded channel, the consumer, and the cancellation token.

  An action is what one of these parties does between two points where another may run: the loop
  (\<open>Pull\<close>, \<open>Acquire\<close>, \<open>Finish\<close>), the \<open>k\<close>-th live task (\<open>Task\<close>, or \<open>Abort\<close> when the token has fired
  while it is still checking), the consumer (\<open>Recv\<close>, \<open>DropRx\<close> and the drop guard \<open>DropGuard\<close>). Any
  interleaving of the actors is a list of actions. The semaphore's permits and the task tracker's
  count are the number of live tasks. The outcome of a check is an argument, by the position of the
  proxy in the source.
\<close>

section \<open>State\<close>

record caps_filter =
  cf_cookie :: bool
  cf_referer :: bool
  cf_connect25 :: bool
  cf_trusted :: bool

definition passes :: "caps_filter \<Rightarrow> proxy \<Rightarrow> bool" where
  "passes f p \<longleftrightarrow>
     (let c = capabilities_of p
      in (\<not> cf_cookie f \<or> cp_cookie_echo c) \<and> (\<not> cf_referer f \<or> cp_referer_echo c)
         \<and> (\<not> cf_connect25 f \<or> cp_connect25 c) \<and> (\<not> cf_trusted f \<or> trusted (p_trust p)))"

record cs_env =
  ce_check :: "nat \<Rightarrow> proxy \<Rightarrow> bool \<times> proxy"
  ce_max_conn :: nat
  ce_limit :: "nat option"
  ce_caps :: caps_filter
  ce_observer :: bool

datatype task = Checking nat proxy | Recorded bool proxy | Observed bool proxy | Reserved nat proxy | Sent nat

datatype phase = Pulling | Acquiring nat proxy | Draining | Ended

record cs_state =
  cs_phase :: phase
  cs_source :: "(nat \<times> proxy) list"
  cs_tasks :: "task list"
  cs_sent :: nat
  cs_out :: "proxy list"
  cs_got :: nat
  cs_cancel :: bool
  cs_gone :: bool
  cs_stats :: "proxy list"
  cs_seen :: "proxy list"

datatype act = Pull | Acquire | Finish | Task nat | Abort nat | Recv | DropRx | DropGuard

definition channel_capacity :: nat where
  "channel_capacity = 256"

definition cs_init :: "proxy list \<Rightarrow> cs_state" where
  "cs_init ps = \<lparr>cs_phase = Pulling, cs_source = enumerate 0 ps, cs_tasks = [], cs_sent = 0, cs_out = [],
     cs_got = 0, cs_cancel = False, cs_gone = False, cs_stats = [], cs_seen = []\<rparr>"

section \<open>Steps\<close>

text \<open>\<open>is_limit_reached\<close> of a value of the counter.\<close>

definition is_limit_reached :: "nat option \<Rightarrow> nat \<Rightarrow> bool" where
  "is_limit_reached bound n = (case bound of None \<Rightarrow> False | Some l \<Rightarrow> l \<le> n)"

text \<open>The next step of a check task: what is left of the task, and the shared state; \<open>None\<close> while
  the send waits for room in the channel.\<close>

fun task_next :: "cs_env \<Rightarrow> task \<Rightarrow> cs_state \<Rightarrow> (task list \<times> cs_state) option" where
  "task_next e (Checking i p) s =
     (case ce_check e i p of (w, p') \<Rightarrow> Some ([Recorded w p'], s\<lparr>cs_stats := cs_stats s @ [p']\<rparr>))"
| "task_next e (Recorded w p) s =
     Some ([Observed w p], if ce_observer e then s\<lparr>cs_seen := cs_seen s @ [p]\<rparr> else s)"
| "task_next e (Observed w p) s =
     (if w \<and> passes (ce_caps e) p then Some ([Reserved (cs_sent s) p], s\<lparr>cs_sent := cs_sent s + 1\<rparr>)
      else Some ([], s))"
| "task_next e (Reserved n p) s =
     (if is_limit_reached (ce_limit e) n then Some ([], s\<lparr>cs_cancel := True\<rparr>)
      else if cs_gone s then Some ([Sent n], s)
      else if length (cs_out s) - cs_got s < channel_capacity
      then Some ([Sent n], s\<lparr>cs_out := cs_out s @ [p]\<rparr>) else None)"
| "task_next e (Sent n) s =
     Some ([], if is_limit_reached (ce_limit e) (n + 1) then s\<lparr>cs_cancel := True\<rparr> else s)"

fun cs_exec :: "cs_env \<Rightarrow> act \<Rightarrow> cs_state \<Rightarrow> cs_state option" where
  "cs_exec e Pull s =
     (if cs_phase s \<noteq> Pulling then None
      else case cs_source s of
        [] \<Rightarrow> Some (s\<lparr>cs_phase := Draining\<rparr>)
      | (i, p) # xs \<Rightarrow>
         Some (s\<lparr>cs_source := xs,
           cs_phase := (if cs_cancel s \<or> is_limit_reached (ce_limit e) (cs_sent s) then Draining else Acquiring i p)\<rparr>))"
| "cs_exec e Acquire s =
     (case cs_phase s of
        Acquiring i p \<Rightarrow>
          if length (cs_tasks s) < ce_max_conn e
          then Some (s\<lparr>cs_tasks := cs_tasks s @ [Checking i p], cs_phase := Pulling\<rparr>) else None
      | _ \<Rightarrow> None)"
| "cs_exec e Finish s =
     (if cs_phase s = Draining \<and> cs_tasks s = [] then Some (s\<lparr>cs_phase := Ended\<rparr>) else None)"
| "cs_exec e (Task k) s =
     (if k < length (cs_tasks s) then
        (case task_next e (cs_tasks s ! k) s of
           None \<Rightarrow> None
         | Some (ts, s') \<Rightarrow> Some (s'\<lparr>cs_tasks := take k (cs_tasks s) @ ts @ drop (Suc k) (cs_tasks s)\<rparr>))
      else None)"
| "cs_exec e (Abort k) s =
     (if cs_cancel s \<and> k < length (cs_tasks s) then
        (case cs_tasks s ! k of Checking _ _ \<Rightarrow> Some (s\<lparr>cs_tasks := vec_remove k (cs_tasks s)\<rparr>) | _ \<Rightarrow> None)
      else None)"
| "cs_exec e Recv s =
     (if \<not> cs_gone s \<and> cs_got s < length (cs_out s) then Some (s\<lparr>cs_got := cs_got s + 1\<rparr>) else None)"
| "cs_exec e DropRx s = (if cs_gone s then None else Some (s\<lparr>cs_gone := True\<rparr>))"
| "cs_exec e DropGuard s = (if cs_gone s \<and> \<not> cs_cancel s then Some (s\<lparr>cs_cancel := True\<rparr>) else None)"

text \<open>A run of the pipeline: the interleaving is the list of actions.\<close>

fun cs_run :: "cs_env \<Rightarrow> act list \<Rightarrow> cs_state \<Rightarrow> cs_state option" where
  "cs_run e [] s = Some s"
| "cs_run e (a # as) s = (case cs_exec e a s of None \<Rightarrow> None | Some s' \<Rightarrow> cs_run e as s')"

section \<open>Conservation\<close>

text \<open>What a source item contributes to the output and to the statistics, once checked.\<close>

definition good :: "cs_env \<Rightarrow> bool \<Rightarrow> proxy \<Rightarrow> proxy multiset" where
  "good e w p = (if w \<and> passes (ce_caps e) p then {#p#} else {#})"

definition outcome :: "cs_env \<Rightarrow> nat \<times> proxy \<Rightarrow> proxy" where
  "outcome e x = snd (ce_check e (fst x) (snd x))"

definition good_outcome :: "cs_env \<Rightarrow> nat \<times> proxy \<Rightarrow> proxy multiset" where
  "good_outcome e x = good e (fst (ce_check e (fst x) (snd x))) (outcome e x)"

text \<open>The same for the items that are on their way.\<close>

fun task_good :: "cs_env \<Rightarrow> task \<Rightarrow> proxy multiset" where
  "task_good e (Checking i p) = good_outcome e (i, p)"
| "task_good e (Recorded w p) = good e w p"
| "task_good e (Observed w p) = good e w p"
| "task_good e (Reserved n p) = {#p#}"
| "task_good e (Sent n) = {#}"

fun task_checks :: "cs_env \<Rightarrow> task \<Rightarrow> proxy multiset" where
  "task_checks e (Checking i p) = {#outcome e (i, p)#}"
| "task_checks e _ = {#}"

fun phase_item :: "phase \<Rightarrow> (nat \<times> proxy) list" where
  "phase_item (Acquiring i p) = [(i, p)]"
| "phase_item _ = []"

definition pending :: "cs_state \<Rightarrow> (nat \<times> proxy) list" where
  "pending s = phase_item (cs_phase s) @ cs_source s"

definition goods :: "cs_env \<Rightarrow> cs_state \<Rightarrow> proxy multiset" where
  "goods e s = mset (cs_out s) + sum_list (map (task_good e) (cs_tasks s))
     + sum_list (map (good_outcome e) (pending s))"

definition checks :: "cs_env \<Rightarrow> cs_state \<Rightarrow> proxy multiset" where
  "checks e s = mset (cs_stats s) + sum_list (map (task_checks e) (cs_tasks s))
     + mset (map (outcome e) (pending s))"

text \<open>Is the task about to send, under the limit?\<close>

fun sending :: "cs_env \<Rightarrow> task \<Rightarrow> nat" where
  "sending e (Reserved n p) = (if is_limit_reached (ce_limit e) n then 0 else 1)"
| "sending e _ = 0"

definition capped :: "cs_env \<Rightarrow> nat \<Rightarrow> nat" where
  "capped e n = (case ce_limit e of None \<Rightarrow> n | Some l \<Rightarrow> min n l)"

fun below :: "nat \<Rightarrow> task \<Rightarrow> bool" where
  "below m (Reserved n p) = (n < m)"
| "below m (Sent n) = (n < m)"
| "below m _ = True"

definition in_flight :: "cs_env \<Rightarrow> cs_state \<Rightarrow> nat" where
  "in_flight e s = length (cs_out s) + sum_list (map (sending e) (cs_tasks s))"

text \<open>The invariant of the pipeline: no more tasks than permits; reserved slots are below the
  counter; what was sent and what is about to be sent is within the limit, and exactly the capped
  counter while the consumer is there; the token has fired only because the consumer left or the limit
  was reached.\<close>

definition cs_inv :: "cs_env \<Rightarrow> cs_state \<Rightarrow> bool" where
  "cs_inv e s \<longleftrightarrow> length (cs_tasks s) \<le> ce_max_conn e \<and> list_all (below (cs_sent s)) (cs_tasks s)
     \<and> in_flight e s \<le> capped e (cs_sent s) \<and> (\<not> cs_gone s \<longrightarrow> in_flight e s = capped e (cs_sent s))
     \<and> (cs_cancel s \<longrightarrow> cs_gone s \<or> is_limit_reached (ce_limit e) (cs_sent s)) \<and> cs_got s \<le> length (cs_out s)"

lemma limit_mono: "is_limit_reached b n \<Longrightarrow> n \<le> m \<Longrightarrow> is_limit_reached b m"
  by (auto simp: is_limit_reached_def split: option.splits)

lemma capped_Suc: "capped e (Suc n) = capped e n + (if is_limit_reached (ce_limit e) n then 0 else 1)"
  by (auto simp: capped_def is_limit_reached_def split: option.splits)

lemma below_mono: "below m t \<Longrightarrow> m \<le> n \<Longrightarrow> below n t"
  by (cases t) auto

lemma task_next_cases:
  assumes "task_next e t s = Some (ts, s')"
  shows "length ts \<le> 1 \<and> cs_tasks s' = cs_tasks s \<and> cs_phase s' = cs_phase s \<and> cs_source s' = cs_source s
    \<and> cs_gone s' = cs_gone s \<and> cs_got s' = cs_got s \<and> cs_sent s \<le> cs_sent s'"
  using assms by (cases t) (auto split: if_splits prod.splits)

lemma task_next_inv:
  assumes "task_next e t s = Some (ts, s')" "below (cs_sent s) t"
  shows "list_all (below (cs_sent s')) ts"
    and "length (cs_out s') + sum_list (map (sending e) ts) + capped e (cs_sent s)
      \<le> length (cs_out s) + sending e t + capped e (cs_sent s')"
    and "\<not> cs_gone s \<Longrightarrow> length (cs_out s') + sum_list (map (sending e) ts) + capped e (cs_sent s)
      = length (cs_out s) + sending e t + capped e (cs_sent s')"
    and "cs_cancel s' \<Longrightarrow> \<not> cs_cancel s \<Longrightarrow> is_limit_reached (ce_limit e) (cs_sent s')"
    and "length (cs_out s) \<le> length (cs_out s')"
  using assms by (cases t; auto split: if_splits prod.splits simp: capped_Suc intro: limit_mono)+

lemma list_all_split: "k < length ts \<Longrightarrow> list_all P ts \<longleftrightarrow> list_all P (take k ts) \<and> P (ts ! k) \<and> list_all P (drop (Suc k) ts)"
  by (subst (1) split_at) auto

lemma exec_Task:
  assumes "cs_exec e (Task k) s = Some u"
  obtains ts s' where "k < length (cs_tasks s)" "task_next e (cs_tasks s ! k) s = Some (ts, s')"
    "u = s'\<lparr>cs_tasks := take k (cs_tasks s) @ ts @ drop (Suc k) (cs_tasks s)\<rparr>"
  using assms by (auto split: if_splits option.splits)

lemma exec_Abort:
  assumes "cs_exec e (Abort k) s = Some u"
  obtains i p where "cs_cancel s" "k < length (cs_tasks s)" "cs_tasks s ! k = Checking i p"
    "u = s\<lparr>cs_tasks := take k (cs_tasks s) @ drop (Suc k) (cs_tasks s)\<rparr>"
  using assms by (auto simp: vec_remove_def split: if_splits task.splits)

lemma exec_Pull:
  assumes "cs_exec e Pull s = Some u"
  obtains "cs_phase s = Pulling" "cs_source s = []" "u = s\<lparr>cs_phase := Draining\<rparr>"
  | i p xs where "cs_phase s = Pulling" "cs_source s = (i, p) # xs" "cs_cancel s \<or> is_limit_reached (ce_limit e) (cs_sent s)"
      "u = s\<lparr>cs_source := xs, cs_phase := Draining\<rparr>"
  | i p xs where "cs_phase s = Pulling" "cs_source s = (i, p) # xs" "u = s\<lparr>cs_source := xs, cs_phase := Acquiring i p\<rparr>"
  using assms by (cases "cs_source s") (auto split: if_splits)

lemma inv_Task:
  assumes "cs_inv e s" "cs_exec e (Task k) s = Some u"
  shows "cs_inv e u"
proof -
  obtain ts s' where t: "k < length (cs_tasks s)" "task_next e (cs_tasks s ! k) s = Some (ts, s')"
    "u = s'\<lparr>cs_tasks := take k (cs_tasks s) @ ts @ drop (Suc k) (cs_tasks s)\<rparr>"
    using assms(2) by (rule exec_Task)
  note c = task_next_cases[OF t(2)]
  have b: "below (cs_sent s) (cs_tasks s ! k)" "list_all (below (cs_sent s)) (take k (cs_tasks s))"
    "list_all (below (cs_sent s)) (drop (Suc k) (cs_tasks s))"
    using assms(1) list_all_split[OF t(1), of "below (cs_sent s)"] by (simp_all add: cs_inv_def)
  note n = task_next_inv[OF t(2) b(1)]
  have "list_all (below (cs_sent u)) (cs_tasks u)"
    using b(2,3) n(1) c by (auto simp: t(3) list_all_iff intro: below_mono)
  moreover have "length (cs_tasks u) \<le> ce_max_conn e"
    using assms(1) c t(1) by (auto simp: cs_inv_def t(3))
  moreover have "in_flight e u + capped e (cs_sent s) \<le> in_flight e s + capped e (cs_sent u)"
    "\<not> cs_gone s \<Longrightarrow> in_flight e u + capped e (cs_sent s) = in_flight e s + capped e (cs_sent u)"
    using n(2,3) by (simp_all add: in_flight_def t(3) sum_list_split[OF t(1), of "sending e"])
  moreover have "cs_cancel u \<Longrightarrow> cs_gone u \<or> is_limit_reached (ce_limit e) (cs_sent u)"
    using n(4) assms(1) c by (auto simp: t(3) cs_inv_def intro: limit_mono)
  ultimately show ?thesis
    using assms(1) c n(5) by (auto simp: cs_inv_def t(3))
qed

lemma cs_inv_init: "cs_inv e (cs_init ps)"
  by (simp add: cs_inv_def cs_init_def in_flight_def capped_def split: option.splits)

lemma cs_inv_exec:
  assumes "cs_inv e s" "cs_exec e a s = Some u"
  shows "cs_inv e u"
proof (cases a)
  case Pull
  from assms(2)[unfolded this] show ?thesis
    by (rule exec_Pull) (use assms(1) in \<open>auto simp: cs_inv_def in_flight_def\<close>)
next
  case (Task k)
  with assms inv_Task show ?thesis by blast
next
  case (Abort k)
  from assms(2)[unfolded this] obtain i p where a: "k < length (cs_tasks s)" "cs_tasks s ! k = Checking i p"
    "u = s\<lparr>cs_tasks := take k (cs_tasks s) @ drop (Suc k) (cs_tasks s)\<rparr>"
    by (rule exec_Abort)
  have "in_flight e u = in_flight e s"
    by (simp add: a(2,3) in_flight_def sum_list_split[OF a(1), of "sending e"])
  moreover have "list_all (below (cs_sent u)) (cs_tasks u)"
    using assms(1) list_all_split[OF a(1), of "below (cs_sent s)"] by (simp add: cs_inv_def a(3))
  moreover have "length (cs_tasks u) \<le> ce_max_conn e"
    using assms(1) a(1) by (auto simp: cs_inv_def a(3))
  ultimately show ?thesis
    using assms(1) by (simp add: cs_inv_def a(3))
qed (use assms in \<open>auto simp: cs_inv_def in_flight_def split: if_splits phase.splits\<close>)

text \<open>While the consumer is there and the limit is not reached, nothing is lost; in any case nothing is
  gained.\<close>

definition open_run :: "cs_env \<Rightarrow> cs_state \<Rightarrow> bool" where
  "open_run e s \<longleftrightarrow> \<not> cs_gone s \<and> \<not> is_limit_reached (ce_limit e) (cs_sent s)"

lemma task_next_goods:
  assumes "task_next e t s = Some (ts, s')"
  shows "mset (cs_out s') + sum_list (map (task_good e) ts) \<subseteq># mset (cs_out s) + task_good e t"
    and "open_run e s' \<Longrightarrow> below (cs_sent s) t \<Longrightarrow>
      mset (cs_out s') + sum_list (map (task_good e) ts) = mset (cs_out s) + task_good e t"
    and "mset (cs_stats s') + sum_list (map (task_checks e) ts) = mset (cs_stats s) + task_checks e t"
  using assms by (cases t; auto split: if_splits prod.splits simp: good_def good_outcome_def outcome_def open_run_def
    intro: limit_mono)+

lemma goods_exec:
  assumes "cs_inv e s" "cs_exec e a s = Some u"
  shows "goods e u \<subseteq># goods e s" "open_run e u \<Longrightarrow> goods e u = goods e s"
    "checks e u \<subseteq># checks e s" "open_run e u \<Longrightarrow> checks e u = checks e s"
    "open_run e u \<Longrightarrow> open_run e s"
proof -
  have "goods e u \<subseteq># goods e s \<and> (open_run e u \<longrightarrow> goods e u = goods e s) \<and> checks e u \<subseteq># checks e s
    \<and> (open_run e u \<longrightarrow> checks e u = checks e s) \<and> (open_run e u \<longrightarrow> open_run e s)"
  proof (cases a)
    case Pull
    from assms(2)[unfolded this] show ?thesis
      by (rule exec_Pull) (use assms(1) in \<open>auto simp: goods_def checks_def pending_def open_run_def cs_inv_def\<close>)
  next
    case (Task k)
    from assms(2)[unfolded this] obtain ts s' where t: "k < length (cs_tasks s)"
      "task_next e (cs_tasks s ! k) s = Some (ts, s')"
      "u = s'\<lparr>cs_tasks := take k (cs_tasks s) @ ts @ drop (Suc k) (cs_tasks s)\<rparr>"
      by (rule exec_Task)
    have b: "below (cs_sent s) (cs_tasks s ! k)"
      using assms(1) list_all_split[OF t(1), of "below (cs_sent s)"] by (simp add: cs_inv_def)
    note c = task_next_cases[OF t(2)] and n = task_next_goods[OF t(2)]
    let ?R = "\<lambda>f. sum_list (map f (take k (cs_tasks s))) + sum_list (map f (drop (Suc k) (cs_tasks s)))"
    have g: "goods e u = (mset (cs_out s') + sum_list (map (task_good e) ts)) + (?R (task_good e)
        + sum_list (map (good_outcome e) (pending s)))"
      "goods e s = (mset (cs_out s) + task_good e (cs_tasks s ! k)) + (?R (task_good e)
        + sum_list (map (good_outcome e) (pending s)))"
      "checks e u = (mset (cs_stats s') + sum_list (map (task_checks e) ts)) + (?R (task_checks e)
        + mset (map (outcome e) (pending s)))"
      "checks e s = (mset (cs_stats s) + task_checks e (cs_tasks s ! k)) + (?R (task_checks e)
        + mset (map (outcome e) (pending s)))"
      using c by (simp_all add: goods_def checks_def t(3) pending_def sum_list_split[OF t(1), of "task_good e"]
          sum_list_split[OF t(1), of "task_checks e"] ac_simps)
    have "open_run e u \<Longrightarrow> open_run e s' \<and> open_run e s"
      using c by (auto simp: open_run_def t(3) intro: limit_mono)
    then show ?thesis unfolding g using n b by (auto simp: mset_subset_eq_mono_add)
  next
    case (Abort k)
    from assms(2)[unfolded this] obtain i p where t: "cs_cancel s" "k < length (cs_tasks s)" "cs_tasks s ! k = Checking i p"
      "u = s\<lparr>cs_tasks := take k (cs_tasks s) @ drop (Suc k) (cs_tasks s)\<rparr>"
      by (rule exec_Abort)
    with assms(1) have "\<not> open_run e u" by (auto simp: cs_inv_def open_run_def)
    then show ?thesis
      by (simp add: goods_def checks_def t(3,4) pending_def sum_list_split[OF t(2), of "task_good e"]
          sum_list_split[OF t(2), of "task_checks e"])
  next
    case Acquire
    with assms(2) show ?thesis
      by (auto simp: goods_def checks_def pending_def open_run_def split: if_splits phase.splits)
  qed (use assms in \<open>auto simp: goods_def checks_def pending_def open_run_def split: if_splits\<close>)
  then show "goods e u \<subseteq># goods e s" "open_run e u \<Longrightarrow> goods e u = goods e s"
    "checks e u \<subseteq># checks e s" "open_run e u \<Longrightarrow> checks e u = checks e s"
    "open_run e u \<Longrightarrow> open_run e s" by blast+
qed

text \<open>The loop has stopped pulling only at the end of the source, or because the token had fired or the
  limit was reached, and the run has ended only with no task left.\<close>

definition drained :: "cs_env \<Rightarrow> cs_state \<Rightarrow> bool" where
  "drained e s \<longleftrightarrow> (cs_phase s = Ended \<longrightarrow> cs_tasks s = [])
     \<and> (cs_phase s = Draining \<or> cs_phase s = Ended \<longrightarrow> cs_source s = [] \<or> \<not> open_run e s)"

lemma drained_exec:
  assumes "drained e s" "cs_inv e s" "cs_exec e a s = Some u"
  shows "drained e u"
proof (cases a)
  case Pull
  from assms(3)[unfolded this] show ?thesis
    by (rule exec_Pull) (use assms(1,2) in \<open>auto simp: drained_def open_run_def cs_inv_def\<close>)
next
  case (Task k)
  from assms(3)[unfolded this] obtain ts s' where t: "k < length (cs_tasks s)"
    "task_next e (cs_tasks s ! k) s = Some (ts, s')"
    "u = s'\<lparr>cs_tasks := take k (cs_tasks s) @ ts @ drop (Suc k) (cs_tasks s)\<rparr>"
    by (rule exec_Task)
  with assms(1) task_next_cases[OF t(2)] show ?thesis
    by (auto simp: drained_def open_run_def intro: limit_mono)
next
  case (Abort k)
  from assms(3)[unfolded this] obtain i p where "k < length (cs_tasks s)"
    "u = s\<lparr>cs_tasks := take k (cs_tasks s) @ drop (Suc k) (cs_tasks s)\<rparr>"
    by (rule exec_Abort)
  with assms(1) show ?thesis by (auto simp: drained_def open_run_def)
qed (use assms in \<open>auto simp: drained_def open_run_def split: if_splits phase.splits\<close>)

lemma cs_run_inv:
  assumes "cs_run e as s = Some u" "cs_inv e s"
  shows "cs_inv e u" "goods e u \<subseteq># goods e s" "open_run e u \<Longrightarrow> goods e u = goods e s"
    "checks e u \<subseteq># checks e s" "open_run e u \<Longrightarrow> checks e u = checks e s" "drained e s \<Longrightarrow> drained e u"
proof -
  have "cs_inv e u \<and> (drained e s \<longrightarrow> drained e u) \<and> goods e u \<subseteq># goods e s \<and> (open_run e u \<longrightarrow> goods e u = goods e s \<and> open_run e s)
      \<and> checks e u \<subseteq># checks e s \<and> (open_run e u \<longrightarrow> checks e u = checks e s)"
    using assms
  proof (induction as arbitrary: s)
    case (Cons a as)
    then obtain t where t: "cs_exec e a s = Some t" "cs_run e as t = Some u"
      by (auto split: option.splits)
    have "cs_inv e t" using cs_inv_exec[OF Cons.prems(2) t(1)] .
    from Cons.IH[OF t(2) this] goods_exec[OF Cons.prems(2) t(1)] drained_exec[OF _ Cons.prems(2) t(1)] show ?case
      by (metis subset_mset.order_trans)
  qed simp
  then show "cs_inv e u" "goods e u \<subseteq># goods e s" "open_run e u \<Longrightarrow> goods e u = goods e s"
    "checks e u \<subseteq># checks e s" "open_run e u \<Longrightarrow> checks e u = checks e s" "drained e s \<Longrightarrow> drained e u"
    by blast+
qed

section \<open>Progress\<close>

fun task_weight :: "task \<Rightarrow> nat" where
  "task_weight (Checking i p) = 6"
| "task_weight (Recorded w p) = 5"
| "task_weight (Observed w p) = 4"
| "task_weight (Reserved n p) = 3"
| "task_weight (Sent n) = 1"

fun phase_weight :: "phase \<Rightarrow> nat" where
  "phase_weight Pulling = 2"
| "phase_weight (Acquiring i p) = 9"
| "phase_weight Draining = 1"
| "phase_weight Ended = 0"

definition work_left :: "cs_state \<Rightarrow> nat" where
  "work_left s = 8 * length (cs_source s) + phase_weight (cs_phase s) + sum_list (map task_weight (cs_tasks s))
     + (length (cs_out s) - cs_got s) + (if cs_gone s then 0 else 1) + (if cs_cancel s then 0 else 1)"

lemma task_next_work:
  assumes "task_next e t s = Some (ts, s')" "cs_got s \<le> length (cs_out s)"
  shows "sum_list (map task_weight ts) + (length (cs_out s') - cs_got s') + (if cs_cancel s' then 0 else 1)
    < task_weight t + (length (cs_out s) - cs_got s) + (if cs_cancel s then 0 else 1)"
  using assms by (cases t) (auto split: if_splits prod.splits)

lemma work_decreases:
  assumes "cs_inv e s" "cs_exec e a s = Some u"
  shows "work_left u < work_left s"
proof (cases a)
  case Pull
  from assms(2)[unfolded this] show ?thesis by (rule exec_Pull) (simp_all add: work_left_def)
next
  case (Task k)
  from assms(2)[unfolded this] obtain ts s' where t: "k < length (cs_tasks s)"
    "task_next e (cs_tasks s ! k) s = Some (ts, s')"
    "u = s'\<lparr>cs_tasks := take k (cs_tasks s) @ ts @ drop (Suc k) (cs_tasks s)\<rparr>"
    by (rule exec_Task)
  have "cs_got s \<le> length (cs_out s)" using assms(1) by (simp add: cs_inv_def)
  from task_next_work[OF t(2) this] task_next_cases[OF t(2)] show ?thesis
    by (simp add: work_left_def t(3) sum_list_split[OF t(1), of task_weight])
next
  case (Abort k)
  from assms(2)[unfolded this] obtain i p where t: "k < length (cs_tasks s)" "cs_tasks s ! k = Checking i p"
    "u = s\<lparr>cs_tasks := take k (cs_tasks s) @ drop (Suc k) (cs_tasks s)\<rparr>"
    by (rule exec_Abort)
  then show ?thesis by (simp add: work_left_def sum_list_split[OF t(1), of task_weight])
qed (use assms in \<open>auto simp: work_left_def split: if_splits phase.splits\<close>)

lemma run_length:
  "cs_run e as s = Some u \<Longrightarrow> cs_inv e s \<Longrightarrow> length as + work_left u \<le> work_left s"
proof (induction as arbitrary: s)
  case (Cons a as)
  then obtain t where t: "cs_exec e a s = Some t" "cs_run e as t = Some u" by (auto split: option.splits)
  from Cons.IH[OF t(2) cs_inv_exec[OF Cons.prems(2) t(1)]] work_decreases[OF Cons.prems(2) t(1)]
  show ?case by simp
qed simp

lemma run_bound: "cs_run e as (cs_init ps) = Some s \<Longrightarrow> length as \<le> 8 * length ps + 4"
  using run_length[OF _ cs_inv_init, of e as ps s] by (simp add: work_left_def cs_init_def)

lemma cs_run_append: "cs_run e (as @ bs) s = Option.bind (cs_run e as s) (cs_run e bs)"
  by (induction as arbitrary: s) (auto split: option.splits)

lemma task_or_recv:
  assumes "cs_tasks s \<noteq> []"
  shows "cs_exec e (Task 0) s \<noteq> None \<or> cs_exec e Recv s \<noteq> None"
  using assms by (cases "cs_tasks s ! 0") (auto simp: channel_capacity_def split: prod.splits)

text \<open>Somebody can always go on, without the consumer leaving.\<close>

lemma not_stuck:
  assumes "0 < ce_max_conn e" "cs_phase s \<noteq> Ended"
  shows "\<exists>a. a \<notin> {DropRx, DropGuard} \<and> cs_exec e a s \<noteq> None"
proof (cases "cs_tasks s")
  case (Cons t ts)
  then have "cs_tasks s \<noteq> []" by simp
  from task_or_recv[OF this, of e] show ?thesis by (metis act.distinct empty_iff insertE)
next
  case Nil
  show ?thesis
  proof (cases "cs_phase s")
    case Pulling
    then show ?thesis by (auto intro!: exI[of _ Pull] split: list.splits)
  next
    case (Acquiring i p)
    with Nil assms show ?thesis by (auto intro!: exI[of _ Acquire])
  next
    case Draining
    with Nil show ?thesis by (auto intro!: exI[of _ Finish])
  qed (use assms in simp)
qed

lemma gone_only_by_drop:
  assumes "cs_exec e a s = Some u" "a \<noteq> DropRx"
  shows "cs_gone u = cs_gone s"
proof (cases a)
  case (Task k)
  from assms(1)[unfolded this] show ?thesis by (rule exec_Task) (simp add: task_next_cases)
qed (use assms in \<open>auto split: if_splits list.splits phase.splits task.splits\<close>)

lemma gone_only_by_drops: "cs_run e as s = Some u \<Longrightarrow> DropRx \<notin> set as \<Longrightarrow> cs_gone u = cs_gone s"
  by (induction as arbitrary: s) (auto split: option.splits dest: gone_only_by_drop)

section \<open>What the pipeline delivers\<close>

definition checked_all :: "cs_env \<Rightarrow> proxy list \<Rightarrow> (bool \<times> proxy) list" where
  "checked_all e ps = map (\<lambda>(i, p). ce_check e i p) (enumerate 0 ps)"

definition deliverable :: "cs_env \<Rightarrow> proxy list \<Rightarrow> proxy list" where
  "deliverable e ps = map snd (filter (\<lambda>(w, p). w \<and> passes (ce_caps e) p) (checked_all e ps))"

lemma good_outcomes:
  "sum_list (map (good_outcome e) xs) = mset (map snd (filter (\<lambda>(w, p). w \<and> passes (ce_caps e) p)
     (map (\<lambda>(i, p). ce_check e i p) xs)))"
  by (induction xs) (auto simp: good_outcome_def good_def outcome_def split: prod.splits)

lemma goods_init: "goods e (cs_init ps) = mset (deliverable e ps)"
  by (simp add: goods_def cs_init_def pending_def deliverable_def checked_all_def good_outcomes)

lemma checks_init: "checks e (cs_init ps) = mset (map snd (checked_all e ps))"
  by (simp add: checks_def cs_init_def pending_def checked_all_def outcome_def[abs_def] comp_def case_prod_unfold)

lemma out_le_goods: "mset (cs_out s) \<subseteq># goods e s" and stats_le_checks: "mset (cs_stats s) \<subseteq># checks e s"
  by (simp_all add: goods_def checks_def add.assoc)

lemma run_bounded:
  assumes "cs_run e as (cs_init ps) = Some s"
  shows "length (cs_tasks s) \<le> ce_max_conn e" "ce_limit e = Some l \<Longrightarrow> length (cs_out s) \<le> l"
    "mset (cs_out s) \<subseteq># mset (deliverable e ps)" "mset (cs_stats s) \<subseteq># mset (map snd (checked_all e ps))"
proof -
  note i = cs_run_inv[OF assms cs_inv_init]
  show "length (cs_tasks s) \<le> ce_max_conn e" "ce_limit e = Some l \<Longrightarrow> length (cs_out s) \<le> l"
    using i(1) by (simp_all add: cs_inv_def in_flight_def capped_def)
  show "mset (cs_out s) \<subseteq># mset (deliverable e ps)"
    using out_le_goods[of s e] i(2) unfolding goods_init by (rule subset_mset.order_trans)
  show "mset (cs_stats s) \<subseteq># mset (map snd (checked_all e ps))"
    using stats_le_checks[of s e] i(4) unfolding checks_init by (rule subset_mset.order_trans)
qed

text \<open>C9. In every interleaving, \<open>check_stream\<close> never has more than \<open>max_conn\<close> checks in flight, never
  emits more than \<open>limit\<close> proxies, emits only proxies whose check succeeded and which pass the capability
  filter, each at most as often as the source has it, and records each checked proxy at most once.\<close>

theorem stream_bounded:
  assumes "cs_run e as (cs_init ps) = Some s"
  shows "length (cs_tasks s) \<le> ce_max_conn e \<and> (ce_limit e = Some l \<longrightarrow> length (cs_out s) \<le> l)
    \<and> mset (cs_out s) \<subseteq># mset (deliverable e ps) \<and> mset (cs_stats s) \<subseteq># mset (map snd (checked_all e ps))"
  using run_bounded[OF assms] by blast

text \<open>Three proxies of which the first and the last work, two at a time, at most one emitted: both
  working checks finish before the first is sent.\<close>

definition sample_p :: "u16 \<Rightarrow> proxy" where
  "sample_p n = proxy_new (V4 10 0 0 1) n {}"

definition sample_env :: cs_env where
  "sample_env = \<lparr>ce_check = (\<lambda>i p. (i \<noteq> 1, record_attempt None None p)), ce_max_conn = 2, ce_limit = Some 1,
     ce_caps = \<lparr>cf_cookie = False, cf_referer = False, cf_connect25 = False, cf_trusted = False\<rparr>, ce_observer = True\<rparr>"

definition sample_acts :: "act list" where
  "sample_acts = [Pull, Acquire, Pull, Acquire, Pull, Task 1, Task 1, Task 1, Acquire, Task 1, Task 1, Task 1,
     Task 0, Task 0, Task 0, Task 0, Task 0, Task 0, Recv, Pull, Finish]"

definition sample_source :: "proxy list" where
  "sample_source = [sample_p 1, sample_p 2, sample_p 3]"

lemmas sample_stream = sample_env_def sample_acts_def sample_source_def cs_init_def enumerate_eq_zip
  is_limit_reached_def passes_def vec_remove_def channel_capacity_def

definition sample_end :: cs_state where
  "sample_end = the (cs_run sample_env sample_acts (cs_init sample_source))"

lemma stream_sample_run: "cs_run sample_env sample_acts (cs_init sample_source) = Some sample_end"
  "cs_phase sample_end = Ended" "\<not> cs_gone sample_end" "cs_out sample_end = [record_attempt None None (sample_p 3)]"
  by (simp_all add: sample_stream sample_end_def)

theorem stream_bounded_witness: "length (cs_out sample_end) \<le> 1"
  using stream_bounded[OF stream_sample_run(1), of 1] by (simp add: sample_env_def)

lemma ended_no_tasks:
  assumes "cs_run e as (cs_init ps) = Some s" "cs_phase s = Ended"
  shows "drained e s" "cs_tasks s = []"
proof -
  show d: "drained e s" by (rule cs_run_inv(6)[OF assms(1) cs_inv_init]) (simp add: drained_def cs_init_def)
  then show "cs_tasks s = []" using assms(2) by (simp add: drained_def)
qed

lemma run_complete:
  assumes "cs_run e as (cs_init ps) = Some s" "cs_phase s = Ended" "\<not> cs_gone s"
  shows "(\<exists>l. ce_limit e = Some l \<and> length (cs_out s) = l)
    \<or> (mset (cs_out s) = mset (deliverable e ps) \<and> mset (cs_stats s) = mset (map snd (checked_all e ps)))"
proof -
  note i = cs_run_inv[OF assms(1) cs_inv_init]
  note d = ended_no_tasks(1)[OF assms(1,2)] and t = ended_no_tasks(2)[OF assms(1,2)]
  show ?thesis
  proof (cases "open_run e s")
    case True
    with d assms(2) have "cs_source s = []" by (simp add: drained_def)
    then have "goods e s = mset (cs_out s)" "checks e s = mset (cs_stats s)"
      by (simp_all add: goods_def checks_def t pending_def assms(2))
    with i(3,5)[OF True] show ?thesis unfolding goods_init checks_init by simp
  next
    case False
    with assms(3) obtain l where "ce_limit e = Some l" "l \<le> cs_sent s"
      by (auto simp: open_run_def is_limit_reached_def split: option.splits)
    with i(1) assms(3) show ?thesis by (auto simp: cs_inv_def in_flight_def t capped_def)
  qed
qed

text \<open>C8. When the pipeline has ended and the consumer was there all the time, no check was dropped:
  either the limit is met exactly, or every proxy of the source was checked and recorded and exactly
  the working ones that pass the filter were emitted.\<close>

theorem stream_complete:
  assumes "cs_run e as (cs_init ps) = Some s" "cs_phase s = Ended" "\<not> cs_gone s"
  shows "(\<exists>l. ce_limit e = Some l \<and> length (cs_out s) = l)
    \<or> (mset (cs_out s) = mset (deliverable e ps) \<and> mset (cs_stats s) = mset (map snd (checked_all e ps)))"
  using run_complete[OF assms] .

theorem stream_complete_witness: "cs_phase sample_end = Ended \<and> length (cs_out sample_end) = 1
    \<or> mset (cs_out sample_end) = mset (deliverable sample_env sample_source)"
  using stream_complete[OF stream_sample_run(1,2,3)] stream_sample_run(2) by (auto simp: sample_env_def)

text \<open>C18. With at least one permit the pipeline always ends, whether the consumer stays or leaves: from
  every reachable state that is not the end some party can move without the consumer leaving, and no run
  is longer than eight actions per source proxy and four more.\<close>

theorem stream_ends:
  assumes "0 < ce_max_conn e" "cs_run e as (cs_init ps) = Some s"
  shows "length as \<le> 8 * length ps + 4 \<and> (cs_phase s = Ended \<or> (\<exists>a. a \<notin> {DropRx, DropGuard} \<and> cs_exec e a s \<noteq> None))"
  using run_bound[OF assms(2)] not_stuck[OF assms(1), of s] by blast

theorem stream_ends_witness: "length sample_acts \<le> 28"
  using stream_ends[OF _ stream_sample_run(1)] by (simp add: sample_env_def sample_source_def)

lemma no_permit_step:
  assumes "ce_max_conn e = 0" "cs_phase s = Acquiring i p" "cs_exec e a s = Some u"
  shows "cs_phase u = Acquiring i p"
  using assms task_next_cases by (cases a) (fastforce split: if_splits option.splits task.splits)+

lemma no_permit_run:
  "cs_run e as s = Some u \<Longrightarrow> ce_max_conn e = 0 \<Longrightarrow> cs_phase s = Acquiring i p \<Longrightarrow> cs_phase u = Acquiring i p"
  by (induction as arbitrary: s) (auto split: option.splits dest: no_permit_step)

text \<open>With no permit the pipeline never ends: once the first proxy was pulled, it waits for a permit
  whatever the others do, even after the consumer dropped the stream and the token fired.\<close>

theorem no_permit_hangs:
  assumes "ce_max_conn e = 0" "ce_limit e \<noteq> Some 0" "cs_run e (Pull # as) (cs_init (p # ps)) = Some s"
  shows "cs_phase s = Acquiring 0 p"
proof -
  have "cs_exec e Pull (cs_init (p # ps)) = Some ((cs_init (p # ps))\<lparr>cs_source := enumerate 1 ps, cs_phase := Acquiring 0 p\<rparr>)"
    using assms(2) by (auto simp: cs_init_def is_limit_reached_def split: option.splits)
  with assms(3) show ?thesis by (auto intro: no_permit_run[OF _ assms(1)])
qed

theorem no_permit_hangs_witness:
  "\<exists>s. cs_run (sample_env\<lparr>ce_max_conn := 0\<rparr>) [Pull, DropRx, DropGuard] (cs_init sample_source) = Some s
    \<and> cs_cancel s \<and> cs_phase s = Acquiring 0 (sample_p 1)"
proof -
  let ?e = "sample_env\<lparr>ce_max_conn := 0\<rparr>"
  obtain s where s: "cs_run ?e [Pull, DropRx, DropGuard] (cs_init (sample_p 1 # [sample_p 2, sample_p 3])) = Some s" "cs_cancel s"
    by (simp add: sample_stream)
  have "cs_phase s = Acquiring 0 (sample_p 1)"
    by (rule no_permit_hangs[OF _ _ s(1)]) (simp_all add: sample_env_def)
  with s show ?thesis by (simp add: sample_source_def)
qed


section \<open>What was recorded\<close>

text \<open>Checks that are in the statistics: not yet shown to the observer, and not yet emitted.\<close>

fun task_unseen :: "task \<Rightarrow> proxy multiset" where
  "task_unseen (Recorded w p) = {#p#}"
| "task_unseen _ = {#}"

fun task_recorded :: "task \<Rightarrow> proxy multiset" where
  "task_recorded (Recorded w p) = {#p#}"
| "task_recorded (Observed w p) = {#p#}"
| "task_recorded (Reserved n p) = {#p#}"
| "task_recorded _ = {#}"

definition recorded_inv :: "cs_env \<Rightarrow> cs_state \<Rightarrow> bool" where
  "recorded_inv e s \<longleftrightarrow> mset (cs_out s) + sum_list (map task_recorded (cs_tasks s)) \<subseteq># mset (cs_stats s)
     \<and> (if ce_observer e then mset (cs_stats s) = mset (cs_seen s) + sum_list (map task_unseen (cs_tasks s)) else cs_seen s = [])"

lemma task_next_recorded:
  assumes "task_next e t s = Some (ts, s')"
  shows "\<exists>new. mset (cs_stats s') = mset (cs_stats s) + new
      \<and> mset (cs_out s') + sum_list (map task_recorded ts) \<subseteq># mset (cs_out s) + task_recorded t + new
      \<and> (if ce_observer e then mset (cs_seen s') + sum_list (map task_unseen ts) = mset (cs_seen s) + task_unseen t + new
         else cs_seen s' = cs_seen s)"
proof (cases t)
  case (Checking i p)
  with assms show ?thesis by (intro exI[of _ "{#snd (ce_check e i p)#}"]) (auto split: prod.splits)
qed (use assms in \<open>auto intro!: exI[of _ "{#}"] split: if_splits\<close>)

lemma recorded_exec:
  assumes "cs_exec e a s = Some u" "recorded_inv e s"
  shows "recorded_inv e u"
proof (cases a)
  case (Task k)
  then obtain ts s' where t: "k < length (cs_tasks s)" "task_next e (cs_tasks s ! k) s = Some (ts, s')"
    "u = s'\<lparr>cs_tasks := take k (cs_tasks s) @ ts @ drop (Suc k) (cs_tasks s)\<rparr>"
    using assms(1) exec_Task by blast
  from task_next_recorded[OF t(2)] obtain new where n: "mset (cs_stats s') = mset (cs_stats s) + new"
    "mset (cs_out s') + sum_list (map task_recorded ts) \<subseteq># mset (cs_out s) + task_recorded (cs_tasks s ! k) + new"
    "if ce_observer e then mset (cs_seen s') + sum_list (map task_unseen ts) = mset (cs_seen s) + task_unseen (cs_tasks s ! k) + new
     else cs_seen s' = cs_seen s"
    by blast
  let ?r = "\<lambda>f. sum_list (map f (take k (cs_tasks s))) + sum_list (map f (drop (Suc k) (cs_tasks s)))"
  have sp: "sum_list (map f (cs_tasks s)) = f (cs_tasks s ! k) + ?r f" for f :: "task \<Rightarrow> proxy multiset"
    using sum_list_split[OF t(1), of f] by (simp add: ac_simps)
  have o: "mset (cs_out s) + (task_recorded (cs_tasks s ! k) + ?r task_recorded) \<subseteq># mset (cs_stats s)"
    using assms(2) unfolding recorded_inv_def sp by blast
  have "mset (cs_out s') + sum_list (map task_recorded ts) + ?r task_recorded
      \<subseteq># mset (cs_out s) + task_recorded (cs_tasks s ! k) + new + ?r task_recorded"
    using n(2) by (rule mset_subset_eq_mono_add) simp
  also have "\<dots> = mset (cs_out s) + (task_recorded (cs_tasks s ! k) + ?r task_recorded) + new" by (simp add: ac_simps)
  also have "\<dots> \<subseteq># mset (cs_stats s) + new" using o by (rule mset_subset_eq_mono_add) simp
  finally show ?thesis
    using assms(2) n(1,3) t(3) sp[of task_unseen] by (auto simp: recorded_inv_def ac_simps split: if_splits)
next
  case (Abort k)
  then obtain i p where t: "k < length (cs_tasks s)" "cs_tasks s ! k = Checking i p"
    "u = s\<lparr>cs_tasks := take k (cs_tasks s) @ drop (Suc k) (cs_tasks s)\<rparr>"
    using assms(1) exec_Abort by blast
  have "sum_list (map f (cs_tasks u)) = sum_list (map f (cs_tasks s))" if "f (Checking i p) = {#}" for f :: "task \<Rightarrow> proxy multiset"
    using sum_list_split[OF t(1), of f] that t(2,3) by simp
  then show ?thesis using assms(2) t(3) by (simp add: recorded_inv_def)
qed (use assms in \<open>auto simp: recorded_inv_def split: if_splits phase.splits list.splits\<close>)

text \<open>Everything that was emitted is in the statistics, and at the end the observer has seen exactly what
  is in the statistics.\<close>

lemma recorded_run:
  assumes "cs_run e as (cs_init ps) = Some s"
  shows "mset (cs_out s) \<subseteq># mset (cs_stats s)"
    and "cs_tasks s = [] \<Longrightarrow> ce_observer e \<Longrightarrow> mset (cs_seen s) = mset (cs_stats s)"
    and "\<not> ce_observer e \<Longrightarrow> cs_seen s = []"
proof -
  have "cs_run e as u = Some s \<Longrightarrow> recorded_inv e u \<Longrightarrow> recorded_inv e s" for u
    by (induction as arbitrary: u) (auto split: option.splits dest: recorded_exec)
  moreover have "recorded_inv e (cs_init ps)" by (simp add: recorded_inv_def cs_init_def)
  ultimately have i: "recorded_inv e s" using assms by blast
  then show "mset (cs_out s) \<subseteq># mset (cs_stats s)"
    unfolding recorded_inv_def by (meson mset_subset_eq_add_left subset_mset.order_trans)
  show "mset (cs_seen s) = mset (cs_stats s)" if "cs_tasks s = []" "ce_observer e" using i that by (simp add: recorded_inv_def)
  show "cs_seen s = []" if "\<not> ce_observer e" using i that by (simp add: recorded_inv_def)
qed

end
