(* ===== verification/Broker.thy ===== *)
theory Broker
  imports Check_Stream Pool
begin

text \<open>
  \<^verbatim>\<open>src/src/broker.rs\<close>: queries and the query builder, the scraping of candidates by \<^verbatim>\<open>grab\<close> and \<^verbatim>\<open>find\<close>,
  and the set-up of a checked run. The pipeline that a run executes is in \<open>Check_Stream\<close>.

  Fetching is outside: a run is given the batches of candidates in the order in which the fetches of
  the providers completed. The geo and ASN databases are lookup functions. A send fails when the
  consumer has dropped the stream; \<open>gone n\<close> says that it has when the send after \<open>n\<close> successful ones
  is tried.
\<close>

section \<open>Queries\<close>

record grab_query =
  gq_countries :: "string list option"
  gq_limit :: "nat option"

record find_query =
  fq_types :: "type_spec list"
  fq_countries :: "string list option"
  fq_limit :: "nat option"
  fq_judges :: "string list"
  fq_dnsbl :: "string list"
  fq_timeout :: duration
  fq_max_conn :: nat
  fq_retry :: retry_policy
  fq_post :: bool
  fq_strict :: bool
  fq_liveness_url :: "string option"
  fq_relaxed_validity :: bool
  fq_require_cookie :: bool
  fq_require_referer :: bool
  fq_require_connect25 :: bool
  fq_trust_check :: bool
  fq_require_trusted :: bool

definition find_query_default :: find_query where
  "find_query_default =
     \<lparr>fq_types = [], fq_countries = None, fq_limit = None, fq_judges = [], fq_dnsbl = [],
      fq_timeout = 8000000000, fq_max_conn = 200, fq_retry = retry_default, fq_post = False,
      fq_strict = False, fq_liveness_url = None, fq_relaxed_validity = False, fq_require_cookie = False,
      fq_require_referer = False, fq_require_connect25 = False, fq_trust_check = False,
      fq_require_trusted = False\<rparr>"

record find_query_builder =
  fb_types :: "type_spec list option"
  fb_countries :: "string list option"
  fb_limit :: "nat option"
  fb_judges :: "string list option"
  fb_dnsbl :: "string list option"
  fb_timeout :: "duration option"
  fb_max_conn :: "nat option"
  fb_max_tries :: "nat option"
  fb_retry :: "retry_policy option"
  fb_post :: "bool option"
  fb_strict :: "bool option"
  fb_liveness_url :: "string option"

definition builder_default :: find_query_builder where
  "builder_default =
     \<lparr>fb_types = None, fb_countries = None, fb_limit = None, fb_judges = None, fb_dnsbl = None,
      fb_timeout = None, fb_max_conn = None, fb_max_tries = None, fb_retry = None, fb_post = None,
      fb_strict = None, fb_liveness_url = None\<rparr>"

definition set_types :: "type_spec list \<Rightarrow> find_query_builder \<Rightarrow> find_query_builder" where
  "set_types x b = b\<lparr>fb_types := Some x\<rparr>"

definition set_countries :: "string list \<Rightarrow> find_query_builder \<Rightarrow> find_query_builder" where
  "set_countries x b = b\<lparr>fb_countries := Some x\<rparr>"

definition set_limit :: "nat \<Rightarrow> find_query_builder \<Rightarrow> find_query_builder" where
  "set_limit n b = b\<lparr>fb_limit := (if 0 < n then Some n else None)\<rparr>"

definition set_judges :: "string list \<Rightarrow> find_query_builder \<Rightarrow> find_query_builder" where
  "set_judges x b = b\<lparr>fb_judges := Some x\<rparr>"

definition set_dnsbl :: "string list \<Rightarrow> find_query_builder \<Rightarrow> find_query_builder" where
  "set_dnsbl x b = b\<lparr>fb_dnsbl := Some x\<rparr>"

definition set_timeout :: "duration \<Rightarrow> find_query_builder \<Rightarrow> find_query_builder" where
  "set_timeout x b = b\<lparr>fb_timeout := Some x\<rparr>"

definition set_max_conn :: "nat \<Rightarrow> find_query_builder \<Rightarrow> find_query_builder" where
  "set_max_conn x b = b\<lparr>fb_max_conn := Some x\<rparr>"

definition set_max_tries :: "nat \<Rightarrow> find_query_builder \<Rightarrow> find_query_builder" where
  "set_max_tries x b = b\<lparr>fb_max_tries := Some x\<rparr>"

definition set_retry :: "retry_policy \<Rightarrow> find_query_builder \<Rightarrow> find_query_builder" where
  "set_retry x b = b\<lparr>fb_retry := Some x\<rparr>"

definition set_post :: "bool \<Rightarrow> find_query_builder \<Rightarrow> find_query_builder" where
  "set_post x b = b\<lparr>fb_post := Some x\<rparr>"

definition set_strict :: "bool \<Rightarrow> find_query_builder \<Rightarrow> find_query_builder" where
  "set_strict x b = b\<lparr>fb_strict := Some x\<rparr>"

definition set_liveness_url :: "string option \<Rightarrow> find_query_builder \<Rightarrow> find_query_builder" where
  "set_liveness_url x b = b\<lparr>fb_liveness_url := x\<rparr>"

definition unwrap_or :: "'a \<Rightarrow> 'a option \<Rightarrow> 'a" where
  "unwrap_or d x = (case x of None \<Rightarrow> d | Some y \<Rightarrow> y)"

definition option_or :: "'a option \<Rightarrow> 'a option \<Rightarrow> 'a option" where
  "option_or x y = (case x of None \<Rightarrow> y | Some _ \<Rightarrow> x)"

definition build :: "find_query_builder \<Rightarrow> find_query" where
  "build b =
     (let d = find_query_default;
          r = unwrap_or (fq_retry d) (fb_retry b)
      in \<lparr>fq_types = unwrap_or (fq_types d) (fb_types b), fq_countries = option_or (fb_countries b) (fq_countries d),
          fq_limit = option_or (fb_limit b) (fq_limit d), fq_judges = unwrap_or (fq_judges d) (fb_judges b),
          fq_dnsbl = unwrap_or (fq_dnsbl d) (fb_dnsbl b), fq_timeout = unwrap_or (fq_timeout d) (fb_timeout b),
          fq_max_conn = unwrap_or (fq_max_conn d) (fb_max_conn b),
          fq_retry = (case fb_max_tries b of None \<Rightarrow> r | Some mt \<Rightarrow> r\<lparr>rp_max_tries := mt\<rparr>),
          fq_post = unwrap_or (fq_post d) (fb_post b), fq_strict = unwrap_or (fq_strict d) (fb_strict b),
          fq_liveness_url = option_or (fb_liveness_url b) (fq_liveness_url d),
          fq_relaxed_validity = fq_relaxed_validity d, fq_require_cookie = fq_require_cookie d,
          fq_require_referer = fq_require_referer d, fq_require_connect25 = fq_require_connect25 d,
          fq_trust_check = fq_trust_check d, fq_require_trusted = fq_require_trusted d\<rparr>)"

section \<open>Scraping\<close>

record geo_dbs =
  gd_geo :: "(ip_addr \<Rightarrow> country option) option"
  gd_asn :: "(ip_addr \<Rightarrow> asn option) option"

definition attach_geo :: "geo_dbs \<Rightarrow> proxy \<Rightarrow> proxy" where
  "attach_geo g p =
     (let p1 = (case gd_geo g of None \<Rightarrow> p | Some db \<Rightarrow> p\<lparr>p_geo := db (p_host p)\<rparr>)
      in case gd_asn g of None \<Rightarrow> p1 | Some db \<Rightarrow> p1\<lparr>p_asn := db (p_host p1)\<rparr>)"

definition uppercase_set :: "string list option \<Rightarrow> string set option" where
  "uppercase_set cs = map_option (\<lambda>v. set (map uppercase v)) cs"

text \<open>\<^verbatim>\<open>grab_task\<close>: the proxies sent, in order.\<close>

fun grab_loop :: "geo_dbs \<Rightarrow> string set option \<Rightarrow> nat option \<Rightarrow> (nat \<Rightarrow> bool) \<Rightarrow> sock_addr set \<Rightarrow> nat
    \<Rightarrow> candidate list \<Rightarrow> proxy list" where
  "grab_loop g cs bound gone seen sent [] = []"
| "grab_loop g cs bound gone seen sent (c # cands) =
     (if is_limit_reached bound sent then []
      else case parse_ip (cd_host c) of
        None \<Rightarrow> grab_loop g cs bound gone seen sent cands
      | Some host \<Rightarrow>
         if (host, cd_port c) \<in> seen then grab_loop g cs bound gone seen sent cands
         else
           let seen' = insert (host, cd_port c) seen;
               p = attach_geo g (proxy_new host (cd_port c) (cd_protocols c))
           in if \<not> country_ok p cs then grab_loop g cs bound gone seen' sent cands
              else if gone sent then []
              else p # grab_loop g cs bound gone seen' (sent + 1) cands)"

definition grab_task :: "geo_dbs \<Rightarrow> (nat \<Rightarrow> bool) \<Rightarrow> grab_query \<Rightarrow> candidate list list \<Rightarrow> proxy list" where
  "grab_task g gone q batches =
     grab_loop g (uppercase_set (gq_countries q)) (gq_limit q) gone {} 0 (concat batches)"

text \<open>The source of \<^verbatim>\<open>find_task\<close>: the flattened candidates through the filter closure.\<close>

fun find_filter :: "geo_dbs \<Rightarrow> string set option \<Rightarrow> sock_addr set \<Rightarrow> candidate list \<Rightarrow> proxy list" where
  "find_filter g cs seen [] = []"
| "find_filter g cs seen (c # cands) =
     (case parse_ip (cd_host c) of
        None \<Rightarrow> find_filter g cs seen cands
      | Some host \<Rightarrow>
         if (host, cd_port c) \<in> seen then find_filter g cs seen cands
         else
           let p = attach_geo g (proxy_new host (cd_port c) (cd_protocols c));
               rest = find_filter g cs (insert (host, cd_port c) seen) cands
           in if country_ok p cs then p # rest else rest)"

definition find_source :: "geo_dbs \<Rightarrow> find_query \<Rightarrow> candidate list list \<Rightarrow> proxy list" where
  "find_source g q batches = find_filter g (uppercase_set (fq_countries q)) {} (concat batches)"

text \<open>The source of \<^verbatim>\<open>check\<close>: the caller's proxies.\<close>

definition check_source :: "geo_dbs \<Rightarrow> find_query \<Rightarrow> proxy list \<Rightarrow> proxy list" where
  "check_source g q ps =
     filter (\<lambda>p. country_ok p (uppercase_set (fq_countries q))) (map (attach_geo g) ps)"

section \<open>Starting a run\<close>

definition from_query :: "find_query \<Rightarrow> caps_filter" where
  "from_query q = \<lparr>cf_cookie = fq_require_cookie q, cf_referer = fq_require_referer q,
     cf_connect25 = fq_require_connect25 q, cf_trusted = fq_require_trusted q\<rparr>"

definition checker_config_of :: "find_query \<Rightarrow> checker_config" where
  "checker_config_of q = \<lparr>cc_judges = fq_judges q, cc_types = fq_types q, cc_retry = fq_retry q,
     cc_post = fq_post q, cc_strict = fq_strict q, cc_relaxed = fq_relaxed_validity q,
     cc_trust = (fq_trust_check q \<or> fq_require_trusted q), cc_dnsbl = fq_dnsbl q,
     cc_liveness_url = fq_liveness_url q\<rparr>"

text \<open>What a run reaches of the outside: the URL parser, the resolver, the judge probe, the discovery
  of the host's addresses, the decompressors, and for the check of the \<open>i\<close>-th proxy the random judge
  choices and the connections.\<close>

record world =
  w_parse_url :: "string \<Rightarrow> url_parts option"
  w_resolve :: "string \<Rightarrow> ip_addr option"
  w_probe :: "judge_end \<Rightarrow> judge_end option"
  w_ext_ips :: "error + ip_addr list"
  w_codec :: codec
  w_rnd :: "nat \<Rightarrow> proto \<Rightarrow> nat"
  w_conn :: "nat \<Rightarrow> proto \<Rightarrow> nat \<Rightarrow> check_net"

definition build_checker :: "world \<Rightarrow> find_query \<Rightarrow> error + checker" where
  "build_checker w q =
     (case w_ext_ips w of
        Inl e \<Rightarrow> Inl e
      | Inr ips \<Rightarrow> checker_new (w_parse_url w) (w_resolve w) (w_probe w) (checker_config_of q) ips)"

definition run_env :: "world \<Rightarrow> find_query \<Rightarrow> bool \<Rightarrow> checker \<Rightarrow> cs_env" where
  "run_env w q observer ck =
     \<lparr>ce_check = (\<lambda>i p. Checker.check (w_codec w) (w_resolve w) ck (w_rnd w i) (w_conn w i) p),
      ce_max_conn = fq_max_conn q, ce_limit = fq_limit q, ce_caps = from_query q, ce_observer = observer\<rparr>"

definition find_run :: "world \<Rightarrow> geo_dbs \<Rightarrow> bool \<Rightarrow> find_query \<Rightarrow> candidate list list \<Rightarrow> error + cs_env \<times> cs_state" where
  "find_run w g observer q batches =
     (if fq_types q = [] then Inl NoTypes
      else case build_checker w q of
        Inl e \<Rightarrow> Inl e
      | Inr ck \<Rightarrow> Inr (run_env w q observer ck, cs_init (find_source g q batches)))"

definition check_run :: "world \<Rightarrow> geo_dbs \<Rightarrow> bool \<Rightarrow> find_query \<Rightarrow> proxy list \<Rightarrow> error + cs_env \<times> cs_state" where
  "check_run w g observer q ps =
     (if fq_types q = [] then Inl NoTypes
      else case build_checker w q of
        Inl e \<Rightarrow> Inl e
      | Inr ck \<Rightarrow> Inr (run_env w q observer ck, cs_init (check_source g q ps)))"

section \<open>What a run scrapes\<close>

definition candidate_addrs :: "candidate list \<Rightarrow> sock_addr set" where
  "candidate_addrs cs = {(h, pt). \<exists>c \<in> set cs. parse_ip (cd_host c) = Some h \<and> cd_port c = pt}"

definition located :: "geo_dbs \<Rightarrow> string set option \<Rightarrow> ip_addr \<Rightarrow> bool" where
  "located g cs h \<longleftrightarrow>
     (case cs of None \<Rightarrow> True
      | Some allowed \<Rightarrow> (case gd_geo g of None \<Rightarrow> False
         | Some db \<Rightarrow> (case db h of None \<Rightarrow> False | Some c \<Rightarrow> uppercase (c_code c) \<in> allowed)))"

lemma attach_geo_simps [simp]:
  "p_host (attach_geo g p) = p_host p" "p_port (attach_geo g p) = p_port p"
  "p_types (attach_geo g p) = p_types p" "expected_types (attach_geo g p) = expected_types p"
  by (simp_all add: attach_geo_def Let_def split: option.splits)

lemma country_ok_attach: "p_geo p = None \<Longrightarrow> country_ok (attach_geo g p) cs \<longleftrightarrow> located g cs (p_host p)"
  by (auto simp: country_ok_def located_def attach_geo_def Let_def split: option.splits)

lemma proxy_new_simps [simp]: "p_host (proxy_new h pt ex) = h" "p_port (proxy_new h pt ex) = pt" "p_geo (proxy_new h pt ex) = None"
  by (simp_all add: proxy_new_def)

lemma candidate_addrs_simps [simp]:
  "candidate_addrs [] = {}"
  "candidate_addrs (c # cs) = (case parse_ip (cd_host c) of None \<Rightarrow> {} | Some h \<Rightarrow> {(h, cd_port c)}) \<union> candidate_addrs cs"
  by (auto simp: candidate_addrs_def split: option.splits)

lemma find_filter_spec:
  "distinct (map p_addr (find_filter g cs seen cands))
   \<and> p_addr ` set (find_filter g cs seen cands) = {a \<in> candidate_addrs cands - seen. located g cs (fst a)}
   \<and> (\<forall>p \<in> set (find_filter g cs seen cands). country_ok p cs)"
proof (induction cands arbitrary: seen)
  case (Cons c cands)
  show ?case
  proof (cases "parse_ip (cd_host c)")
    case None
    with Cons show ?thesis by simp
  next
    case (Some h)
    let ?p = "attach_geo g (proxy_new h (cd_port c) (cd_protocols c))"
    have l: "country_ok ?p cs \<longleftrightarrow> located g cs h" by (simp add: country_ok_attach)
    show ?thesis
    proof (cases "(h, cd_port c) \<in> seen")
      case True
      with Some Cons[of seen] show ?thesis by auto
    next
      case False
      with Some Cons[of "insert (h, cd_port c) seen"] l show ?thesis
        by (auto simp: Let_def)
    qed
  qed
qed simp

lemma grab_loop_take:
  "grab_loop g cs bound (\<lambda>_. False) seen sent cands =
    (case bound of None \<Rightarrow> find_filter g cs seen cands | Some l \<Rightarrow> take (l - sent) (find_filter g cs seen cands))"
proof (induction cands arbitrary: seen sent)
  case (Cons c cands)
  show ?case
  proof (cases bound)
    case None
    with Cons show ?thesis by (auto simp: is_limit_reached_def Let_def split: option.splits)
  next
    case (Some l)
    show ?thesis
    proof (cases "l \<le> sent")
      case True
      with Some show ?thesis by (simp add: is_limit_reached_def)
    next
      case False
      then obtain k where "l - sent = Suc k" "l - Suc sent = k" by (metis Suc_diff_Suc not_le)
      with Some False Cons show ?thesis
        by (auto simp: is_limit_reached_def Let_def split: option.splits)
    qed
  qed
qed (simp split: option.split)

text \<open>C28. What \<open>find\<close> checks and what \<open>grab\<close> returns: one proxy for each different address that parses
  among the candidates and lies in a requested country, and no other; \<open>grab\<close> with a limit delivers
  the first so many of exactly the proxies that \<open>find\<close> would check.\<close>

theorem source_spec:
  "distinct (map p_addr (find_source g q batches))
   \<and> p_addr ` set (find_source g q batches)
     = {a \<in> candidate_addrs (concat batches). located g (uppercase_set (fq_countries q)) (fst a)}
   \<and> grab_task g (\<lambda>_. False) \<lparr>gq_countries = fq_countries q, gq_limit = bound\<rparr> batches
     = (case bound of None \<Rightarrow> find_source g q batches | Some l \<Rightarrow> take l (find_source g q batches))"
  using find_filter_spec[of g "uppercase_set (fq_countries q)" "{}" "concat batches"]
  by (simp add: find_source_def grab_task_def grab_loop_take split: option.split)

section \<open>What a run delivers\<close>

lemma build_checker_requested: "build_checker w q = Inr ck \<Longrightarrow> ck_requested ck = fq_types q \<and> ck_strict ck = fq_strict q"
  by (auto simp: build_checker_def checker_new_def checker_config_of_def Let_def split: sum.splits if_splits option.splits)

lemma find_run_Inr:
  assumes "find_run w g observer q batches = Inr (e, s)"
  obtains ck where "fq_types q \<noteq> []" "build_checker w q = Inr ck" "e = run_env w q observer ck"
    "s = cs_init (find_source g q batches)"
  using assms by (auto simp: find_run_def split: if_splits sum.splits)

lemma deliverable_addrs:
  assumes "\<And>i p. p_addr (snd (ce_check e i p)) = p_addr p"
  shows "map p_addr (map snd (checked_all e ps)) = map p_addr ps"
proof -
  have "map p_addr (map snd (checked_all e ps)) = map (p_addr \<circ> snd) (enumerate 0 ps)"
    using assms by (simp add: checked_all_def case_prod_unfold)
  then show ?thesis by (metis map_map map_snd_enumerate)
qed

lemma distinct_subseteq_mset:
  assumes "mset xs \<subseteq># mset ys" "distinct ys"
  shows "distinct xs"
proof -
  have "count (mset xs) a \<le> 1" for a
  proof -
    have "count (mset ys) a \<le> 1" using assms(2)[unfolded distinct_count_atmost_1, rule_format, of a]
      by (cases "a \<in> set ys") (simp_all only: if_True if_False order.refl zero_le)
    with mset_subset_eq_count[OF assms(1)] show ?thesis by (rule order.trans)
  qed
  then have "count (mset xs) a = (if a \<in> set xs then 1 else 0)" for a
    by (metis count_eq_zero_iff le_Suc_eq le_zero_eq One_nat_def set_mset_mset)
  then show ?thesis unfolding distinct_count_atmost_1 by blast
qed

lemma distinct_submset:
  assumes "mset xs \<subseteq># mset (map snd (filter P ys))" "distinct (map f (map snd ys))"
  shows "distinct (map f xs)"
proof (rule distinct_subseteq_mset)
  show "distinct (map f (map snd (filter P ys)))"
    using assms(2) by (induction ys) auto
  show "mset (map f xs) \<subseteq># mset (map f (map snd (filter P ys)))"
    using image_mset_subseteq_mono[OF assms(1), of f] unfolding mset_map .
qed

lemma deliverable_in:
  assumes "p \<in> set (deliverable e ps)"
  obtains i q where "q \<in> set ps" "ce_check e i q = (True, p)" "passes (ce_caps e) p"
proof -
  from assms obtain w i q where "(i, q) \<in> set (enumerate 0 ps)" "ce_check e i q = (w, p)" "w" "passes (ce_caps e) p"
    by (auto simp: deliverable_def checked_all_def)
  then show ?thesis using that[of q i] by (auto simp: in_set_enumerate_eq)
qed

text \<open>The promise of \<open>find\<close> about one delivered proxy.\<close>

definition as_asked :: "find_query \<Rightarrow> candidate list list \<Rightarrow> proxy \<Rightarrow> bool" where
  "as_asked q batches p \<longleftrightarrow>
     is_working p \<and> (\<exists>pr l. p_types p pr = Some l \<and> level_matches (fq_types q) pr l)
     \<and> (fq_strict q \<longrightarrow> (\<forall>pr l. p_types p pr = Some l \<longrightarrow> level_matches (fq_types q) pr l))
     \<and> passes (from_query q) p \<and> country_ok p (uppercase_set (fq_countries q))
     \<and> p_addr p \<in> candidate_addrs (concat batches)"

lemma run_check_as_asked:
  assumes "build_checker w q = Inr ck" "fq_types q \<noteq> []" "p \<in> set (find_source g q batches)"
    "ce_check (run_env w q observer ck) i p = (True, p')" "passes (from_query q) p'"
  shows "as_asked q batches p'"
proof -
  note r = build_checker_requested[OF assms(1)]
  have c: "Checker.check (w_codec w) (w_resolve w) ck (w_rnd w i) (w_conn w i) p = (True, p')"
    using assms(4) by (simp add: run_env_def)
  from check_true[of "w_codec w" "w_resolve w" ck "w_rnd w i" "w_conn w i" p] c r assms(2)
  have "is_working p' \<and> (\<exists>pr l. p_types p' pr = Some l \<and> level_matches (fq_types q) pr l)
     \<and> (fq_strict q \<longrightarrow> (\<forall>pr l. p_types p' pr = Some l \<longrightarrow> level_matches (fq_types q) pr l))"
    by simp
  moreover have k: "p_addr p' = p_addr p" "p_geo p' = p_geo p"
    using check_keeps[of "w_codec w" "w_resolve w" ck "w_rnd w i" "w_conn w i" p] c by simp_all
  moreover have "country_ok p (uppercase_set (fq_countries q))" "p_addr p \<in> candidate_addrs (concat batches)"
    using assms(3) find_filter_spec[of g "uppercase_set (fq_countries q)" "{}" "concat batches"]
    by (auto simp: find_source_def)
  moreover have "country_ok p' cs = country_ok p cs" for cs
    unfolding country_ok_def k(2) ..
  ultimately show ?thesis using assms(5) by (simp add: as_asked_def)
qed

lemma find_as_asked:
  assumes "find_run w g observer q batches = Inr (e, s0)" "cs_run e as s0 = Some s"
  shows "list_all (as_asked q batches) (cs_out s) \<and> distinct (map p_addr (cs_out s))
    \<and> (case fq_limit q of None \<Rightarrow> True | Some l \<Rightarrow> length (cs_out s) \<le> l)"
proof -
  obtain ck where ck: "fq_types q \<noteq> []" "build_checker w q = Inr ck" "e = run_env w q observer ck"
    "s0 = cs_init (find_source g q batches)"
    using assms(1) by (rule find_run_Inr)
  note b = run_bounded[OF assms(2)[unfolded ck(4)]]
  have caps: "ce_caps e = from_query q" "ce_limit e = fq_limit q" by (simp_all add: ck(3) run_env_def)
  have "as_asked q batches p" if "p \<in> set (cs_out s)" for p
  proof -
    have "p \<in> set (deliverable e (find_source g q batches))"
      using b(3) that by (metis mset_subset_eqD set_mset_mset)
    then obtain i p0 where "p0 \<in> set (find_source g q batches)" "ce_check e i p0 = (True, p)" "passes (ce_caps e) p"
      by (rule deliverable_in)
    then show ?thesis using run_check_as_asked[OF ck(2,1)] ck(3) caps by metis
  qed
  moreover have "distinct (map p_addr (cs_out s))"
  proof (rule distinct_submset)
    show "mset (cs_out s) \<subseteq># mset (map snd (filter (\<lambda>(w, p). w \<and> passes (ce_caps e) p) (checked_all e (find_source g q batches))))"
      using b(3) by (simp only: deliverable_def)
    have "p_addr (snd (ce_check e i p)) = p_addr p" for i p
      using check_keeps by (simp add: ck(3) run_env_def)
    from deliverable_addrs[OF this] show "distinct (map p_addr (map snd (checked_all e (find_source g q batches))))"
      using find_filter_spec by (metis find_source_def)
  qed
  ultimately show ?thesis using b(2) by (auto simp: list_all_iff caps split: option.split)
qed

text \<open>C7. Everything a run of \<open>find\<close> delivers, in any interleaving and at any moment, is what was asked
  for: a working proxy of a scraped address in a requested country, with a confirmed protocol at a
  requested level (under \<open>strict\<close>, only such protocols) and the requested capabilities; no address is
  delivered twice and never more than \<open>limit\<close>.\<close>

theorem find_delivers_as_asked:
  assumes "find_run w g observer q batches = Inr (e, s0)" "cs_run e as s0 = Some s"
  shows "list_all (as_asked q batches) (cs_out s) \<and> distinct (map p_addr (cs_out s))
    \<and> (case fq_limit q of None \<Rightarrow> True | Some l \<Rightarrow> length (cs_out s) \<le> l)"
  using find_as_asked[OF assms] .

text \<open>A run over one provider page that lists one address twice, with the liveness fallback.\<close>

definition sample_query :: find_query where
  "sample_query = find_query_default\<lparr>fq_types := [ts_any Http], fq_limit := Some 1, fq_strict := True,
     fq_liveness_url := Some ''http://h/''\<rparr>"

definition sample_world :: world where
  "sample_world = \<lparr>w_parse_url = (\<lambda>_. Some \<lparr>u_scheme = ''http'', u_host = Some ''h'', u_path = ''/'', u_query = None\<rparr>),
     w_resolve = (\<lambda>_. Some (V4 1 1 1 1)), w_probe = (\<lambda>_. None), w_ext_ips = Inr [], w_codec = sample_codec,
     w_rnd = (\<lambda>_ _. 0), w_conn = (\<lambda>_ _ _. sample_check_net [])\<rparr>"

definition sample_batches :: "candidate list list" where
  "sample_batches = [[\<lparr>cd_host = show_v4 9 9 9 9, cd_port = 80, cd_protocols = {}\<rparr>,
     \<lparr>cd_host = show_v4 9 9 9 9, cd_port = 80, cd_protocols = {Http}\<rparr>]]"

definition no_geo :: geo_dbs where
  "no_geo = \<lparr>gd_geo = None, gd_asn = None\<rparr>"

definition find_acts :: "act list" where
  "find_acts = [Pull, Acquire, Task 0, Task 0, Task 0, Task 0, Task 0, Pull, Finish]"

definition sample_run_ck :: checker where
  "sample_run_ck = projr (build_checker sample_world sample_query)"

lemma sample_build: "build_checker sample_world sample_query = Inr sample_run_ck"
  "ck_dnsbl sample_run_ck = []" "ck_requested sample_run_ck = [ts_any Http]" "ck_strict sample_run_ck"
  "ck_retry sample_run_ck = retry_default" "\<exists>lt. ck_mode sample_run_ck = Liveness lt"
  by (simp_all add: sample_run_ck_def build_checker_def sample_world_def checker_new_def checker_config_of_def
      sample_query_def find_query_default_def probe_all_def jp_empty_def map_filter_def liveness_resolve_def
      judge_parse_def Let_def)

lemma sample_find_source: "find_source no_geo sample_query sample_batches = [proxy_new (V4 9 9 9 9) 80 {}]"
  by (simp add: find_source_def sample_batches_def sample_query_def find_query_default_def uppercase_set_def
      parse_ip_show_v4 country_ok_def attach_geo_def no_geo_def Let_def)

lemma sample_find_check:
  "fst (Checker.check sample_codec r sample_run_ck (\<lambda>_. 0) (\<lambda>_ _. sample_check_net []) (proxy_new (V4 9 9 9 9) 80 {}))"
proof -
  let ?p = "proxy_new (V4 9 9 9 9) 80 {}"
  obtain lt where lt: "ck_mode sample_run_ck = Liveness lt" using sample_build(6) by blast
  have c: "check_one sample_codec sample_run_ck 0 (\<lambda>_. sample_check_net []) Http ?p = (True, confirm Http (1/4) ob_default ?p)"
    by (simp add: check_one_def probe_target_def lt sample_build retry_default_def numeral_3_eq_3 sample_attempt)
      (simp add: sample_check_net_def)
  have n: "negotiators sample_run_ck ?p = [Http]"
    by (simp add: negotiators_def sample_build proto_ALL_def ts_any_def proxy_new_def)
  have "level_matches [ts_any Http] pr l" for pr l
    by (simp add: level_matches_def ts_any_def)
  then have "fst (types_passed sample_run_ck (confirm Http (1/4) ob_default ?p))"
    using sample_build by (simp add: types_passed_strict is_working_iff exI[of _ Http])
  with c n show ?thesis using sample_build by (simp add: Checker.check_def)
qed

theorem find_delivers_as_asked_witness:
  "\<exists>e s0 s. find_run sample_world no_geo False sample_query sample_batches = Inr (e, s0)
     \<and> cs_run e find_acts s0 = Some s \<and> length (cs_out s) = 1
     \<and> list_all (as_asked sample_query sample_batches) (cs_out s)"
proof -
  define e where "e = run_env sample_world sample_query False sample_run_ck"
  let ?p = "proxy_new (V4 9 9 9 9) 80 {}"
  obtain q where q: "ce_check e 0 ?p = (True, q)"
    using sample_find_check[of "w_resolve sample_world"] by (cases "ce_check e 0 ?p") (simp add: e_def run_env_def sample_world_def)
  have e: "ce_max_conn e = 200" "ce_limit e = Some 1" "\<not> ce_observer e" "passes (ce_caps e) x" for x
    by (simp_all add: e_def run_env_def from_query_def sample_query_def find_query_default_def passes_def)
  have r: "find_run sample_world no_geo False sample_query sample_batches = Inr (e, cs_init [?p])"
    by (simp add: find_run_def sample_build sample_find_source e_def) (simp add: sample_query_def)
  obtain s where s: "cs_run e find_acts (cs_init [?p]) = Some s" "length (cs_out s) = 1"
    using q by (simp add: find_acts_def cs_init_def is_limit_reached_def channel_capacity_def e)
  from find_delivers_as_asked[OF r s(1)] r s show ?thesis by blast
qed

text \<open>The builder: an unset field is the default, \<open>limit(0)\<close> is unlimited even after another limit,
  and \<open>max_tries\<close> overrides only the count of the policy, in either order of the two setters.\<close>

theorem builder_spec:
  "build builder_default = find_query_default
   \<and> build (set_limit n b) = (build b)\<lparr>fq_limit := (if n = 0 then None else Some n)\<rparr>
   \<and> build (set_max_tries k (set_retry rp b)) = (build b)\<lparr>fq_retry := rp\<lparr>rp_max_tries := k\<rparr>\<rparr>
   \<and> set_max_tries k (set_retry rp b) = set_retry rp (set_max_tries k b)"
  by (simp add: build_def builder_default_def find_query_default_def set_limit_def set_max_tries_def set_retry_def
      unwrap_or_def option_or_def Let_def)

end
