(* ===== verification/Proxy_Json.thy ===== *)
theory Proxy_Json
  imports Proxy Ip_Text "HOL-Library.Monad_Syntax"
begin

text \<open>
  The JSON form of a proxy, \<^verbatim>\<open>src/src/proxy.rs\<close>: \<^verbatim>\<open>Serialize\<close>, \<^verbatim>\<open>Deserialize\<close> and the line-delimited
  files of \<^verbatim>\<open>write_ndjson\<close> and \<^verbatim>\<open>read_ndjson\<close>.

  A JSON value is a term of \<open>json\<close>; the text of a value is the business of \<^verbatim>\<open>serde_json\<close>, whose
  \<open>to_string\<close> and \<open>from_str\<close> are arguments. The structs of the deserializer follow the rules of the
  derived implementations: an object in any order with unknown keys ignored and a repeated key
  refused, or an array of the fields in order; a missing field has its default or is an error.
\<close>

section \<open>JSON values\<close>

datatype json = JNull | JStr string | JNum int | JReal real | JArr "json list" | JObj "(string \<times> json) list"

definition de_string :: "json \<Rightarrow> string option" where
  "de_string j = (case j of JStr s \<Rightarrow> Some s | _ \<Rightarrow> None)"

definition de_uint :: "nat \<Rightarrow> json \<Rightarrow> nat option" where
  "de_uint w j = (case j of JNum n \<Rightarrow> if 0 \<le> n \<and> n < 2 ^ w then Some (nat n) else None | _ \<Rightarrow> None)"

definition de_opt :: "(json \<Rightarrow> 'a option) \<Rightarrow> json \<Rightarrow> 'a option option" where
  "de_opt de j = (if j = JNull then Some None else map_option Some (de j))"

fun de_all :: "(json \<Rightarrow> 'a option) \<Rightarrow> json list \<Rightarrow> 'a list option" where
  "de_all de [] = Some []"
| "de_all de (j # js) = do { x \<leftarrow> de j; xs \<leftarrow> de_all de js; Some (x # xs) }"

definition de_vec :: "(json \<Rightarrow> 'a option) \<Rightarrow> json \<Rightarrow> 'a list option" where
  "de_vec de j = (case j of JArr js \<Rightarrow> de_all de js | _ \<Rightarrow> None)"

text \<open>The fields of a struct.\<close>

definition struct_fields :: "string list \<Rightarrow> json \<Rightarrow> (string \<rightharpoonup> json) option" where
  "struct_fields names j =
     (case j of
        JObj kvs \<Rightarrow> if distinct (filter (\<lambda>k. k \<in> set names) (map fst kvs)) then Some (map_of kvs) else None
      | JArr js \<Rightarrow> if length js \<le> length names then Some (map_of (zip names js)) else None
      | _ \<Rightarrow> None)"

definition req_field :: "(string \<rightharpoonup> json) \<Rightarrow> string \<Rightarrow> (json \<Rightarrow> 'a option) \<Rightarrow> 'a option" where
  "req_field f k de = (case f k of None \<Rightarrow> None | Some j \<Rightarrow> de j)"

definition opt_field :: "(string \<rightharpoonup> json) \<Rightarrow> string \<Rightarrow> 'a \<Rightarrow> (json \<Rightarrow> 'a option) \<Rightarrow> 'a option" where
  "opt_field f k d de = (case f k of None \<Rightarrow> Some d | Some j \<Rightarrow> de j)"

section \<open>Writing\<close>

definition level_str :: "anon_level option \<Rightarrow> string" where
  "level_str l = (case l of None \<Rightarrow> [] | Some x \<Rightarrow> anon_str x)"

definition type_json :: "proto \<times> anon_level option \<Rightarrow> json" where
  "type_json t = JObj [(''level'', JStr (level_str (snd t))), (''type'', JStr (proto_str (fst t)))]"

definition opt_str :: "string option \<Rightarrow> json" where
  "opt_str x = (case x of None \<Rightarrow> JNull | Some s \<Rightarrow> JStr s)"

definition geo_json :: "country option \<Rightarrow> json" where
  "geo_json g =
     (let code = (case g of Some c \<Rightarrow> c_code c | None \<Rightarrow> []);
          name = (case g of Some c \<Rightarrow> c_name c | None \<Rightarrow> []);
          region = (case g of Some c \<Rightarrow> c_region c | None \<Rightarrow> None)
      in JObj [(''city'', opt_str (case g of Some c \<Rightarrow> c_city c | None \<Rightarrow> None)),
           (''country'', JObj [(''code'', JStr code), (''name'', JStr name)]),
           (''region'', JObj [(''code'', JStr (case region of Some r \<Rightarrow> r_code r | None \<Rightarrow> [])),
              (''name'', JStr (case region of Some r \<Rightarrow> r_name r | None \<Rightarrow> []))])])"

definition asn_json :: "asn option \<Rightarrow> json" where
  "asn_json a =
     (case a of None \<Rightarrow> JNull
      | Some x \<Rightarrow> JObj [(''number'', JNum (uint (asn_number x))), (''org'', opt_str (asn_org x))])"

definition serialize :: "proxy \<Rightarrow> json" where
  "serialize p =
     JObj [(''host'', JStr (show_ip (p_host p))), (''port'', JNum (uint (p_port p))), (''geo'', geo_json (p_geo p)),
       (''asn'', asn_json (p_asn p)), (''types'', JArr (map type_json (types_sorted p))),
       (''avg_resp_time'', JReal (avg_resp_time p)), (''error_rate'', JReal (error_rate p))]"

section \<open>Reading\<close>

definition de_pair :: "json \<Rightarrow> (string \<times> string) option" where
  "de_pair j = do {
     f \<leftarrow> struct_fields [''code'', ''name''] j;
     code \<leftarrow> opt_field f ''code'' [] de_string;
     name \<leftarrow> opt_field f ''name'' [] de_string;
     Some (code, name) }"

definition de_geo :: "json \<Rightarrow> ((string \<times> string) \<times> (string \<times> string) \<times> string option) option" where
  "de_geo j = do {
     f \<leftarrow> struct_fields [''country'', ''region'', ''city''] j;
     country \<leftarrow> opt_field f ''country'' ([], []) de_pair;
     region \<leftarrow> opt_field f ''region'' ([], []) de_pair;
     city \<leftarrow> opt_field f ''city'' None (de_opt de_string);
     Some (country, region, city) }"

definition de_asn :: "json \<Rightarrow> asn option" where
  "de_asn j = do {
     f \<leftarrow> struct_fields [''number'', ''org''] j;
     number \<leftarrow> opt_field f ''number'' 0 (de_uint 32);
     org \<leftarrow> opt_field f ''org'' None (de_opt de_string);
     Some \<lparr>asn_number = of_nat number, asn_org = org\<rparr> }"

definition de_type :: "json \<Rightarrow> (string \<times> string) option" where
  "de_type j = do {
     f \<leftarrow> struct_fields [''type'', ''level''] j;
     pr \<leftarrow> req_field f ''type'' de_string;
     level \<leftarrow> opt_field f ''level'' [] de_string;
     Some (pr, level) }"

definition country_of :: "(string \<times> string) \<times> (string \<times> string) \<times> string option \<Rightarrow> country option" where
  "country_of g =
     (case g of ((code, name), (rcode, rname), city) \<Rightarrow>
        if code = [] then None
        else Some \<lparr>c_code = code, c_name = name,
          c_region = (if rcode = [] \<and> rname = [] then None else Some \<lparr>r_code = rcode, r_name = rname\<rparr>),
          c_city = (if city = Some [] then None else city)\<rparr>)"

fun types_of :: "(string \<times> string) list \<Rightarrow> type_map \<Rightarrow> type_map option" where
  "types_of [] m = Some m"
| "types_of ((pr, level) # ts) m = do {
     p \<leftarrow> proto_from_str pr;
     l \<leftarrow> (if level = [] then Some None else map_option Some (anon_from_str level));
     types_of ts (m(p \<mapsto> l)) }"

definition deserialize :: "json \<Rightarrow> proxy option" where
  "deserialize j = do {
     f \<leftarrow> struct_fields [''host'', ''port'', ''geo'', ''asn'', ''types''] j;
     host_s \<leftarrow> req_field f ''host'' de_string;
     port \<leftarrow> req_field f ''port'' (de_uint 16);
     geo \<leftarrow> opt_field f ''geo'' (([], []), ([], []), None) de_geo;
     a \<leftarrow> opt_field f ''asn'' None (de_opt de_asn);
     ts \<leftarrow> opt_field f ''types'' [] (de_vec de_type);
     host \<leftarrow> parse_ip host_s;
     types \<leftarrow> types_of ts Map.empty;
     Some ((proxy_new host (of_nat port) {})\<lparr>p_geo := country_of geo, p_asn := a, p_types := types\<rparr>) }"

section \<open>Files\<close>

definition write_ndjson :: "(json \<Rightarrow> string) \<Rightarrow> proxy list \<Rightarrow> string" where
  "write_ndjson to_string ps = concat (map (\<lambda>p. to_string (serialize p) @ [LF]) ps)"

fun read_lines :: "(string \<Rightarrow> json option) \<Rightarrow> string list \<Rightarrow> proxy list option" where
  "read_lines from_str [] = Some []"
| "read_lines from_str (l # ls) =
     (if trim l = [] then read_lines from_str ls
      else do { j \<leftarrow> from_str l; p \<leftarrow> deserialize j; ps \<leftarrow> read_lines from_str ls; Some (p # ps) })"

definition read_ndjson :: "(string \<Rightarrow> json option) \<Rightarrow> string \<Rightarrow> proxy list option" where
  "read_ndjson from_str txt = read_lines from_str (lines txt)"

section \<open>Round trips\<close>

lemma bind_simps [simp]: "Option.bind (Some x) f = f x" "Option.bind None f = None"
  by simp_all

lemma struct_obj: "distinct (filter (\<lambda>k. k \<in> set names) (map fst kvs)) \<Longrightarrow> struct_fields names (JObj kvs) = Some (map_of kvs)"
  by (simp add: struct_fields_def)

lemmas de_simps = struct_obj req_field_def opt_field_def de_string_def de_uint_def de_opt_def de_vec_def opt_str_def

lemma de_opt_str: "de_opt de_string (opt_str x) = Some x"
  by (cases x) (simp_all add: de_simps)

lemma de_pair_json: "de_pair (JObj [(''code'', JStr a), (''name'', JStr b)]) = Some (a, b)"
  by (simp add: de_pair_def de_simps)

lemma de_geo_json: "de_geo (geo_json g) =
    Some (case g of None \<Rightarrow> (([], []), ([], []), None)
      | Some c \<Rightarrow> ((c_code c, c_name c),
          (case c_region c of None \<Rightarrow> ([], []) | Some r \<Rightarrow> (r_code r, r_name r)), c_city c))"
  by (simp add: de_geo_def geo_json_def Let_def struct_obj opt_field_def de_pair_json de_opt_str split: option.split)

lemma de_asn_json: "de_opt de_asn (asn_json a) = Some a"
proof (cases a)
  case (Some x)
  have "de_uint 32 (JNum (uint (asn_number x))) = Some (unat (asn_number x))"
    using uint_bounded[of "asn_number x"] by (simp add: de_uint_def)
  with Some show ?thesis
    by (simp add: asn_json_def de_opt_def de_asn_def struct_obj opt_field_def de_opt_str[unfolded de_opt_def])
qed (simp add: asn_json_def de_opt_def)

lemma de_type_json: "de_type (type_json t) = Some (proto_str (fst t), level_str (snd t))"
  by (simp add: de_type_def type_json_def de_simps)

lemma de_all_map: "(\<And>x. de (f x) = Some (g x)) \<Longrightarrow> de_all de (map f xs) = Some (map g xs)"
  by (induction xs) simp_all

lemma types_of_str:
  "types_of (map (\<lambda>t. (proto_str (fst t), level_str (snd t))) ts) m = Some (m ++ map_of (rev ts))"
proof (induction ts arbitrary: m)
  case (Cons t ts)
  obtain pr l where t: "t = (pr, l)" by (cases t)
  have m: "m(pr \<mapsto> l) ++ map_of (rev ts) = m ++ map_of (rev (t # ts))"
    by (rule ext) (auto simp: t map_add_def map_of_append split: option.splits)
  have "types_of (map (\<lambda>t. (proto_str (fst t), level_str (snd t))) (t # ts)) m
      = types_of (map (\<lambda>t. (proto_str (fst t), level_str (snd t))) ts) (m(pr \<mapsto> l))"
    by (cases l) (simp_all add: t level_str_def)
  then show ?case by (simp only: Cons m)
qed simp

lemma map_of_type_entries:
  assumes m: "mset ts = mset (type_entries m)"
  shows "map_of (rev ts) = m"
proof
  fix pr
  have "distinct (map fst (type_entries m))"
    by (simp add: type_entries_def comp_def type_keys_def proto_ALL_def)
  moreover have "mset (map fst ts) = mset (map fst (type_entries m))" using m by simp
  ultimately have d: "distinct (map fst (rev ts))"
    unfolding rev_map[symmetric] distinct_rev using mset_eq_imp_distinct_iff by blast
  have "set (rev ts) = set (type_entries m)" using mset_eq_setD[OF m] by simp
  with map_of_eq_Some_iff[OF d, of pr] type_entries_iff[of pr _ m]
  have e: "map_of (rev ts) pr = Some l \<longleftrightarrow> m pr = Some l" for l by blast
  show "map_of (rev ts) pr = m pr"
    using e[of "the (m pr)"] e[of "the (map_of (rev ts) pr)"]
    by (cases "m pr"; cases "map_of (rev ts) pr") auto
qed

lemma types_sorted_map: "map_of (rev (types_sorted p)) = p_types p"
  by (rule map_of_type_entries) (simp add: types_sorted_def)

text \<open>What a saved proxy keeps: its address, its location (a city or region with no name, and a location
  with no country code, are dropped), its network and its confirmed types.\<close>

definition kept_geo :: "country option \<Rightarrow> country option" where
  "kept_geo g =
     (case g of None \<Rightarrow> None
      | Some c \<Rightarrow> if c_code c = [] then None
          else Some (c\<lparr>c_region := (case c_region c of Some r \<Rightarrow> if r_code r = [] \<and> r_name r = [] then None else Some r | None \<Rightarrow> None),
                 c_city := (if c_city c = Some [] then None else c_city c)\<rparr>))"

definition kept :: "proxy \<Rightarrow> proxy" where
  "kept p = (proxy_new (p_host p) (p_port p) {})\<lparr>p_geo := kept_geo (p_geo p), p_asn := p_asn p, p_types := p_types p\<rparr>"

lemma country_of_json:
  "country_of (case g of None \<Rightarrow> (([], []), ([], []), None)
      | Some c \<Rightarrow> ((c_code c, c_name c), (case c_region c of None \<Rightarrow> ([], []) | Some r \<Rightarrow> (r_code r, r_name r)), c_city c))
    = kept_geo g"
  by (auto simp: country_of_def kept_geo_def split: option.splits)

lemma deserialize_serialize: "deserialize (serialize p) = Some (kept p)"
proof -
  have "de_uint 16 (JNum (uint (p_port p))) = Some (unat (p_port p))"
    using uint_bounded[of "p_port p"] by (simp add: de_uint_def)
  moreover have "types_of (map (\<lambda>t. (proto_str (fst t), level_str (snd t))) (types_sorted p)) Map.empty = Some (p_types p)"
    by (simp add: types_of_str types_sorted_map)
  ultimately show ?thesis
    by (simp add: deserialize_def serialize_def struct_obj req_field_def opt_field_def de_geo_json de_asn_json
        de_string_def de_vec_def de_all_map[of de_type type_json, OF de_type_json] country_of_json kept_def)
qed

lemma serialize_inj_kept:
  assumes "serialize p = serialize q"
  shows "kept p = kept q"
  using deserialize_serialize[of p] deserialize_serialize[of q] assms by simp

text \<open>What \<^verbatim>\<open>serde_json\<close> promises of the text of these values: it reads back, and it is one line with
  something on it.\<close>

definition json_text_ok :: "(json \<Rightarrow> string) \<Rightarrow> (string \<Rightarrow> json option) \<Rightarrow> json \<Rightarrow> bool" where
  "json_text_ok to_string from_str j \<longleftrightarrow>
     from_str (to_string j) = Some j \<and> LF \<notin> set (to_string j) \<and> trim (to_string j) \<noteq> []
     \<and> last (to_string j) \<noteq> CR"

lemma lines_ndjson:
  assumes "\<forall>l \<in> set ls. LF \<notin> set l \<and> l \<noteq> [] \<and> last l \<noteq> CR"
  shows "lines (concat (map (\<lambda>l. l @ [LF]) ls)) = ls"
proof -
  have "split_char LF (concat (map (\<lambda>l. l @ [LF]) ls)) = ls @ [[]]"
    using assms
  proof (induction ls)
    case (Cons l ls)
    then have "\<forall>c \<in> set l. \<not> LF = c" by auto
    from split_on_sep[OF this, of LF "concat (map (\<lambda>l. l @ [LF]) ls)"] Cons show ?case
      by (simp add: split_char_def)
  qed (simp add: split_char_def)
  moreover have "map strip_cr ls = ls" using assms by (simp add: map_idI strip_cr_def)
  ultimately show ?thesis by (simp add: lines_def)
qed

lemma read_lines_map:
  assumes "\<forall>p \<in> set ps. json_text_ok to_string from_str (serialize p)"
  shows "read_lines from_str (map (\<lambda>p. to_string (serialize p)) ps) = Some (map kept ps)"
  using assms by (induction ps) (simp_all add: json_text_ok_def deserialize_serialize)

lemma ndjson_back:
  assumes "\<forall>p \<in> set ps. json_text_ok to_string from_str (serialize p)"
  shows "read_ndjson from_str (write_ndjson to_string ps) = Some (map kept ps)"
proof -
  have "lines (concat (map (\<lambda>l. l @ [LF]) (map (\<lambda>p. to_string (serialize p)) ps))) = map (\<lambda>p. to_string (serialize p)) ps"
    by (rule lines_ndjson) (use assms in \<open>fastforce simp: json_text_ok_def trim_def trim_start_def trim_end_def\<close>)
  then have "lines (write_ndjson to_string ps) = map (\<lambda>p. to_string (serialize p)) ps"
    by (simp add: write_ndjson_def comp_def)
  then show ?thesis using read_lines_map[OF assms] by (simp add: read_ndjson_def)
qed

text \<open>A pool written with \<open>write_ndjson\<close> and read again with \<open>read_ndjson\<close> is the same list of proxies
  in the same order, each with its address, location, network and confirmed types, and with fresh
  statistics and no credentials.\<close>

theorem ndjson_roundtrip:
  assumes "\<forall>p \<in> set ps. json_text_ok to_string from_str (serialize p)"
  shows "read_ndjson from_str (write_ndjson to_string ps) = Some (map kept ps)"
  using assms by (rule ndjson_back)

definition sample_saved :: proxy where
  "sample_saved = (add_type Http (Some High) (proxy_new (V4 1 2 3 4) 8080 {}))
     \<lparr>p_geo := Some \<lparr>c_code = ''DE'', c_name = ''Germany'', c_region = None, c_city = Some ''Berlin''\<rparr>, p_requests := 7\<rparr>"

theorem ndjson_roundtrip_witness:
  "read_ndjson (\<lambda>s. if s = ''{}'' then Some (serialize sample_saved) else None)
     (write_ndjson (\<lambda>_. ''{}'') [sample_saved, sample_saved]) = Some (map kept [sample_saved, sample_saved])"
  by (rule ndjson_roundtrip)
    (simp add: sample_saved_def add_type_def proxy_new_def json_text_ok_def
      trim_def trim_start_def trim_end_def is_ws_def LF_def CR_def)

end
