(* ===== verification/Stats.thy ===== *)
theory Stats
  imports Proxy "HOL-Library.Char_ord" "HOL-Library.List_Lexorder"
begin

text \<open>
  The aggregate statistics of \<^verbatim>\<open>src/src/stats.rs\<close>: the collector that every finished check is recorded
  into, the summary it produces and the text of the summary. A \<open>BTreeMap\<close> is an association list sorted
  by key. The main result says what each figure of a summary counts.
\<close>

section \<open>Ordered maps\<close>

text \<open>\<open>*m.entry(k).or_default() += n\<close>.\<close>

fun bt_add :: "'k::linorder \<Rightarrow> 'n::monoid_add \<Rightarrow> ('k \<times> 'n) list \<Rightarrow> ('k \<times> 'n) list" where
  "bt_add k n [] = [(k, 0 + n)]"
| "bt_add k n ((k', m) # xs) =
     (if k < k' then (k, 0 + n) # (k', m) # xs else if k = k' then (k', m + n) # xs else (k', m) # bt_add k n xs)"

definition bt_add_all :: "('k::linorder \<times> 'n::monoid_add) list \<Rightarrow> ('k \<times> 'n) list \<Rightarrow> ('k \<times> 'n) list" where
  "bt_add_all kns m = foldl (\<lambda>m (k, n). bt_add k n m) m kns"

section \<open>The collector\<close>

record stats =
  st_total :: nat
  st_working :: nat
  st_by_protocol :: "(proto \<times> nat) list"
  st_by_anonymity :: "(anon_level \<times> nat) list"
  st_by_country :: "(string \<times> nat) list"
  st_errors :: "(string \<times> u32) list"
  st_avg_resp_time :: real
  st_p50 :: real
  st_p90 :: real
  st_p95 :: real

record stats_collector =
  co_total :: nat
  co_working :: nat
  co_by_protocol :: "(proto \<times> nat) list"
  co_by_anonymity :: "(anon_level \<times> nat) list"
  co_by_country :: "(string \<times> nat) list"
  co_errors :: "(string \<times> u32) list"
  co_resp_times :: "real list"

definition collector_new :: stats_collector where
  "collector_new = \<lparr>co_total = 0, co_working = 0, co_by_protocol = [], co_by_anonymity = [], co_by_country = [],
     co_errors = [], co_resp_times = []\<rparr>"

text \<open>What one proxy contributes to each map.\<close>

definition proto_counts :: "proxy \<Rightarrow> (proto \<times> nat) list" where
  "proto_counts p = map (\<lambda>(pr, _). (pr, 1)) (type_entries (p_types p))"

definition anon_counts :: "proxy \<Rightarrow> (anon_level \<times> nat) list" where
  "anon_counts p = List.map_filter (\<lambda>(pr, lvl). if pr = Http then map_option (\<lambda>l. (l, 1)) lvl else None)
     (type_entries (p_types p))"

definition country_label :: "proxy \<Rightarrow> string" where
  "country_label p = (case p_geo p of Some c \<Rightarrow> c_code c | None \<Rightarrow> ''--'')"

definition error_counts :: "proxy \<Rightarrow> (string \<times> u32) list" where
  "error_counts p = map (\<lambda>(e, n). (err_str e, n)) (p_errors p)"

definition record_stats :: "proxy \<Rightarrow> stats_collector \<Rightarrow> stats_collector" where
  "record_stats p c =
     c\<lparr>co_total := co_total c + 1,
       co_working := co_working c + (if is_working p then 1 else 0),
       co_by_protocol := bt_add_all (proto_counts p) (co_by_protocol c),
       co_by_anonymity := bt_add_all (anon_counts p) (co_by_anonymity c),
       co_by_country := bt_add (country_label p) 1 (co_by_country c),
       co_errors := bt_add_all (error_counts p) (co_errors c),
       co_resp_times := co_resp_times c @ (if 0 < avg_resp_time p then [avg_resp_time p] else [])\<rparr>"

text \<open>The result is \<open>None\<close> where \<open>percentile\<close> panics.\<close>

definition finish_stats :: "stats_collector \<Rightarrow> stats option" where
  "finish_stats c =
     (case (percentile (co_resp_times c) (1/2), percentile (co_resp_times c) (9/10), percentile (co_resp_times c) (95/100)) of
        (Some p50, Some p90, Some p95) \<Rightarrow>
          Some \<lparr>st_total = co_total c, st_working = co_working c, st_by_protocol = co_by_protocol c,
            st_by_anonymity = co_by_anonymity c, st_by_country = co_by_country c, st_errors = co_errors c,
            st_avg_resp_time = mean2 (co_resp_times c), st_p50 = p50, st_p90 = p90, st_p95 = p95\<rparr>
      | _ \<Rightarrow> None)"

definition stats_from_proxies :: "proxy list \<Rightarrow> stats option" where
  "stats_from_proxies ps = finish_stats (foldl (\<lambda>c p. record_stats p c) collector_new ps)"

section \<open>The text of a summary\<close>

text \<open>\<open>{:.2}\<close> of a non-negative number.\<close>

definition fmt2 :: "real \<Rightarrow> string" where
  "fmt2 x = (let k = nat (round_half_even (x * 100))
     in show_nat (k div 100) @ ''.'' @ [digit (k mod 100 div 10), digit (k mod 10)])"

definition fmt_counts :: "('k \<Rightarrow> string) \<Rightarrow> ('n \<Rightarrow> string) \<Rightarrow> ('k \<times> 'n) list \<Rightarrow> string" where
  "fmt_counts sk sn m = join '', '' (map (\<lambda>(k, n). sk k @ '': '' @ sn n) m)"

definition fmt_line :: "string \<Rightarrow> string" where
  "fmt_line s = s @ [LF]"

text \<open>The order of the country line: most frequent first, then by code.\<close>

definition top_countries :: "(string \<times> nat) list \<Rightarrow> (string \<times> nat) list" where
  "top_countries m = take 10 (sort_key (\<lambda>(c, n). (- int n, c)) m)"

definition display_stats :: "stats \<Rightarrow> string" where
  "display_stats s =
     fmt_line (''Found '' @ show_nat (st_total s) @ '' proxies ('' @ show_nat (st_working s) @ '' working)'')
     @ (if st_by_protocol s = [] then []
        else fmt_line (''  By protocol: '' @ fmt_counts proto_str show_nat (st_by_protocol s)))
     @ (if st_by_anonymity s = [] then []
        else fmt_line (''  By anonymity (HTTP): '' @ fmt_counts anon_str show_nat
          (List.map_filter (\<lambda>l. map_option (Pair l) (map_of (st_by_anonymity s) l)) [High, Anonymous, Transparent])))
     @ (if st_by_country s = [] then []
        else fmt_line (''  By country: '' @ fmt_counts id show_nat (top_countries (st_by_country s))))
     @ fmt_line (''  Avg response time: '' @ fmt2 (st_avg_resp_time s) @ ''s'')
     @ (if 0 < st_p50 s
        then fmt_line (''  Response time p50/p90/p95: '' @ fmt2 (st_p50 s) @ ''s / '' @ fmt2 (st_p90 s) @ ''s / ''
          @ fmt2 (st_p95 s) @ ''s'')
        else [])
     @ (if st_errors s = [] then [] else fmt_line (''  Errors: '' @ fmt_counts id show_word (st_errors s)))"

section \<open>What a map counts\<close>

definition bt_ok :: "('k::linorder \<times> 'n) list \<Rightarrow> bool" where
  "bt_ok m \<longleftrightarrow> sorted_wrt (<) (map fst m)"

lemma keys_bt_add: "fst ` set (bt_add k n m) = insert k (fst ` set m)"
  by (induction k n m rule: bt_add.induct) auto

lemma bt_ok_add: "bt_ok m \<Longrightarrow> bt_ok (bt_add k n m)"
proof (induction k n m rule: bt_add.induct)
  case (2 k n k' m xs)
  have "fst ` set (bt_add k n xs) = insert k (fst ` set xs)" by (rule keys_bt_add)
  with 2 show ?case by (fastforce simp: bt_ok_def)
qed (simp add: bt_ok_def)

lemma map_of_bt_add:
  fixes n :: "'n::monoid_add"
  shows "bt_ok m \<Longrightarrow> map_of (bt_add k n m) j =
     (if j = k then Some ((case map_of m k of Some v \<Rightarrow> v | None \<Rightarrow> 0) + n) else map_of m j)"
proof (induction k n m rule: bt_add.induct)
  case (2 k n k' m xs)
  have "k < k' \<Longrightarrow> map_of xs k = None" using 2(2)
    by (auto simp: bt_ok_def map_of_eq_None_iff)
  with 2 show ?case by (auto simp: bt_ok_def)
qed simp

lemma bt_ok_distinct: "bt_ok m \<Longrightarrow> distinct (map fst m)"
  by (simp add: bt_ok_def strict_sorted_iff)

definition tally :: "'k \<Rightarrow> ('k \<times> 'n::monoid_add) list \<Rightarrow> 'n" where
  "tally k kns = sum_list (map snd (filter (\<lambda>x. fst x = k) kns))"

lemma tally_simps [simp]:
  "tally k [] = 0"
  "tally k (x # kns) = (if fst x = k then snd x + tally k kns else tally k kns)"
  "tally k (kns @ kns') = tally k kns + tally k kns'"
  by (simp_all add: tally_def)

lemma tally_absent: "j \<notin> fst ` set kns \<Longrightarrow> tally j kns = 0"
  by (induction kns) auto

lemma bt_add_all_spec:
  assumes "bt_ok m"
  shows "bt_ok (bt_add_all kns m)
    \<and> map_of (bt_add_all kns m) j =
      (if j \<in> fst ` set kns then Some ((case map_of m j of Some v \<Rightarrow> v | None \<Rightarrow> 0) + tally j kns) else map_of m j)"
  using assms
proof (induction kns arbitrary: m)
  case Nil
  then show ?case by (simp add: bt_add_all_def)
next
  case (Cons x kns)
  obtain k n where x: "x = (k, n)" by (cases x)
  have m': "bt_ok (bt_add k n m)" using Cons(2) by (rule bt_ok_add)
  have e: "bt_add_all (x # kns) m = bt_add_all kns (bt_add k n m)" by (simp add: bt_add_all_def x)
  note ih = Cons.IH[OF m', unfolded map_of_bt_add[OF Cons(2)]]
  show ?case
  proof (cases "j = k")
    case True
    with ih show ?thesis by (simp add: e tally_absent add.assoc) (simp add: x tally_absent)
  next
    case False
    with ih show ?thesis by (simp add: e) (simp add: x)
  qed
qed

lemma bt_add_all_append: "bt_add_all (a @ b) m = bt_add_all b (bt_add_all a m)"
  by (simp add: bt_add_all_def)

lemma bt_add_all_counts:
  "bt_ok (bt_add_all kns [])"
  "map_of (bt_add_all kns []) j = (if j \<in> fst ` set kns then Some (tally j kns) else None)"
  using bt_add_all_spec[of "[]" kns j] by (simp_all add: bt_ok_def)

lemma bt_add_sum:
  fixes m :: "('k::linorder \<times> nat) list"
  shows "sum_list (map snd (bt_add k n m)) = sum_list (map snd m) + n"
  by (induction k n m rule: bt_add.induct) auto

lemma bt_add_all_sum:
  fixes m :: "('k::linorder \<times> nat) list"
  shows "sum_list (map snd (bt_add_all kns m)) = sum_list (map snd m) + sum_list (map snd kns)"
  by (induction kns arbitrary: m) (auto simp: bt_add_all_def bt_add_sum)

section \<open>What a summary counts\<close>

lemma collector_fold:
  "foldl (\<lambda>c p. record_stats p c) c ps =
     \<lparr>co_total = co_total c + length ps, co_working = co_working c + length (filter is_working ps),
      co_by_protocol = bt_add_all (concat (map proto_counts ps)) (co_by_protocol c),
      co_by_anonymity = bt_add_all (concat (map anon_counts ps)) (co_by_anonymity c),
      co_by_country = bt_add_all (map (\<lambda>p. (country_label p, 1)) ps) (co_by_country c),
      co_errors = bt_add_all (concat (map error_counts ps)) (co_errors c),
      co_resp_times = co_resp_times c @ filter (\<lambda>t. 0 < t) (map avg_resp_time ps)\<rparr>"
proof (induction ps arbitrary: c)
  case Nil
  then show ?case by (simp add: bt_add_all_def)
next
  case (Cons p ps)
  then show ?case
    by (simp add: record_stats_def bt_add_all_append) (simp add: bt_add_all_def)
qed

lemma proto_counts_tally: "tally pr (proto_counts p) = (if p_types p pr \<noteq> None then 1 else 0)"
proof -
  have "filter (\<lambda>x. x = pr) (type_keys (p_types p)) = (if p_types p pr \<noteq> None then [pr] else [])"
    by (cases pr) (simp_all add: type_keys_def proto_ALL_def)
  then show ?thesis
    by (simp add: tally_def proto_counts_def type_entries_def filter_map comp_def)
qed

lemma anon_counts_tally: "tally l (anon_counts p) = (if p_types p Http = Some (Some l) then 1 else 0)"
  by (cases "p_types p Http"; cases "p_types p Https"; cases "p_types p Socks4"; cases "p_types p Socks5";
      cases "p_types p Connect80"; cases "p_types p Connect25")
    (auto simp: anon_counts_def type_entries_def type_keys_def proto_ALL_def map_filter_def tally_def)

lemma tally_concat: "tally k (concat xs) = sum_list (map (tally k) xs)"
  by (induction xs) auto

lemma sum_indicator: "sum_list (map (\<lambda>p. if P p then 1 else 0) ps) = length (filter P ps)"
  by (induction ps) auto

lemma tally_labels: "tally j (map (\<lambda>p. (f p, 1 :: nat)) ps) = length (filter (\<lambda>p. f p = j) ps)"
  by (induction ps) auto

text \<open>A count that is absent is zero.\<close>

definition count_of :: "'k \<Rightarrow> ('k \<times> nat) list \<Rightarrow> nat" where
  "count_of k m = (case map_of m k of Some n \<Rightarrow> n | None \<Rightarrow> 0)"

lemma count_of_all: "count_of j (bt_add_all kns []) = tally j kns"
  by (simp add: count_of_def bt_add_all_counts(2) tally_absent)

lemma stats_spec:
  "\<exists>s. stats_from_proxies ps = Some s \<and> st_total s = length ps
    \<and> st_working s = length (filter is_working ps)
    \<and> (\<forall>pr. count_of pr (st_by_protocol s) = length (filter (\<lambda>p. p_types p pr \<noteq> None) ps))
    \<and> (\<forall>l. count_of l (st_by_anonymity s) = length (filter (\<lambda>p. p_types p Http = Some (Some l)) ps))
    \<and> (\<forall>c. count_of c (st_by_country s) = length (filter (\<lambda>p. country_label p = c) ps))
    \<and> bt_ok (st_by_protocol s) \<and> bt_ok (st_by_anonymity s) \<and> bt_ok (st_by_country s)
    \<and> sum_list (map snd (st_by_country s)) = st_total s
    \<and> st_p50 s \<le> st_p90 s \<and> st_p90 s \<le> st_p95 s"
proof -
  let ?rt = "filter (\<lambda>t. 0 < t) (map avg_resp_time ps)"
  obtain a b c where p: "percentile ?rt (1/2) = Some a" "percentile ?rt (9/10) = Some b" "percentile ?rt (95/100) = Some c"
    using percentile_defined[of "1/2" ?rt] percentile_defined[of "9/10" ?rt] percentile_defined[of "95/100" ?rt] by auto
  have o: "a \<le> b" "b \<le> c"
    using percentile_mono_aux[OF _ _ _ p(1,2)] percentile_mono_aux[OF _ _ _ p(2,3)] by auto
  define k where "k = foldl (\<lambda>c p. record_stats p c) collector_new ps"
  note k = k_def[unfolded collector_fold]
  have rt: "co_resp_times k = ?rt" by (simp add: k collector_new_def)
  have f: "stats_from_proxies ps = Some \<lparr>st_total = co_total k, st_working = co_working k,
      st_by_protocol = co_by_protocol k, st_by_anonymity = co_by_anonymity k, st_by_country = co_by_country k,
      st_errors = co_errors k, st_avg_resp_time = mean2 (co_resp_times k), st_p50 = a, st_p90 = b, st_p95 = c\<rparr>"
    unfolding stats_from_proxies_def k_def[symmetric] finish_stats_def rt p by simp
  show ?thesis
    unfolding f
    by (simp add: k collector_new_def o count_of_all bt_add_all_counts(1) bt_add_all_sum tally_concat comp_def
        proto_counts_tally anon_counts_tally sum_indicator tally_labels[unfolded One_nat_def]
        sum_list_triv)
qed

text \<open>A summary is always produced, and its figures are those of the proxies recorded: the number of
  proxies and of working ones, for every protocol the proxies that have it confirmed, for every level
  the proxies with that confirmed HTTP level, and for every country the proxies of that country, where
  the countries (with the label for an unknown one) add up to the total; the percentiles are in order.\<close>

theorem stats_counts:
  "\<exists>s. stats_from_proxies ps = Some s \<and> st_total s = length ps
    \<and> st_working s = length (filter is_working ps)
    \<and> (\<forall>pr. count_of pr (st_by_protocol s) = length (filter (\<lambda>p. p_types p pr \<noteq> None) ps))
    \<and> (\<forall>l. count_of l (st_by_anonymity s) = length (filter (\<lambda>p. p_types p Http = Some (Some l)) ps))
    \<and> (\<forall>c. count_of c (st_by_country s) = length (filter (\<lambda>p. country_label p = c) ps))
    \<and> bt_ok (st_by_protocol s) \<and> bt_ok (st_by_anonymity s) \<and> bt_ok (st_by_country s)
    \<and> sum_list (map snd (st_by_country s)) = st_total s
    \<and> st_p50 s \<le> st_p90 s \<and> st_p90 s \<le> st_p95 s"
  by (rule stats_spec)

end
