(* ===== verification/Output.thy ===== *)
theory Output
  imports Proxy_Json Stats
begin

text \<open>
  The output of the command line (\<^verbatim>\<open>src/src/bin/proxybroker.rs\<close>): the columns and templates a proxy is
  rendered with, the stateful emitter and the loop that drains a stream of proxies into the output and
  into the file of \<open>--save\<close>. The text of a JSON value is a parameter; errors of the two sinks are not
  modelled.
\<close>

section \<open>Strings\<close>

text \<open>\<open>str::replace\<close> with a non-empty pattern.\<close>

function replace_all :: "string \<Rightarrow> string \<Rightarrow> string \<Rightarrow> string" where
  "replace_all pat rep s =
     (case find_sub pat s of
        None \<Rightarrow> s
      | Some i \<Rightarrow> if pat = [] then s else take i s @ rep @ replace_all pat rep (drop (i + length pat) s))"
  by pat_completeness auto
termination
proof (relation "measure (\<lambda>(_, _, s). length s)")
  fix pat rep s :: string and i
  assume f: "find_sub pat s = Some i" and "pat \<noteq> []"
  then have "s \<noteq> []" by (cases s) (auto simp: starts_with_def split: if_splits)
  with \<open>pat \<noteq> []\<close> show "((pat, rep, drop (i + length pat) s), pat, rep, s) \<in> measure (\<lambda>(_, _, s). length s)"
    by (simp add: diff_less)
qed simp

declare replace_all.simps [simp del]

text \<open>\<open>f64::to_string\<close> of a number with at most two decimals, which is what the rounded statistics are.\<close>

definition show_cents :: "real \<Rightarrow> string" where
  "show_cents x =
     (let k = round_half_even (x * 100); n = nat \<bar>k\<bar>; f = n mod 100
      in (if k < 0 then ''-'' else []) @ show_nat (n div 100)
         @ (if f = 0 then [] else if f mod 10 = 0 then [CHR ''.'', digit (f div 10)]
            else [CHR ''.'', digit (f div 10), digit (f mod 10)]))"

section \<open>Fields\<close>

definition scheme_str :: "proxy \<Rightarrow> string" where
  "scheme_str p = (if p_types p Socks5 \<noteq> None then ''socks5'' else if p_types p Socks4 \<noteq> None then ''socks4'' else ''http'')"

definition proto_list :: "proxy \<Rightarrow> string" where
  "proto_list p = join ''|'' (map proto_str (type_keys (p_types p)))"

definition anon_str_of :: "proxy \<Rightarrow> string" where
  "anon_str_of p = (case p_types p Http of Some (Some l) \<Rightarrow> anon_str l | _ \<Rightarrow> [])"

definition country_str :: "proxy \<Rightarrow> string" where
  "country_str p = (case p_geo p of Some c \<Rightarrow> c_code c | None \<Rightarrow> [])"

definition asn_str :: "proxy \<Rightarrow> string" where
  "asn_str p = (case p_asn p of Some a \<Rightarrow> show_word (asn_number a) | None \<Rightarrow> [])"

definition asn_org_str :: "proxy \<Rightarrow> string" where
  "asn_org_str p = (case p_asn p of Some a \<Rightarrow> (case asn_org a of Some s \<Rightarrow> s | None \<Rightarrow> []) | None \<Rightarrow> [])"

definition token :: "string \<Rightarrow> string" where
  "token name = ''{{'' @ name @ ''}}''"

definition template_fields :: "proxy \<Rightarrow> (string \<times> string) list" where
  "template_fields p =
     [(''proxy'', addr p), (''host'', show_ip (p_host p)), (''port'', show_word (p_port p)), (''scheme'', scheme_str p),
      (''protocols'', proto_list p), (''anon'', anon_str_of p), (''country'', country_str p), (''asn'', asn_str p),
      (''asn_org'', asn_org_str p), (''duration'', show_cents (avg_resp_time p)), (''error_rate'', show_cents (error_rate p))]"

definition render_template :: "string \<Rightarrow> proxy \<Rightarrow> string" where
  "render_template tmpl p = foldl (\<lambda>s (name, v). replace_all (token name) v s) tmpl (template_fields p)"

definition csv_fields :: "proxy \<Rightarrow> string list" where
  "csv_fields p = [show_ip (p_host p), show_word (p_port p), proto_list p, anon_str_of p, country_str p,
     show_cents (avg_resp_time p), show_cents (error_rate p)]"

definition csv_row :: "proxy \<Rightarrow> string" where
  "csv_row p = join '','' (csv_fields p)"

section \<open>The emitter\<close>

datatype out_format = FDefault | FTxt | FJson | FJsonArray | FUrl | FCsv

record emitter =
  em_format :: out_format
  em_template :: "string option"
  em_started :: bool

definition emitter_new :: "out_format \<Rightarrow> string option \<Rightarrow> emitter" where
  "emitter_new fmt tmpl = \<lparr>em_format = fmt, em_template = tmpl, em_started = False\<rparr>"

definition csv_header :: string where
  "csv_header = ''host,port,protocols,anon,country,resp_time,error_rate'' @ [LF]"

definition em_prefix :: "emitter \<Rightarrow> string option" where
  "em_prefix e = (if em_template e \<noteq> None then None
     else case em_format e of FJsonArray \<Rightarrow> Some ''['' | FCsv \<Rightarrow> Some csv_header | _ \<Rightarrow> None)"

definition em_item :: "(json \<Rightarrow> string) \<Rightarrow> proxy \<Rightarrow> emitter \<Rightarrow> string \<times> emitter" where
  "em_item to_string p e =
     (case em_template e of
        Some tmpl \<Rightarrow> (render_template tmpl p @ [LF], e)
      | None \<Rightarrow>
         (case em_format e of
            FDefault \<Rightarrow> (addr p @ [LF], e)
          | FTxt \<Rightarrow> (addr p @ [LF], e)
          | FJson \<Rightarrow> (to_string (serialize p) @ [LF], e)
          | FUrl \<Rightarrow> (scheme_str p @ ''://'' @ addr p @ [LF], e)
          | FCsv \<Rightarrow> (csv_row p @ [LF], e)
          | FJsonArray \<Rightarrow> ((if em_started e then '','' else []) @ to_string (serialize p), e\<lparr>em_started := True\<rparr>)))"

definition em_suffix :: "emitter \<Rightarrow> string option" where
  "em_suffix e = (if em_template e \<noteq> None then None
     else case em_format e of FJsonArray \<Rightarrow> Some ('']'' @ [LF]) | _ \<Rightarrow> None)"

section \<open>Draining a stream\<close>

record sinks =
  sk_out :: string
  sk_saved :: "string option"
  sk_count :: nat

definition opt_text :: "string option \<Rightarrow> string" where
  "opt_text t = (case t of Some s \<Rightarrow> s | None \<Rightarrow> [])"

fun drain :: "(json \<Rightarrow> string) \<Rightarrow> proxy list \<Rightarrow> emitter \<Rightarrow> sinks \<Rightarrow> emitter \<times> sinks" where
  "drain to_string [] e k = (e, k)"
| "drain to_string (p # ps) e k =
     (case em_item to_string p e of (chunk, e') \<Rightarrow>
        drain to_string ps e' \<lparr>sk_out = sk_out k @ chunk,
          sk_saved = map_option (\<lambda>s. s @ write_ndjson to_string [p]) (sk_saved k), sk_count = sk_count k + 1\<rparr>)"

definition write_stream :: "(json \<Rightarrow> string) \<Rightarrow> out_format \<Rightarrow> string option \<Rightarrow> bool \<Rightarrow> proxy list \<Rightarrow> sinks" where
  "write_stream to_string fmt tmpl save ps =
     (let e = emitter_new fmt tmpl;
          k = \<lparr>sk_out = opt_text (em_prefix e), sk_saved = (if save then Some [] else None), sk_count = 0\<rparr>
      in case drain to_string ps e k of (e', k') \<Rightarrow> k'\<lparr>sk_out := sk_out k' @ opt_text (em_suffix e')\<rparr>)"

definition render_progress :: "stats \<Rightarrow> string" where
  "render_progress s = ''checked '' @ show_nat (st_total s) @ '' '' @ [CHR 0xC2, CHR 0xB7] @ '' working '' @ show_nat (st_working s)
     @ '' '' @ [CHR 0xC2, CHR 0xB7] @ '' avg '' @ fmt2 (st_avg_resp_time s) @ ''s''"

section \<open>What is written\<close>

lemma write_ndjson_append: "write_ndjson to_string (ps @ qs) = write_ndjson to_string ps @ write_ndjson to_string qs"
  by (simp add: write_ndjson_def)

lemma drain_saved:
  "sk_saved (snd (drain to_string ps e k)) = map_option (\<lambda>s. s @ write_ndjson to_string ps) (sk_saved k)
   \<and> sk_count (snd (drain to_string ps e k)) = sk_count k + length ps"
proof (induction to_string ps e k rule: drain.induct)
  case (1 to_string e k)
  then show ?case by (cases "sk_saved k") (simp_all add: write_ndjson_def)
next
  case (2 to_string p ps e k)
  then show ?case
    using write_ndjson_append[of to_string "[p]" ps] by (cases "sk_saved k") (auto split: prod.splits)
qed

text \<open>The emitter's item as a function of the position in the stream.\<close>

definition nth_item :: "(json \<Rightarrow> string) \<Rightarrow> out_format \<Rightarrow> string option \<Rightarrow> bool \<Rightarrow> proxy \<Rightarrow> string" where
  "nth_item to_string fmt tmpl started p = fst (em_item to_string p \<lparr>em_format = fmt, em_template = tmpl, em_started = started\<rparr>)"

lemma drain_out:
  "sk_out (snd (drain to_string ps e k)) = sk_out k @ (case ps of [] \<Rightarrow> []
     | p # qs \<Rightarrow> nth_item to_string (em_format e) (em_template e) (em_started e) p
         @ concat (map (nth_item to_string (em_format e) (em_template e) True) qs))
   \<and> em_format (fst (drain to_string ps e k)) = em_format e \<and> em_template (fst (drain to_string ps e k)) = em_template e"
proof (induction to_string ps e k rule: drain.induct)
  case (2 to_string p ps e k)
  obtain c e' where ep: "em_item to_string p e = (c, e')" by fastforce
  define k' where "k' = \<lparr>sk_out = sk_out k @ c, sk_saved = map_option (\<lambda>s. s @ write_ndjson to_string [p]) (sk_saved k),
    sk_count = sk_count k + 1\<rparr>"
  have d: "drain to_string (p # ps) e k = drain to_string ps e' k'" by (simp add: ep k'_def)
  have f: "em_format e' = em_format e" "em_template e' = em_template e"
    "nth_item to_string (em_format e) (em_template e) (em_started e') q = nth_item to_string (em_format e) (em_template e) True q"
    "c = nth_item to_string (em_format e) (em_template e) (em_started e) p" for q
    using ep by (auto simp: nth_item_def em_item_def split: option.splits out_format.splits)
  have o: "sk_out k' = sk_out k @ c" by (simp add: k'_def)
  have "(case ps of [] \<Rightarrow> [] | p # qs \<Rightarrow> nth_item to_string (em_format e') (em_template e') (em_started e') p
      @ concat (map (nth_item to_string (em_format e') (em_template e') True) qs))
    = concat (map (nth_item to_string (em_format e) (em_template e) True) ps)"
    using f(1-3) by (cases ps) simp_all
  then show ?case unfolding d using 2[OF ep[symmetric], folded k'_def] f(1,2,4) o by simp
qed simp

lemma write_stream_out:
  "sk_out (write_stream to_string fmt tmpl save ps) = opt_text (em_prefix (emitter_new fmt tmpl))
     @ (case ps of [] \<Rightarrow> [] | p # qs \<Rightarrow> nth_item to_string fmt tmpl False p @ concat (map (nth_item to_string fmt tmpl True) qs))
     @ opt_text (em_suffix (emitter_new fmt tmpl))"
proof -
  have e: "em_format (emitter_new fmt tmpl) = fmt" "em_template (emitter_new fmt tmpl) = tmpl" "\<not> em_started (emitter_new fmt tmpl)"
    by (simp_all add: emitter_new_def)
  have "em_suffix (fst (drain to_string ps (emitter_new fmt tmpl) k)) = em_suffix (emitter_new fmt tmpl)" for k
    using drain_out[of to_string ps "emitter_new fmt tmpl" k] unfolding em_suffix_def by simp
  then show ?thesis
    using drain_out[of to_string ps "emitter_new fmt tmpl"]
    by (simp add: write_stream_def Let_def split_def e del: drain.simps split: list.split)
qed

text \<open>The array format is written piece by piece, but what is written is one JSON document: the texts of
  the proxies, in order, separated by commas and enclosed in brackets, also for no proxies at all.\<close>

theorem json_array_document:
  "sk_out (write_stream to_string FJsonArray None save ps) =
     ''['' @ join '','' (map (\<lambda>p. to_string (serialize p)) ps) @ '']'' @ [LF]"
proof -
  have c: "join '','' (map f (p # qs)) = f p @ concat (map (\<lambda>q. '','' @ f q) qs)" for f :: "proxy \<Rightarrow> string" and p qs
    by (induction qs arbitrary: p) simp_all
  have "nth_item to_string FJsonArray None b = (\<lambda>p. (if b then '','' else []) @ to_string (serialize p))" for b
    by (simp add: fun_eq_iff nth_item_def em_item_def)
  then show ?thesis
    using c[of "\<lambda>p. to_string (serialize p)"] by (cases ps) (simp_all add: write_stream_out emitter_new_def em_prefix_def em_suffix_def opt_text_def)
qed

text \<open>Whatever is printed, the file of \<open>--save\<close> reads back as the proxies of the stream with their
  address, location and confirmed types; the line format prints the same text as the file.\<close>

theorem saved_stream_reloads:
  assumes "\<forall>p \<in> set ps. json_text_ok to_string from_str (serialize p)"
  shows "(case sk_saved (write_stream to_string fmt tmpl True ps) of Some file \<Rightarrow> read_ndjson from_str file = Some (map kept ps)
      | None \<Rightarrow> False)
    \<and> read_ndjson from_str (sk_out (write_stream to_string FJson None save ps)) = Some (map kept ps)
    \<and> sk_count (write_stream to_string fmt tmpl True ps) = length ps"
proof -
  have r: "read_ndjson from_str (write_ndjson to_string ps) = Some (map kept ps)" by (rule ndjson_back[OF assms])
  have "nth_item to_string FJson None b = (\<lambda>p. to_string (serialize p) @ [LF])" for b
    by (simp add: fun_eq_iff nth_item_def em_item_def)
  then have "sk_out (write_stream to_string FJson None save ps) = write_ndjson to_string ps"
    by (cases ps) (simp_all add: write_stream_out emitter_new_def em_prefix_def em_suffix_def opt_text_def write_ndjson_def)
  with r show ?thesis using drain_saved[of to_string ps "emitter_new fmt tmpl"]
    by (simp add: write_stream_def Let_def split_def)
qed

theorem saved_stream_reloads_witness:
  "(case sk_saved (write_stream (\<lambda>_. ''{}'') FCsv None True [sample_saved, sample_saved]) of
      Some file \<Rightarrow> read_ndjson (\<lambda>s. if s = ''{}'' then Some (serialize sample_saved) else None) file
        = Some (map kept [sample_saved, sample_saved])
    | None \<Rightarrow> False)
   \<and> read_ndjson (\<lambda>s. if s = ''{}'' then Some (serialize sample_saved) else None)
       (sk_out (write_stream (\<lambda>_. ''{}'') FJson None False [sample_saved, sample_saved])) = Some (map kept [sample_saved, sample_saved])
   \<and> sk_count (write_stream (\<lambda>_. ''{}'') FCsv None True [sample_saved, sample_saved]) = length [sample_saved, sample_saved]"
  by (rule saved_stream_reloads)
    (simp add: json_text_ok_def trim_def trim_start_def trim_end_def is_ws_def LF_def CR_def)

section \<open>Columns\<close>

lemma show_hex_no_comma:
  assumes "0 \<le> n" "n < 65536"
  shows "CHR '','' \<notin> set (show_hex n)"
proof
  assume "CHR '','' \<in> set (show_hex n)"
  with show_hex_ok(1)[OF assms] have "is_hex CHR '',''" by (auto simp: list_all_iff)
  then show False by (simp add: is_hex_def is_digit_def between_def)
qed

lemma show_ip_no_comma: "CHR '','' \<notin> set (show_ip ip)"
proof (cases ip)
  case (V4 a b c d)
  then show ?thesis using show_v4_chars[of "CHR '',''" a b c d] by (auto simp: is_digit_def)
next
  case (V6 w)
  have g: "set gs \<subseteq> set (segments w) \<Longrightarrow> CHR '','' \<notin> set (fmt_groups gs)" for gs
    using show_hex_no_comma segments_range by (fastforce simp: fmt_groups_def dest!: join_chars)
  have v: "CHR '','' \<notin> set (show_v4 x y z u)" for x y z u
    using show_v4_chars[of "CHR '',''" x y z u] by (auto simp: is_digit_def)
  show ?thesis
    using g[of "segments w"] g[of "take _ (segments w)"] g[of "drop _ (segments w)"] v V6
    by (auto simp: show_v6_def Let_def set_take_subset set_drop_subset split: prod.splits)
qed

lemma digits_no_comma: "list_all is_digit s \<Longrightarrow> CHR '','' \<notin> set s"
  by (auto simp: list_all_iff is_digit_def)

lemma show_cents_no_comma: "CHR '','' \<notin> set (show_cents x)"
proof -
  have "CHR '','' \<noteq> digit n" if "n < 10" for n
  proof
    assume "CHR '','' = digit n"
    then have "is_digit CHR '',''" using is_digit_digit[OF that] by simp
    then show False by (simp add: is_digit_def)
  qed
  then show ?thesis using digits_no_comma[OF show_nat_digits]
    by (auto simp: show_cents_def Let_def div_less_dividend less_mult_imp_div_less)
qed

lemma proto_str_no_comma: "CHR '','' \<notin> set (proto_str pr)"
  by (cases pr) simp_all

lemma anon_str_no_comma: "CHR '','' \<notin> set (anon_str l)"
  by (cases l) simp_all

text \<open>A CSV row splits at its commas into its seven fields, as long as the country code has no comma.\<close>

theorem csv_columns:
  assumes "CHR '','' \<notin> set (country_str p)"
  shows "split_char CHR '','' (csv_row p) = csv_fields p \<and> length (csv_fields p) = 7"
proof -
  have "CHR '','' \<notin> set (proto_list p)" using proto_str_no_comma by (fastforce simp: proto_list_def dest!: join_chars)
  moreover have "CHR '','' \<notin> set (anon_str_of p)"
    using anon_str_no_comma by (simp add: anon_str_of_def split: option.split)
  moreover have "CHR '','' \<notin> set (show_word (p_port p))" using digits_no_comma[OF show_nat_digits] by (simp add: show_word_def)
  ultimately have "\<forall>w \<in> set (csv_fields p). CHR '','' \<notin> set w"
    using assms show_ip_no_comma show_cents_no_comma by (simp add: csv_fields_def)
  then show ?thesis using split_join[of "csv_fields p" "CHR '',''"] by (simp add: csv_row_def csv_fields_def)
qed

theorem csv_columns_witness:
  "split_char CHR '','' (csv_row sample_saved) = csv_fields sample_saved \<and> length (csv_fields sample_saved) = 7"
  by (rule csv_columns) (simp add: country_str_def sample_saved_def)

end
