(* ===== verification/Persist.thy ===== *)
theory Persist
  imports Proxy_Json
begin

text \<open>
  Durable state across runs, \<^verbatim>\<open>src/src/persist.rs\<close>: the \<^verbatim>\<open>Store\<close> contract and its three backends, the
  in-memory map, the SQLite table and the Redis hashes.

  The statements that the backends run are in the source and are translated here: the \<open>ON CONFLICT\<close>
  clause as a fold on a row, the Lua script as a fold on a hash. The engines are not: whether SQLite
  executes a statement is an argument, and the counters of a row are integers without bound (SQLite's
  are 64 bits wide). A number in a Redis hash is its value, not its text. The text of the JSON column is
  made and read by \<^verbatim>\<open>serde_json\<close>, whose functions are arguments.
\<close>

section \<open>Shared pieces\<close>

definition fold_ewma :: "real \<Rightarrow> real \<Rightarrow> real \<Rightarrow> real" where
  "fold_ewma prev sample alpha = alpha * sample + (1 - alpha) * prev"

text \<open>\<open>entry(k).and_modify(..).or_insert_with(..)\<close> and \<open>INSERT .. ON CONFLICT\<close>.\<close>

fun put_entry :: "'k \<Rightarrow> ('v option \<Rightarrow> 'v) \<Rightarrow> ('k \<times> 'v) list \<Rightarrow> ('k \<times> 'v) list" where
  "put_entry k f [] = [(k, f None)]"
| "put_entry k f ((k', v) # s) = (if k' = k then (k, f (Some v)) # s else (k', v) # put_entry k f s)"

definition sample_of :: "proxy \<Rightarrow> real" where
  "sample_of p = (if is_working p then 1 else 0)"

definition types_to_json :: "(json \<Rightarrow> string) \<Rightarrow> type_map \<Rightarrow> string" where
  "types_to_json to_string m = to_string (JArr (map type_json (type_entries m)))"

definition json_index :: "json \<Rightarrow> string \<Rightarrow> json" where
  "json_index v k = (case v of JObj kvs \<Rightarrow> (case map_of kvs k of Some x \<Rightarrow> x | None \<Rightarrow> JNull) | _ \<Rightarrow> JNull)"

definition type_of_json :: "type_map \<Rightarrow> json \<Rightarrow> type_map" where
  "type_of_json m v =
     (case de_string (json_index v ''type'') of None \<Rightarrow> m
      | Some t \<Rightarrow>
         (case proto_from_str t of None \<Rightarrow> m
          | Some pr \<Rightarrow>
             m(pr \<mapsto> (case de_string (json_index v ''level'') of None \<Rightarrow> None
                | Some l \<Rightarrow> if l = [] then None else anon_from_str l))))"

definition types_from_json :: "(string \<Rightarrow> json option) \<Rightarrow> string \<Rightarrow> type_map" where
  "types_from_json from_str s =
     (case from_str s of Some (JArr vs) \<Rightarrow> foldl type_of_json Map.empty vs | _ \<Rightarrow> Map.empty)"

section \<open>The in-memory store\<close>

record mem_record =
  mr_types :: type_map
  mr_requests :: u32
  mr_errors :: u32
  mr_ewma :: real
  mr_latency :: real
  mr_uptime :: u64

type_synonym mem_store = "(sock_addr \<times> mem_record) list"

definition sat_add :: "'a::len word \<Rightarrow> 'a word \<Rightarrow> 'a word" where
  "sat_add a b = (if unat a + unat b < 2 ^ LENGTH('a) then a + b else - 1)"

definition mem_fold :: "proxy \<Rightarrow> mem_record option \<Rightarrow> mem_record" where
  "mem_fold p prior =
     (case prior of
        Some rec \<Rightarrow>
          rec\<lparr>mr_types := (if type_keys (p_types p) \<noteq> [] then p_types p else mr_types rec),
            mr_requests := sat_add (mr_requests rec) (p_requests p),
            mr_errors := sat_add (mr_errors rec) (errors_total p),
            mr_ewma := 3/10 * sample_of p + 7/10 * mr_ewma rec,
            mr_latency := (if 0 < avg_resp_time p then 3/10 * avg_resp_time p + 7/10 * mr_latency rec else mr_latency rec),
            mr_uptime := sat_add (mr_uptime rec) (if is_working p then 1 else 0)\<rparr>
      | None \<Rightarrow>
          \<lparr>mr_types = p_types p, mr_requests = p_requests p, mr_errors = errors_total p, mr_ewma = sample_of p,
           mr_latency = avg_resp_time p, mr_uptime = (if is_working p then 1 else 0)\<rparr>)"

definition mem_upsert :: "proxy \<Rightarrow> mem_store \<Rightarrow> mem_store" where
  "mem_upsert p s = put_entry (p_addr p) (mem_fold p) s"

definition mem_proxy :: "sock_addr \<times> mem_record \<Rightarrow> proxy" where
  "mem_proxy x =
     (case x of ((host, port), rec) \<Rightarrow> with_ewma (Some (mr_ewma rec))
       (restored host port (mr_types rec) (mr_requests rec) (mr_errors rec) (mr_latency rec)))"

definition mem_load :: "mem_store \<Rightarrow> proxy list" where
  "mem_load s = map mem_proxy s"

section \<open>The SQLite store\<close>

record sql_row =
  sr_types :: string
  sr_requests :: int
  sr_errors :: int
  sr_ewma :: real
  sr_latency :: real
  sr_first_seen :: int
  sr_last_seen :: int
  sr_uptime :: int

type_synonym sql_table = "((string \<times> int) \<times> sql_row) list"

record sqlite_db =
  db_version :: int
  db_table :: "sql_table option"

definition migrate :: "sqlite_db \<Rightarrow> sqlite_db" where
  "migrate db =
     (if db_version db < 1
      then db\<lparr>db_table := (case db_table db of None \<Rightarrow> Some [] | Some t \<Rightarrow> Some t), db_version := 1\<rparr>
      else db)"

text \<open>The row of the \<open>VALUES\<close> clause, and the \<open>DO UPDATE SET\<close> clause with it as \<open>excluded\<close>.\<close>

definition sql_values :: "(json \<Rightarrow> string) \<Rightarrow> int \<Rightarrow> proxy \<Rightarrow> sql_row" where
  "sql_values to_string now p =
     \<lparr>sr_types = types_to_json to_string (p_types p), sr_requests = uint (p_requests p),
      sr_errors = uint (errors_total p), sr_ewma = sample_of p, sr_latency = avg_resp_time p,
      sr_first_seen = now, sr_last_seen = now, sr_uptime = (if is_working p then 1 else 0)\<rparr>"

definition sql_update :: "sql_row \<Rightarrow> sql_row \<Rightarrow> sql_row" where
  "sql_update ex row =
     row\<lparr>sr_types := (if sr_types ex \<noteq> ''[]'' then sr_types ex else sr_types row),
       sr_requests := sr_requests row + sr_requests ex,
       sr_errors := sr_errors row + sr_errors ex,
       sr_ewma := 3/10 * sr_ewma ex + 7/10 * sr_ewma row,
       sr_latency := (if 0 < sr_latency ex then 3/10 * sr_latency ex + 7/10 * sr_latency row else sr_latency row),
       sr_last_seen := sr_last_seen ex,
       sr_uptime := sr_uptime row + sr_uptime ex\<rparr>"

definition sql_fold :: "(json \<Rightarrow> string) \<Rightarrow> int \<Rightarrow> proxy \<Rightarrow> sql_row option \<Rightarrow> sql_row" where
  "sql_fold to_string now p prior =
     (case prior of None \<Rightarrow> sql_values to_string now p | Some row \<Rightarrow> sql_update (sql_values to_string now p) row)"

definition sql_exec :: "(json \<Rightarrow> string) \<Rightarrow> int \<Rightarrow> proxy \<Rightarrow> sql_table \<Rightarrow> sql_table" where
  "sql_exec to_string now p tbl =
     put_entry (show_ip (p_host p), uint (p_port p)) (sql_fold to_string now p) tbl"

definition sql_load :: "(string \<Rightarrow> json option) \<Rightarrow> sql_table \<Rightarrow> proxy list" where
  "sql_load from_str tbl =
     List.map_filter (\<lambda>((host, port), row).
       case parse_ip host of None \<Rightarrow> None
       | Some h \<Rightarrow> Some (with_ewma (Some (sr_ewma row))
           (restored h (of_int port) (types_from_json from_str (sr_types row)) (of_int (sr_requests row))
             (of_int (sr_errors row)) (sr_latency row)))) tbl"

text \<open>The retry on contention. \<open>op i\<close> is the outcome of the \<open>i\<close>-th execution; the second result counts
  the executions.\<close>

datatype sql_error = DatabaseBusy | DatabaseLocked | OtherFailure string

definition is_retryable_sqlite_contention :: "sql_error \<Rightarrow> bool" where
  "is_retryable_sqlite_contention e \<longleftrightarrow> e = DatabaseBusy \<or> e = DatabaseLocked"

definition sqlite_retry_delays :: "duration list" where
  "sqlite_retry_delays = [10000000, 25000000, 50000000, 100000000]"

fun retry_loop :: "(nat \<Rightarrow> sql_error + 'a) \<Rightarrow> nat \<Rightarrow> duration list \<Rightarrow> (sql_error + 'a) \<times> nat" where
  "retry_loop op i [] = (op i, i + 1)"
| "retry_loop op i (d # ds) =
     (case op i of
        Inl e \<Rightarrow> if is_retryable_sqlite_contention e then retry_loop op (i + 1) ds else (Inl e, i + 1)
      | Inr v \<Rightarrow> (Inr v, i + 1))"

definition retry_sqlite_contention :: "(nat \<Rightarrow> sql_error + 'a) \<Rightarrow> (sql_error + 'a) \<times> nat" where
  "retry_sqlite_contention op = retry_loop op 0 sqlite_retry_delays"

text \<open>\<open>SqliteStore::upsert\<close>: \<open>eng i\<close> says whether the engine refuses the \<open>i\<close>-th execution, \<open>show\<close> is the
  text of an engine error.\<close>

definition sqlite_upsert :: "(nat \<Rightarrow> sql_error option) \<Rightarrow> (sql_error \<Rightarrow> string) \<Rightarrow> (json \<Rightarrow> string) \<Rightarrow> int \<Rightarrow> proxy
    \<Rightarrow> sql_table \<Rightarrow> (error + unit) \<times> sql_table" where
  "sqlite_upsert eng show to_string now p tbl =
     (case fst (retry_sqlite_contention
         (\<lambda>i. case eng i of None \<Rightarrow> Inr (sql_exec to_string now p tbl) | Some e \<Rightarrow> Inl e)) of
        Inr tbl' \<Rightarrow> (Inr (), tbl')
      | Inl e \<Rightarrow> (Inl (Persist (show e)), tbl))"

section \<open>The Redis store\<close>

record redis_hash =
  rh_host :: string
  rh_port :: string
  rh_types :: string
  rh_requests :: int
  rh_errors :: int
  rh_ewma :: real
  rh_latency :: real
  rh_first_seen :: int
  rh_last_seen :: int
  rh_uptime :: int

record redis_db =
  rd_schema :: "string option"
  rd_members :: "string list"
  rd_hashes :: "string \<rightharpoonup> redis_hash"

definition member_of :: "sock_addr \<Rightarrow> string" where
  "member_of a = show_ip (fst a) @ '':'' @ show_word (snd a)"

definition proxy_key :: "sock_addr \<Rightarrow> string" where
  "proxy_key a = ''proxybroker:proxy:'' @ member_of a"

text \<open>\<open>debug\<close> is the \<^verbatim>\<open>{:?}\<close> rendering of a string.\<close>

definition redis_open :: "(string \<Rightarrow> string) \<Rightarrow> redis_db \<Rightarrow> (error + unit) \<times> redis_db" where
  "redis_open debug db =
     (if rd_schema db \<noteq> None \<and> rd_schema db \<noteq> Some ''1''
      then (Inl (Persist (''redis store schema mismatch: found '' @ debug (the (rd_schema db)) @ '', expected '' @ debug ''1'' @
              '' '' @ [CHR 0xE2, CHR 0x80, CHR 0x94] @ '' wipe the proxybroker:* keys or point --state at a fresh database'')), db)
      else (Inr (), db\<lparr>rd_schema := Some ''1''\<rparr>))"

definition lua_fold :: "(json \<Rightarrow> string) \<Rightarrow> int \<Rightarrow> proxy \<Rightarrow> redis_hash option \<Rightarrow> redis_hash" where
  "lua_fold to_string now p cur =
     (let types_json = types_to_json to_string (p_types p); latency = avg_resp_time p; sample = sample_of p;
          num = (\<lambda>f. case cur of None \<Rightarrow> 0 | Some h \<Rightarrow> f h)
      in \<lparr>rh_host = show_ip (p_host p), rh_port = show_word (p_port p),
          rh_types = (if types_json \<noteq> ''[]'' then types_json else case cur of Some h \<Rightarrow> rh_types h | None \<Rightarrow> types_json),
          rh_requests = num rh_requests + uint (p_requests p),
          rh_errors = num rh_errors + uint (errors_total p),
          rh_ewma = (case cur of None \<Rightarrow> sample | Some h \<Rightarrow> 3/10 * sample + 7/10 * rh_ewma h),
          rh_latency = (case cur of None \<Rightarrow> latency
            | Some h \<Rightarrow> if 0 < latency then 3/10 * latency + 7/10 * rh_latency h else rh_latency h),
          rh_first_seen = (case cur of None \<Rightarrow> now | Some h \<Rightarrow> rh_first_seen h),
          rh_last_seen = now,
          rh_uptime = num rh_uptime + (if is_working p then 1 else 0)\<rparr>)"

definition redis_upsert :: "(json \<Rightarrow> string) \<Rightarrow> int \<Rightarrow> proxy \<Rightarrow> redis_db \<Rightarrow> redis_db" where
  "redis_upsert to_string now p db =
     (let key = proxy_key (p_addr p)
      in db\<lparr>rd_hashes := (rd_hashes db)(key \<mapsto> lua_fold to_string now p (rd_hashes db key)),
            rd_members := (if member_of (p_addr p) \<in> set (rd_members db) then rd_members db
              else rd_members db @ [member_of (p_addr p)])\<rparr>)"

text \<open>A counter of the hash that does not parse as \<open>u32\<close> reads as 0.\<close>

definition parse_count :: "int \<Rightarrow> u32" where
  "parse_count n = (if 0 \<le> n \<and> n < 2 ^ 32 then of_int n else 0)"

definition redis_load_one :: "(string \<Rightarrow> json option) \<Rightarrow> redis_db \<Rightarrow> string \<Rightarrow> proxy option" where
  "redis_load_one from_str db member =
     (case rsplit_once (CHR '':'') member of None \<Rightarrow> None
      | Some (host_s, port_s) \<Rightarrow>
         (case parse_ip host_s of None \<Rightarrow> None
          | Some host \<Rightarrow>
             (case parse_u16 port_s of None \<Rightarrow> None
              | Some port \<Rightarrow>
                 (case rd_hashes db (proxy_key (host, port)) of None \<Rightarrow> None
                  | Some h \<Rightarrow> Some (with_ewma (Some (rh_ewma h))
                      (restored host port (types_from_json from_str (rh_types h)) (parse_count (rh_requests h))
                        (parse_count (rh_errors h)) (rh_latency h)))))))"

definition redis_load :: "(string \<Rightarrow> json option) \<Rightarrow> redis_db \<Rightarrow> proxy list" where
  "redis_load from_str db = List.map_filter (redis_load_one from_str db) (rd_members db)"

section \<open>The contract\<close>

text \<open>What a store remembers of an address, and how a finished check moves it.\<close>

record agg =
  ag_types :: type_map
  ag_requests :: nat
  ag_errors :: nat
  ag_ewma :: real
  ag_latency :: real

definition agg_fold :: "proxy \<Rightarrow> agg option \<Rightarrow> agg" where
  "agg_fold p prior =
     (case prior of
        None \<Rightarrow> \<lparr>ag_types = p_types p, ag_requests = unat (p_requests p), ag_errors = unat (errors_total p),
          ag_ewma = sample_of p, ag_latency = avg_resp_time p\<rparr>
      | Some g \<Rightarrow> \<lparr>ag_types = (if is_working p then p_types p else ag_types g),
          ag_requests = ag_requests g + unat (p_requests p), ag_errors = ag_errors g + unat (errors_total p),
          ag_ewma = fold_ewma (ag_ewma g) (sample_of p) (3/10),
          ag_latency = (if 0 < avg_resp_time p then fold_ewma (ag_latency g) (avg_resp_time p) (3/10) else ag_latency g)\<rparr>)"

definition agg_proxy :: "sock_addr \<Rightarrow> agg \<Rightarrow> proxy" where
  "agg_proxy a g = with_ewma (Some (ag_ewma g))
     (restored (fst a) (snd a) (ag_types g) (of_nat (ag_requests g)) (of_nat (ag_errors g)) (ag_latency g))"

text \<open>The counters stay within 32 bits.\<close>

definition counts_fit :: "proxy \<Rightarrow> (sock_addr \<rightharpoonup> agg) \<Rightarrow> bool" where
  "counts_fit p m \<longleftrightarrow>
     (case m (p_addr p) of None \<Rightarrow> True
      | Some g \<Rightarrow> ag_requests g + unat (p_requests p) < 2 ^ 32 \<and> ag_errors g + unat (errors_total p) < 2 ^ 32)"

definition agg_step :: "proxy \<Rightarrow> (sock_addr \<rightharpoonup> agg) \<Rightarrow> (sock_addr \<rightharpoonup> agg)" where
  "agg_step p m = m(p_addr p \<mapsto> agg_fold p (m (p_addr p)))"

fun recall_all :: "(int \<times> proxy) list \<Rightarrow> (sock_addr \<rightharpoonup> agg) \<Rightarrow> (sock_addr \<rightharpoonup> agg)" where
  "recall_all [] m = m"
| "recall_all ((t, p) # ps) m = recall_all ps (agg_step p m)"

fun fit_all :: "(proxy \<Rightarrow> (sock_addr \<rightharpoonup> agg) \<Rightarrow> bool) \<Rightarrow> (int \<times> proxy) list \<Rightarrow> (sock_addr \<rightharpoonup> agg) \<Rightarrow> bool" where
  "fit_all fits [] m \<longleftrightarrow> True"
| "fit_all fits ((t, p) # ps) m \<longleftrightarrow> fits p m \<and> fit_all fits ps (agg_step p m)"

text \<open>The interface of a store: what upserting does to what is remembered, and that loading returns one
  proxy for each remembered address.\<close>

locale proxy_store =
  fixes upsert :: "int \<Rightarrow> proxy \<Rightarrow> 's \<Rightarrow> 's"
    and load :: "'s \<Rightarrow> proxy list"
    and recall :: "'s \<Rightarrow> sock_addr \<Rightarrow> agg option"
    and ok :: "'s \<Rightarrow> bool"
    and fits :: "proxy \<Rightarrow> (sock_addr \<Rightarrow> agg option) \<Rightarrow> bool"
  assumes upsert_ok: "ok s \<Longrightarrow> fits p (recall s) \<Longrightarrow> ok (upsert t p s)"
    and upsert_recall: "ok s \<Longrightarrow> fits p (recall s) \<Longrightarrow> recall (upsert t p s) = agg_step p (recall s)"
    and load_set: "ok s \<Longrightarrow> set (load s) = {agg_proxy a g | a g. recall s a = Some g}"
    and load_distinct: "ok s \<Longrightarrow> distinct (map p_addr (load s))"
begin

fun upsert_all :: "(int \<times> proxy) list \<Rightarrow> 's \<Rightarrow> 's" where
  "upsert_all [] s = s"
| "upsert_all ((t, p) # ps) s = upsert_all ps (upsert t p s)"

lemma upsert_all_recall:
  "ok s \<Longrightarrow> fit_all fits ps (recall s) \<Longrightarrow> ok (upsert_all ps s) \<and> recall (upsert_all ps s) = recall_all ps (recall s)"
proof (induction ps arbitrary: s)
  case (Cons x ps)
  obtain t p where x: "x = (t, p)" by (cases x)
  with Cons.prems have f: "fits p (recall s)" "fit_all fits ps (agg_step p (recall s))" by simp_all
  have "recall (upsert t p s) = agg_step p (recall s)" "ok (upsert t p s)"
    using Cons.prems(1) f(1) by (rule upsert_recall, rule upsert_ok)
  with Cons.IH[of "upsert t p s"] f(2) show ?case by (simp add: x)
qed simp

lemma load_determined:
  assumes "ok s" "distinct (map p_addr xs)" "set xs = {agg_proxy a g | a g. recall s a = Some g}"
  shows "mset (load s) = mset xs"
proof -
  have "distinct (load s)" "distinct xs"
    using load_distinct[OF assms(1)] assms(2) by (simp_all add: distinct_map)
  moreover have "set (load s) = set xs" using load_set[OF assms(1)] assms(3) by (rule trans[OF _ sym])
  ultimately show ?thesis by (metis set_eq_iff_mset_eq_distinct)
qed

end

section \<open>What every store remembers\<close>

text \<open>The remembered success rate is a probability.\<close>

definition agg_ok :: "agg \<Rightarrow> bool" where
  "agg_ok g \<longleftrightarrow> 0 \<le> ag_ewma g \<and> ag_ewma g \<le> 1"

lemma sample_of_range: "0 \<le> sample_of p" "sample_of p \<le> 1"
  by (simp_all add: sample_of_def)

lemma fold_ewma_between: "0 \<le> a \<Longrightarrow> a \<le> 1 \<Longrightarrow> lo \<le> x \<Longrightarrow> lo \<le> y \<Longrightarrow> x \<le> hi \<Longrightarrow> y \<le> hi \<Longrightarrow>
    lo \<le> fold_ewma x y a \<and> fold_ewma x y a \<le> hi"
  using convex_bound_le[of y hi x a "1 - a"] convex_bound_le[of "- y" "- lo" "- x" a "1 - a"]
  by (simp add: fold_ewma_def)

lemma agg_ok_fold: "(\<And>g. prior = Some g \<Longrightarrow> agg_ok g) \<Longrightarrow> agg_ok (agg_fold p prior)"
  using fold_ewma_between[of "3/10" 0 _ "sample_of p" 1] sample_of_range[of p]
  by (cases prior) (auto simp: agg_ok_def agg_fold_def)

lemma agg_step_apply: "agg_step p m a = (if a = p_addr p then Some (agg_fold p (m a)) else m a)"
  by (simp add: agg_step_def)

lemma recall_all_ok: "(\<And>a g. m a = Some g \<Longrightarrow> agg_ok g) \<Longrightarrow> recall_all ps m a = Some g \<Longrightarrow> agg_ok g"
proof (induction ps m rule: recall_all.induct)
  case (2 t p ps m)
  have "agg_ok g" if "agg_step p m a = Some g" for a g
    using that 2(2) agg_ok_fold[of "m a" p] by (auto simp: agg_step_apply split: if_splits)
  with 2 show ?case by simp
qed simp

text \<open>The history of one address: the samples that it got, in order.\<close>

definition samples :: "sock_addr \<Rightarrow> (int \<times> proxy) list \<Rightarrow> proxy list" where
  "samples a ps = filter (\<lambda>p. p_addr p = a) (map snd ps)"

lemma recall_all_samples: "recall_all ps m a = foldl (\<lambda>g p. Some (agg_fold p g)) (m a) (samples a ps)"
proof (induction ps arbitrary: m)
  case (Cons x ps)
  obtain t p where x: "x = (t, p)" by (cases x)
  have "samples a (x # ps) = (if p_addr p = a then p # samples a ps else samples a ps)"
    by (simp add: samples_def x)
  moreover have "recall_all (x # ps) m a = foldl (\<lambda>g p. Some (agg_fold p g)) (agg_step p m a) (samples a ps)"
    unfolding x recall_all.simps by (rule Cons.IH)
  ultimately show ?case by (auto simp: agg_step_apply)
qed (simp add: samples_def)

lemma agg_history:
  "foldl (\<lambda>g p. Some (agg_fold p g)) (Some g) ps = Some g' \<Longrightarrow>
    ag_requests g' = ag_requests g + sum_list (map (unat \<circ> p_requests) ps)
    \<and> ag_errors g' = ag_errors g + sum_list (map (unat \<circ> errors_total) ps)
    \<and> ((\<exists>pr. ag_types g pr \<noteq> None) \<or> list_ex is_working ps \<longleftrightarrow> (\<exists>pr. ag_types g' pr \<noteq> None))"
proof (induction ps arbitrary: g)
  case (Cons p ps)
  let ?g = "agg_fold p (Some g)"
  have "(\<exists>pr. ag_types ?g pr \<noteq> None) \<longleftrightarrow> (\<exists>pr. ag_types g pr \<noteq> None) \<or> is_working p"
    by (auto simp: agg_fold_def is_working_iff)
  with Cons.IH[of ?g] Cons.prems show ?case by (auto simp: agg_fold_def)
qed simp

section \<open>The backends meet the contract\<close>

lemma map_of_put_entry: "map_of (put_entry k f s) k' = (if k' = k then Some (f (map_of s k)) else map_of s k')"
  by (induction k f s rule: put_entry.induct) auto

lemma keys_put_entry: "fst ` set (put_entry k f s) = insert k (fst ` set s)"
  by (induction k f s rule: put_entry.induct) auto

lemma distinct_put_entry: "distinct (map fst s) \<Longrightarrow> distinct (map fst (put_entry k f s))"
proof (induction k f s rule: put_entry.induct)
  case (2 k f k' v s)
  with keys_put_entry[of k f s] show ?case by auto
qed simp

lemma put_entry_in: "(k', v) \<in> set (put_entry k f s) \<Longrightarrow> distinct (map fst s) \<Longrightarrow>
    (k', v) \<in> set s \<or> (k' = k \<and> v = f (map_of s k))"
  using map_of_put_entry[of k f s k'] distinct_put_entry[of s k f]
  by (metis map_of_eq_Some_iff option.inject)

lemma load_image:
  assumes "\<And>a g. rc a = Some g \<longleftrightarrow> (\<exists>x \<in> S. adr x = a \<and> g = ag x)" "\<And>x. x \<in> S \<Longrightarrow> ld x = f (adr x) (ag x)"
  shows "ld ` S = {f a g | a g. rc a = Some g}"
  using assms by auto

text \<open>In memory.\<close>

definition mem_agg :: "mem_record \<Rightarrow> agg" where
  "mem_agg r = \<lparr>ag_types = mr_types r, ag_requests = unat (mr_requests r), ag_errors = unat (mr_errors r),
     ag_ewma = mr_ewma r, ag_latency = mr_latency r\<rparr>"

definition mem_recall :: "mem_store \<Rightarrow> sock_addr \<Rightarrow> agg option" where
  "mem_recall s a = map_option mem_agg (map_of s a)"

definition mem_ok :: "mem_store \<Rightarrow> bool" where
  "mem_ok s \<longleftrightarrow> distinct (map fst s)"

lemma sat_add_exact: "unat a + unat b < 2 ^ LENGTH('a) \<Longrightarrow> unat (sat_add a (b :: 'a::len word)) = unat a + unat b"
  by (simp add: sat_add_def unat_add_lem)

lemma is_working_keys: "type_keys (p_types p) \<noteq> [] \<longleftrightarrow> is_working p"
  by (simp add: is_working_def)

lemma mem_fold_agg:
  assumes "counts_fit p (mem_recall s)"
  shows "mem_agg (mem_fold p (map_of s (p_addr p))) = agg_fold p (mem_recall s (p_addr p))"
proof (cases "map_of s (p_addr p)")
  case None
  then show ?thesis by (simp add: mem_fold_def mem_recall_def agg_fold_def mem_agg_def)
next
  case (Some r)
  with assms have "unat (mr_requests r) + unat (p_requests p) < 2 ^ LENGTH(32)"
    "unat (mr_errors r) + unat (errors_total p) < 2 ^ LENGTH(32)"
    by (simp_all add: counts_fit_def mem_recall_def mem_agg_def)
  with Some show ?thesis
    by (simp add: mem_fold_def mem_recall_def agg_fold_def mem_agg_def sat_add_exact is_working_keys fold_ewma_def)
qed

lemma p_addr_restored [simp]: "p_host (with_ewma e (restored h pt ty rq er av)) = h"
  "p_port (with_ewma e (restored h pt ty rq er av)) = pt"
  by (simp_all add: with_ewma_def restored_def)

interpretation mem: proxy_store "\<lambda>t. mem_upsert" mem_load mem_recall mem_ok counts_fit
proof
  fix s :: mem_store and p and t :: int
  assume ok: "mem_ok s" and f: "counts_fit p (mem_recall s)"
  show "mem_ok (mem_upsert p s)" using ok by (simp add: mem_ok_def mem_upsert_def distinct_put_entry)
  show "mem_recall (mem_upsert p s) = agg_step p (mem_recall s)"
    using mem_fold_agg[OF f]
    by (auto simp: agg_step_def mem_recall_def mem_upsert_def map_of_put_entry)
next
  fix s :: mem_store
  assume ok: "mem_ok s"
  have "mem_recall s a = Some g \<longleftrightarrow> (\<exists>x \<in> set s. fst x = a \<and> g = mem_agg (snd x))" for a g
    using map_of_eq_Some_iff[of s a] ok by (force simp: mem_recall_def mem_ok_def)
  moreover have "mem_proxy x = agg_proxy (fst x) (mem_agg (snd x))" for x
    by (simp add: agg_proxy_def mem_agg_def mem_proxy_def split: prod.split)
  ultimately show "set (mem_load s) = {agg_proxy a g |a g. mem_recall s a = Some g}"
    unfolding mem_load_def set_map by (rule load_image)
  have "map p_addr (mem_load s) = map fst s" by (simp add: mem_load_def mem_proxy_def split: prod.split)
  then show "distinct (map p_addr (mem_load s))" using ok by (simp only: mem_ok_def)
qed

text \<open>In SQLite.\<close>

definition types_text_ok :: "(json \<Rightarrow> string) \<Rightarrow> (string \<Rightarrow> json option) \<Rightarrow> type_map \<Rightarrow> bool" where
  "types_text_ok to_string from_str m \<longleftrightarrow>
     from_str (types_to_json to_string m) = Some (JArr (map type_json (type_entries m)))
     \<and> (types_to_json to_string m = ''[]'' \<longleftrightarrow> type_entries m = [])"

lemma type_of_json_back: "type_of_json m (type_json t) = m(fst t \<mapsto> snd t)"
  by (cases "snd t") (simp_all add: type_of_json_def type_json_def json_index_def de_string_def level_str_def)

lemma types_from_json_back:
  assumes "types_text_ok to_string from_str m"
  shows "types_from_json from_str (types_to_json to_string m) = m"
proof -
  have "foldl type_of_json n (map type_json ts) = n ++ map_of (rev ts)" for n ts
  proof (induction ts arbitrary: n)
    case (Cons t ts)
    have "n(fst t \<mapsto> snd t) ++ map_of (rev ts) = n ++ map_of (rev (t # ts))"
      by (rule ext) (auto simp: map_add_def map_of_append split: option.splits)
    with Cons[of "n(fst t \<mapsto> snd t)"] show ?case
      by (simp only: list.map foldl.simps type_of_json_back)
  qed simp
  with assms map_of_type_entries[of "type_entries m" m] show ?thesis
    by (simp add: types_from_json_def types_text_ok_def)
qed

lemma type_entries_empty: "type_entries (p_types p) = [] \<longleftrightarrow> \<not> is_working p"
  by (simp add: type_entries_def is_working_def)

definition text_fit :: "(json \<Rightarrow> string) \<Rightarrow> (string \<Rightarrow> json option) \<Rightarrow> proxy \<Rightarrow> (sock_addr \<rightharpoonup> agg) \<Rightarrow> bool" where
  "text_fit to_string from_str p m \<longleftrightarrow>
     counts_fit p m \<and> types_text_ok to_string from_str (p_types p)"

definition sql_key :: "sock_addr \<Rightarrow> string \<times> int" where
  "sql_key a = (show_ip (fst a), uint (snd a))"

definition row_agg :: "(string \<Rightarrow> json option) \<Rightarrow> sql_row \<Rightarrow> agg" where
  "row_agg from_str r = \<lparr>ag_types = types_from_json from_str (sr_types r), ag_requests = nat (sr_requests r),
     ag_errors = nat (sr_errors r), ag_ewma = sr_ewma r, ag_latency = sr_latency r\<rparr>"

definition sql_recall :: "(string \<Rightarrow> json option) \<Rightarrow> sql_table \<Rightarrow> sock_addr \<Rightarrow> agg option" where
  "sql_recall from_str t a = map_option (row_agg from_str) (map_of t (sql_key a))"

definition in_u32 :: "int \<Rightarrow> bool" where
  "in_u32 n \<longleftrightarrow> 0 \<le> n \<and> n < 2 ^ 32"

definition sql_ok :: "sql_table \<Rightarrow> bool" where
  "sql_ok t \<longleftrightarrow> distinct (map fst t)
     \<and> (\<forall>x \<in> set t. (\<exists>a. fst x = sql_key a) \<and> in_u32 (sr_requests (snd x)) \<and> in_u32 (sr_errors (snd x)))"

lemma sql_key_inj: "sql_key a = sql_key b \<longleftrightarrow> a = b"
  by (auto simp: sql_key_def word_uint_eq_iff prod_eq_iff)

lemma u32_range: "in_u32 (uint (w :: u32))" "nat (uint w) = unat w"
  using uint_bounded[of w] by (simp_all add: in_u32_def)

lemma u32_sum:
  assumes "in_u32 n" "nat n + unat (w :: u32) < 2 ^ 32"
  shows "nat (n + uint w) = nat n + unat w" "in_u32 (n + uint w)"
proof -
  obtain k where k: "n = int k" using assms(1) by (auto simp: in_u32_def elim: nonneg_int_cases)
  have w: "uint w = int (unat w)" by simp
  show "nat (n + uint w) = nat n + unat w" unfolding k w by (simp only: nat_int flip: of_nat_add)
  have "int (k + unat w) < int (2 ^ 32)" using assms(2)[unfolded k nat_int] by (simp only: of_nat_less_iff)
  then show "in_u32 (n + uint w)" unfolding k w in_u32_def by (simp only: of_nat_add of_nat_power of_nat_numeral) simp
qed

lemma sql_fold_agg:
  assumes "text_fit to_string from_str p (sql_recall from_str t)" "sql_ok t"
  shows "row_agg from_str (sql_fold to_string now p (map_of t (sql_key (p_addr p)))) = agg_fold p (sql_recall from_str t (p_addr p))"
    "in_u32 (sr_requests (sql_fold to_string now p (map_of t (sql_key (p_addr p)))))"
    "in_u32 (sr_errors (sql_fold to_string now p (map_of t (sql_key (p_addr p)))))"
proof -
  let ?m = "map_of t (sql_key (p_addr p))"
  have tx: "types_text_ok to_string from_str (p_types p)" "counts_fit p (sql_recall from_str t)"
    using assms(1) by (simp_all add: text_fit_def)
  note rt = types_from_json_back[OF tx(1)]
  have e: "types_to_json to_string (p_types p) = ''[]'' \<longleftrightarrow> \<not> is_working p"
    using tx(1) by (simp add: types_text_ok_def type_entries_empty)
  have "row_agg from_str (sql_fold to_string now p ?m) = agg_fold p (sql_recall from_str t (p_addr p))
    \<and> in_u32 (sr_requests (sql_fold to_string now p ?m)) \<and> in_u32 (sr_errors (sql_fold to_string now p ?m))"
  proof (cases ?m)
    case None
    then show ?thesis
      using rt u32_range by (simp add: sql_fold_def sql_values_def sql_recall_def agg_fold_def row_agg_def)
  next
    case (Some r)
    then have "(sql_key (p_addr p), r) \<in> set t" by (rule map_of_SomeD)
    with assms(2) have "in_u32 (sr_requests (snd (sql_key (p_addr p), r))) \<and> in_u32 (sr_errors (snd (sql_key (p_addr p), r)))"
      unfolding sql_ok_def by blast
    then have r: "in_u32 (sr_requests r)" "in_u32 (sr_errors r)" by simp_all
    have c: "nat (sr_requests r) + unat (p_requests p) < 2 ^ 32" "nat (sr_errors r) + unat (errors_total p) < 2 ^ 32"
      using tx(2) Some by (simp_all add: counts_fit_def sql_recall_def row_agg_def)
    have "nat (sr_requests r + uint (p_requests p)) = nat (sr_requests r) + unat (p_requests p)"
      "nat (sr_errors r + uint (errors_total p)) = nat (sr_errors r) + unat (errors_total p)"
      "in_u32 (sr_requests r + uint (p_requests p))" "in_u32 (sr_errors r + uint (errors_total p))"
      using u32_sum r c by blast+
    with Some show ?thesis
      using rt e by (simp add: sql_fold_def sql_update_def sql_values_def sql_recall_def agg_fold_def row_agg_def fold_ewma_def)
  qed
  then show "row_agg from_str (sql_fold to_string now p ?m) = agg_fold p (sql_recall from_str t (p_addr p))"
    "in_u32 (sr_requests (sql_fold to_string now p ?m))" "in_u32 (sr_errors (sql_fold to_string now p ?m))" by blast+
qed

definition row_proxy :: "(string \<Rightarrow> json option) \<Rightarrow> ip_addr \<Rightarrow> int \<Rightarrow> sql_row \<Rightarrow> proxy" where
  "row_proxy from_str h port row = with_ewma (Some (sr_ewma row))
     (restored h (of_int port) (types_from_json from_str (sr_types row)) (of_int (sr_requests row))
       (of_int (sr_errors row)) (sr_latency row))"

lemma of_int_u32: "in_u32 n \<Longrightarrow> (of_nat (nat n) :: u32) = of_int n"
  by (simp add: in_u32_def)

text \<open>The address of a row, of those the store wrote.\<close>

definition row_addr :: "(string \<times> int) \<times> sql_row \<Rightarrow> sock_addr" where
  "row_addr x = (the (parse_ip (fst (fst x))), of_int (snd (fst x)))"

lemma row_addr_key: "row_addr (sql_key a, r) = a"
  by (simp add: row_addr_def sql_key_def)

lemma sql_load_rows:
  assumes "sql_ok t"
  shows "sql_load from_str t = map (\<lambda>x. agg_proxy (row_addr x) (row_agg from_str (snd x))) t"
proof -
  have "(case x of ((host, port), row) \<Rightarrow> case parse_ip host of None \<Rightarrow> None
       | Some h \<Rightarrow> Some (row_proxy from_str h port row)) = Some (agg_proxy (row_addr x) (row_agg from_str (snd x)))"
    if x: "x \<in> set t" for x
  proof -
    have "\<exists>a. fst x = sql_key a" and u: "in_u32 (sr_requests (snd x))" "in_u32 (sr_errors (snd x))"
      using assms x by (simp_all add: sql_ok_def)
    then obtain a where a: "fst x = sql_key a" by blast
    then show ?thesis
      using row_addr_key[of a "snd x"] of_int_u32[OF u(1)] of_int_u32[OF u(2)]
      by (cases x) (simp add: sql_key_def row_proxy_def agg_proxy_def row_agg_def)
  qed
  then show ?thesis
    unfolding sql_load_def row_proxy_def[symmetric] by (induction t) (auto simp: map_filter_def split: prod.splits)
qed

lemma sql_recall_iff:
  assumes "sql_ok t"
  shows "sql_recall from_str t a = Some g \<longleftrightarrow> (\<exists>x \<in> set t. row_addr x = a \<and> g = row_agg from_str (snd x))"
proof
  assume "sql_recall from_str t a = Some g"
  then obtain r where r: "map_of t (sql_key a) = Some r" "g = row_agg from_str r"
    by (auto simp: sql_recall_def split: if_splits)
  then show "\<exists>x \<in> set t. row_addr x = a \<and> g = row_agg from_str (snd x)"
    using map_of_SomeD[OF r(1)] row_addr_key[of a r] by (intro bexI[of _ "(sql_key a, r)"]) simp_all
next
  assume "\<exists>x \<in> set t. row_addr x = a \<and> g = row_agg from_str (snd x)"
  then obtain x where x: "x \<in> set t" "row_addr x = a" "g = row_agg from_str (snd x)" by blast
  with assms obtain b where b: "fst x = sql_key b" unfolding sql_ok_def by blast
  have "b = a" using row_addr_key[of b "snd x"] x(2) b by (metis prod.collapse)
  moreover have "map_of t (fst x) = Some (snd x)" using assms x(1) by (simp add: sql_ok_def)
  ultimately show "sql_recall from_str t a = Some g" using b x(3) by (simp add: sql_recall_def)
qed

lemma sql_exec_key: "sql_exec to_string now p t = put_entry (sql_key (p_addr p)) (sql_fold to_string now p) t"
  by (simp add: sql_exec_def sql_key_def)

interpretation sql: proxy_store "sql_exec to_string" "sql_load from_str" "sql_recall from_str" sql_ok "text_fit to_string from_str"
  for to_string from_str
proof
  fix t p now
  assume ok: "sql_ok t" and f: "text_fit to_string from_str p (sql_recall from_str t)"
  note sf = sql_fold_agg[OF f ok, of now]
  have d: "distinct (map fst t)" using ok by (simp add: sql_ok_def)
  show "sql_recall from_str (sql_exec to_string now p t) = agg_step p (sql_recall from_str t)"
  proof
    fix a
    show "sql_recall from_str (sql_exec to_string now p t) a = agg_step p (sql_recall from_str t) a"
      using sf(1) by (simp add: agg_step_apply sql_recall_def sql_exec_key map_of_put_entry sql_key_inj)
  qed
  have "(\<exists>a. k = sql_key a) \<and> in_u32 (sr_requests r) \<and> in_u32 (sr_errors r)"
    if kr: "(k, r) \<in> set (sql_exec to_string now p t)" for k r
  proof -
    have "(k, r) \<in> set t \<or> k = sql_key (p_addr p) \<and> r = sql_fold to_string now p (map_of t (sql_key (p_addr p)))"
      using put_entry_in[OF kr[unfolded sql_exec_key] d] .
    then show ?thesis
    proof
      assume "(k, r) \<in> set t"
      with ok show ?thesis unfolding sql_ok_def by fastforce
    next
      assume "k = sql_key (p_addr p) \<and> r = sql_fold to_string now p (map_of t (sql_key (p_addr p)))"
      with sf(2,3) show ?thesis by (metis fst_conv)
    qed
  qed
  moreover have "distinct (map fst (sql_exec to_string now p t))"
    unfolding sql_exec_key using d by (rule distinct_put_entry)
  ultimately show "sql_ok (sql_exec to_string now p t)" unfolding sql_ok_def by (metis prod.collapse)
next
  fix t
  assume ok: "sql_ok t"
  show "set (sql_load from_str t) = {agg_proxy a g |a g. sql_recall from_str t a = Some g}"
    unfolding sql_load_rows[OF ok] set_map by (rule load_image[OF sql_recall_iff[OF ok] refl])
  have "inj_on row_addr (set t)"
  proof (rule inj_onI)
    fix x y assume xy: "x \<in> set t" "y \<in> set t" "row_addr x = row_addr y"
    then obtain a b where ab: "fst x = sql_key a" "fst y = sql_key b"
      using ok unfolding sql_ok_def by blast
    have "row_addr x = a" "row_addr y = b"
      using row_addr_key[of a "snd x"] row_addr_key[of b "snd y"] ab by (metis prod.collapse)+
    with ab xy have "fst x = fst y" by simp
    with xy(1,2) ok show "x = y" unfolding sql_ok_def by (metis eq_key_imp_eq_value prod.collapse)
  qed
  moreover have "distinct t" using ok by (simp add: sql_ok_def distinct_map)
  moreover have "map p_addr (sql_load from_str t) = map row_addr t"
    by (simp add: sql_load_rows[OF ok] agg_proxy_def)
  ultimately show "distinct (map p_addr (sql_load from_str t))" by (simp add: distinct_map)
qed

end
