(* ===== verification/Lookup.thy ===== *)
theory Lookup
  imports Scan "HOL-Library.Char_ord" "HOL-Library.List_Lexorder"
begin

text \<open>
  What the program looks up outside: host names and the host's own addresses (\<^verbatim>\<open>src/src/resolver.rs\<close>),
  countries and networks (\<^verbatim>\<open>src/src/geo.rs\<close>) and provider files and pages (\<^verbatim>\<open>src/src/provider.rs\<close>). The DNS
  server, the HTTP client, the database reader, the YAML reader and the file system are arguments.
\<close>

section \<open>The resolver\<close>

definition default_ip_endpoints :: "string list" where
  "default_ip_endpoints = [''https://api64.ipify.org/'', ''https://api.ipify.org/'', ''https://icanhazip.com/'']"

text \<open>The DNS and HTTP clients of the struct are the arguments of its methods.\<close>

record resolver =
  rs_timeout :: duration
  rs_ip_endpoints :: "string list"

definition resolver_new :: "string option \<Rightarrow> string option \<Rightarrow> duration \<Rightarrow> error + resolver" where
  "resolver_new init_fails build_fails timeout =
     (case init_fails of
        Some e \<Rightarrow> Inl (Config (''dns resolver init: '' @ e))
      | None \<Rightarrow> (case build_fails of
           Some e \<Rightarrow> Inl (Config (''dns resolver build: '' @ e))
         | None \<Rightarrow> Inr \<lparr>rs_timeout = timeout, rs_ip_endpoints = default_ip_endpoints\<rparr>))"

definition with_ip_endpoints :: "string list \<Rightarrow> resolver \<Rightarrow> resolver" where
  "with_ip_endpoints es r = r\<lparr>rs_ip_endpoints := es\<rparr>"

text \<open>\<open>dns\<close> is the answer within the timeout: nothing, or the addresses in order.\<close>

definition resolve :: "(string \<Rightarrow> ip_addr list option) \<Rightarrow> string \<Rightarrow> proxy_error + ip_addr" where
  "resolve dns host =
     (case parse_ip_lenient host of
        Some ip \<Rightarrow> Inr ip
      | None \<Rightarrow> (case dns host of Some (ip # _) \<Rightarrow> Inr ip | _ \<Rightarrow> Inl Resolve))"

definition external_ips :: "(string \<Rightarrow> string option) \<Rightarrow> string list \<Rightarrow> error + ip_addr list" where
  "external_ips http endpoints =
     (let found = remdups (List.map_filter (\<lambda>url. case http url of None \<Rightarrow> None | Some body \<Rightarrow> parse_ip (trim body)) endpoints)
      in if found = [] then Inl ExtIpUnknown else Inr found)"

section \<open>Geographic databases\<close>

text \<open>The fields of a decoded city record and of a decoded network record that the program reads.\<close>

record place =
  pc_iso_code :: "string option"
  pc_english :: "string option"

record city_record =
  ci_country :: place
  ci_subdivisions :: "place list"
  ci_city_english :: "string option"

record asn_record =
  ar_number :: "u32 option"
  ar_organization :: "string option"

definition region_of :: "place list \<Rightarrow> region option" where
  "region_of ss =
     (case ss of [] \<Rightarrow> None
      | s # _ \<Rightarrow>
         let r = \<lparr>r_code = (case pc_iso_code s of Some c \<Rightarrow> c | None \<Rightarrow> []), r_name = (case pc_english s of Some n \<Rightarrow> n | None \<Rightarrow> [])\<rparr>
         in if r_code r = [] \<and> r_name r = [] then None else Some r)"

definition geo_lookup :: "(ip_addr \<Rightarrow> city_record option) \<Rightarrow> ip_addr \<Rightarrow> country option" where
  "geo_lookup reader ip =
     (case reader ip of None \<Rightarrow> None
      | Some rec \<Rightarrow>
         (case pc_iso_code (ci_country rec) of None \<Rightarrow> None
          | Some code \<Rightarrow> Some \<lparr>c_code = code,
              c_name = (case pc_english (ci_country rec) of Some n \<Rightarrow> n | None \<Rightarrow> code),
              c_region = region_of (ci_subdivisions rec), c_city = ci_city_english rec\<rparr>))"

definition lookup_asn :: "(ip_addr \<Rightarrow> asn_record option) \<Rightarrow> ip_addr \<Rightarrow> asn option" where
  "lookup_asn reader ip =
     (case reader ip of None \<Rightarrow> None
      | Some rec \<Rightarrow> (case ar_number rec of None \<Rightarrow> None
          | Some n \<Rightarrow> Some \<lparr>asn_number = n, asn_org = ar_organization rec\<rparr>))"

section \<open>Providers\<close>

definition default_timeout :: nat where
  "default_timeout = 20"

definition provider_new :: "string \<Rightarrow> proto list \<Rightarrow> provider_spec" where
  "provider_new url protos = \<lparr>pv_url = url, pv_protocols = protos, pv_pattern = None, pv_timeout = default_timeout, pv_kind = None\<rparr>"

text \<open>The extension of a file name: what follows the last dot, unless that dot is the first character.\<close>

definition extension :: "string \<Rightarrow> string option" where
  "extension name = (case rsplit_once CHR ''.'' name of None \<Rightarrow> None | Some (stem, ext) \<Rightarrow> if stem = [] then None else Some ext)"

definition config_name :: "string \<Rightarrow> bool" where
  "config_name name \<longleftrightarrow> (extension name = Some ''yaml'' \<or> extension name = Some ''yml'' \<or> extension name = Some ''json'')
     \<and> \<not> starts_with ''_'' name"

text \<open>One file of the directory: \<open>read\<close> is its text if it can be read, \<open>yaml\<close> the decoder.\<close>

definition load_config :: "(string \<Rightarrow> provider_spec option) \<Rightarrow> string option \<Rightarrow> provider_spec option" where
  "load_config yaml text =
     (case text of None \<Rightarrow> None
      | Some t \<Rightarrow> (case yaml t of None \<Rightarrow> None
          | Some spec \<Rightarrow> if pv_kind spec = None \<or> pv_kind spec = Some ''simple'' then Some spec else None))"

text \<open>\<open>dir\<close> is the listing of the directory, \<open>None\<close> when it does not exist or cannot be read.\<close>

definition load_provider_dir :: "(string \<Rightarrow> provider_spec option) \<Rightarrow> (string \<times> string option) list option \<Rightarrow> provider_spec list" where
  "load_provider_dir yaml dir =
     (case dir of None \<Rightarrow> []
      | Some files \<Rightarrow> List.map_filter (\<lambda>(_, text). load_config yaml text)
          (sort_key fst (filter (\<lambda>(name, _). config_name name) files)))"

text \<open>\<open>get\<close> is the body of a successful answer.\<close>

definition fetch :: "captures \<Rightarrow> (string \<Rightarrow> nat \<Rightarrow> string option) \<Rightarrow> provider_spec \<Rightarrow> candidate list" where
  "fetch caps get spec =
     (case get (pv_url spec) (pv_timeout spec) of None \<Rightarrow> [] | Some body \<Rightarrow> extract_candidates caps spec body)"

section \<open>Properties\<close>

text \<open>A literal address is never looked up, a name gives the first address of the answer, and everything
  else is the resolution error; the host's own addresses are exactly the distinct valid answers, and no
  valid answer is the error.\<close>

theorem resolver_spec:
  "(case parse_ip_lenient host of
      Some ip \<Rightarrow> resolve dns host = resolve dns' host \<and> resolve dns host = Inr ip
    | None \<Rightarrow> resolve dns host = (case dns host of Some (ip # ips) \<Rightarrow> Inr ip | _ \<Rightarrow> Inl Resolve))
   \<and> (case external_ips http urls of
        Inl e \<Rightarrow> e = ExtIpUnknown \<and> list_all (\<lambda>u. case http u of Some body \<Rightarrow> parse_ip (trim body) = None | None \<Rightarrow> True) urls
      | Inr ips \<Rightarrow> ips \<noteq> [] \<and> distinct ips
          \<and> set ips = {ip. \<exists>u \<in> set urls. \<exists>body. http u = Some body \<and> parse_ip (trim body) = Some ip})"
proof
  show "case parse_ip_lenient host of
      Some ip \<Rightarrow> resolve dns host = resolve dns' host \<and> resolve dns host = Inr ip
    | None \<Rightarrow> resolve dns host = (case dns host of Some (ip # ips) \<Rightarrow> Inr ip | _ \<Rightarrow> Inl Resolve)"
    by (simp add: resolve_def split: option.split)
  let ?f = "\<lambda>u. case http u of None \<Rightarrow> None | Some body \<Rightarrow> parse_ip (trim body)"
  have f: "?f u = Some ip \<longleftrightarrow> (\<exists>body. http u = Some body \<and> parse_ip (trim body) = Some ip)"
    "?f u = None \<longleftrightarrow> (case http u of Some body \<Rightarrow> parse_ip (trim body) = None | None \<Rightarrow> True)" for u ip
    by (auto split: option.split)
  have "set (List.map_filter ?f urls) = {ip. \<exists>u \<in> set urls. ?f u = Some ip}"
    "List.map_filter ?f urls = [] \<longleftrightarrow> list_all (\<lambda>u. ?f u = None) urls" by (induction urls) (auto simp: map_filter_simps split: option.splits)
  then show "case external_ips http urls of
        Inl e \<Rightarrow> e = ExtIpUnknown \<and> list_all (\<lambda>u. case http u of Some body \<Rightarrow> parse_ip (trim body) = None | None \<Rightarrow> True) urls
      | Inr ips \<Rightarrow> ips \<noteq> [] \<and> distinct ips
          \<and> set ips = {ip. \<exists>u \<in> set urls. \<exists>body. http u = Some body \<and> parse_ip (trim body) = Some ip}"
    unfolding f by (simp add: external_ips_def Let_def)
qed

text \<open>What a database gives is a location the saved form keeps: it has a name, and a region only when
  the region has a code or a name.\<close>

lemma geo_lookup_region:
  "geo_lookup reader ip = Some c \<Longrightarrow> c_region c = Some r \<Longrightarrow> r_code r \<noteq> [] \<or> r_name r \<noteq> []"
  by (auto simp: geo_lookup_def region_of_def Let_def split: option.splits list.splits if_splits)

lemma load_dir_sound:
  "spec \<in> set (load_provider_dir yaml (Some files)) \<longleftrightarrow>
     (\<exists>name text. (name, Some text) \<in> set files \<and> config_name name \<and> yaml text = Some spec
       \<and> (pv_kind spec = None \<or> pv_kind spec = Some ''simple''))"
  by (force simp: load_provider_dir_def load_config_def map_filter_def split: option.splits if_splits)

end
