(* ===== verification/Scheduler.thy ===== *)
theory Scheduler
  imports Pool_Facts
begin

text \<open>
  The adaptive re-checker, \<^verbatim>\<open>src/src/scheduler.rs\<close>: cadence, decay and eviction, and the loop of
  \<^verbatim>\<open>spawn_rechecker\<close> as a step function.

  The loop's variables are one record. It suspends at three points (waiting for the soonest job, for the
  rate ceiling, and for the check), so a pass is three actions, and between two of them the other tasks
  may change the pool (\<open>Others\<close>). The heap is a list; a pop may take any of the soonest jobs, as
  \<open>BinaryHeap\<close> does not order equal ones. Times and the random numbers of the jitter are arguments of
  the actions, the outcome of the \<open>i\<close>-th check is a parameter; \<open>None\<close> is an action that is not enabled, or
  a panic of a duration that overflows. What is given to the store is kept in order.
\<close>

section \<open>Cadence and decay\<close>

record recheck_config =
  rc_min_interval :: duration
  rc_max_interval :: duration
  rc_rate_per_sec :: real
  rc_decay_halflife :: duration

definition recheck_default :: recheck_config where
  "recheck_default = \<lparr>rc_min_interval = 60000000000, rc_max_interval = 3600000000000, rc_rate_per_sec = 5,
     rc_decay_halflife = 21600000000000\<rparr>"

definition clamp01 :: "real \<Rightarrow> real" where
  "clamp01 x = max 0 (min x 1)"

definition next_interval :: "real \<Rightarrow> recheck_config \<Rightarrow> duration option" where
  "next_interval ewma cfg =
     (let e = clamp01 ewma; lo = as_secs_f64 (rc_min_interval cfg); hi = as_secs_f64 (rc_max_interval cfg)
      in from_secs_f64 (lo + e * (hi - lo)))"

definition decayed_score :: "real \<Rightarrow> real \<Rightarrow> duration \<Rightarrow> recheck_config \<Rightarrow> real" where
  "decayed_score ewma latency age cfg =
     (let base = clamp01 ewma / (1 + max latency 0); hl = as_secs_f64 (rc_decay_halflife cfg);
          decay = (if 0 < hl then (1/2) powr (as_secs_f64 age / hl) else 1)
      in base * decay)"

definition evict_floor :: real where
  "evict_floor = 2/100"

definition should_retry :: "real \<Rightarrow> real \<Rightarrow> duration \<Rightarrow> recheck_config \<Rightarrow> bool" where
  "should_retry ewma latency age cfg \<longleftrightarrow> evict_floor \<le> decayed_score ewma latency age cfg"

text \<open>\<open>r\<close> is the random number between \<open>-1/2\<close> and \<open>1/2\<close>.\<close>

definition jitter :: "real \<Rightarrow> duration \<Rightarrow> duration option" where
  "jitter r base = from_secs_f64 (as_secs_f64 base * (1 + r))"

definition start_gap :: "recheck_config \<Rightarrow> duration option" where
  "start_gap cfg = from_secs_f64 (1 / max (rc_rate_per_sec cfg) (1/1000))"

section \<open>The loop\<close>

record sched =
  sc_heap :: "(instant \<times> sock_addr) list"
  sc_ewma :: "sock_addr \<rightharpoonup> real"
  sc_last_ok :: "sock_addr \<rightharpoonup> instant"
  sc_retrying :: "sock_addr set"
  sc_next_start :: instant
  sc_current :: "sock_addr option"
  sc_probes :: nat
  sc_stored :: "proxy list"
  sc_pool :: pool

record sched_env =
  se_cfg :: recheck_config
  se_check :: "nat \<Rightarrow> proxy \<Rightarrow> bool \<times> proxy"

definition sched_init :: "instant \<Rightarrow> pool \<Rightarrow> sched" where
  "sched_init now pl = \<lparr>sc_heap = [], sc_ewma = Map.empty, sc_last_ok = Map.empty, sc_retrying = {},
     sc_next_start = now, sc_current = None, sc_probes = 0, sc_stored = [], sc_pool = pl\<rparr>"

datatype sched_act = Enroll instant "sock_addr list" "sock_addr \<Rightarrow> real" | Start instant nat | Finish instant real
  | Others "pool \<Rightarrow> pool"

text \<open>One address of the pool that is not tracked yet.\<close>

definition enroll_one :: "recheck_config \<Rightarrow> instant \<Rightarrow> (sock_addr \<Rightarrow> real) \<Rightarrow> sock_addr \<Rightarrow> sched \<Rightarrow> sched option" where
  "enroll_one cfg now rnd a s =
     (case sc_ewma s a of
        Some _ \<Rightarrow> Some s
      | None \<Rightarrow>
         (case jitter (rnd a) (rc_min_interval cfg) of None \<Rightarrow> None
          | Some j \<Rightarrow> Some (s\<lparr>sc_ewma := (sc_ewma s)(a \<mapsto> 1), sc_last_ok := (sc_last_ok s)(a \<mapsto> now),
              sc_heap := (now + j, a) # sc_heap s\<rparr>)))"

fun enroll :: "recheck_config \<Rightarrow> instant \<Rightarrow> (sock_addr \<Rightarrow> real) \<Rightarrow> sock_addr list \<Rightarrow> sched \<Rightarrow> sched option" where
  "enroll cfg now rnd [] s = Some s"
| "enroll cfg now rnd (a # as) s =
     (case enroll_one cfg now rnd a s of None \<Rightarrow> None | Some s' \<Rightarrow> enroll cfg now rnd as s')"

definition forget :: "sock_addr \<Rightarrow> sched \<Rightarrow> sched" where
  "forget a s = s\<lparr>sc_ewma := (sc_ewma s)(a := None), sc_last_ok := (sc_last_ok s)(a := None)\<rparr>"

text \<open>Popping a due job: \<open>now\<close> is the instant at which the soonest job was found due; the start waits for
  the token.\<close>

definition start :: "recheck_config \<Rightarrow> instant \<Rightarrow> nat \<Rightarrow> sched \<Rightarrow> sched option" where
  "start cfg now k s =
     (if sc_current s \<noteq> None \<or> \<not> k < length (sc_heap s) \<or> \<not> list_all (\<lambda>x. fst (sc_heap s ! k) \<le> fst x) (sc_heap s)
        \<or> now < fst (sc_heap s ! k) then None
      else case start_gap cfg of None \<Rightarrow> None
        | Some gap \<Rightarrow>
           let a = snd (sc_heap s ! k);
               s1 = s\<lparr>sc_next_start := max (sc_next_start s) now + gap, sc_heap := vec_remove k (sc_heap s)\<rparr>
           in if a \<notin> sc_retrying s \<and> a \<notin> addrs (sc_pool s) then Some (forget a s1)
              else Some (s1\<lparr>sc_current := Some a\<rparr>))"

definition ewma_next :: "real \<Rightarrow> bool \<Rightarrow> real" where
  "ewma_next prev working = 3/10 * (if working then 1 else 0) + 7/10 * prev"

text \<open>The end of a check of address \<open>a\<close>.\<close>

definition settle :: "recheck_config \<Rightarrow> instant \<Rightarrow> duration \<Rightarrow> bool \<Rightarrow> proxy \<Rightarrow> sock_addr \<Rightarrow> real \<Rightarrow> sched \<Rightarrow> sched" where
  "settle cfg now delay working p a e s =
     (let s1 = s\<lparr>sc_current := None, sc_probes := sc_probes s + 1, sc_stored := sc_stored s @ [p],
                 sc_ewma := (sc_ewma s)(a \<mapsto> e)\<rparr>
      in if working then
           s1\<lparr>sc_last_ok := (sc_last_ok s)(a \<mapsto> now), sc_retrying := sc_retrying s - {a},
              sc_pool := pool_add p (sc_pool s), sc_heap := (now + delay, a) # sc_heap s\<rparr>
         else
           let s2 = s1\<lparr>sc_pool := snd (pool_remove a (sc_pool s))\<rparr>;
               age = now - (case sc_last_ok s a of Some t \<Rightarrow> t | None \<Rightarrow> now)
           in if should_retry e (avg_resp_time p) age cfg
              then s2\<lparr>sc_retrying := insert a (sc_retrying s), sc_heap := (now + delay, a) # sc_heap s\<rparr>
              else (forget a s2)\<lparr>sc_retrying := sc_retrying s - {a}\<rparr>)"

definition finish :: "sched_env \<Rightarrow> instant \<Rightarrow> real \<Rightarrow> sched \<Rightarrow> sched option" where
  "finish env now rnd s =
     (case sc_current s of None \<Rightarrow> None
      | Some a \<Rightarrow>
         (case se_check env (sc_probes s) (proxy_new (fst a) (snd a) {}) of (working, p) \<Rightarrow>
            let cfg = se_cfg env;
                e = ewma_next (case sc_ewma s a of Some x \<Rightarrow> x | None \<Rightarrow> 1) working
            in case (next_interval e cfg, jitter rnd (rc_min_interval cfg)) of
                 (Some i, Some j) \<Rightarrow> Some (settle cfg now (i + j) working p a e s)
               | _ \<Rightarrow> None))"

fun sched_exec :: "sched_env \<Rightarrow> sched_act \<Rightarrow> sched \<Rightarrow> sched option" where
  "sched_exec env (Enroll now as rnd) s =
     (if set as = addrs (sc_pool s) \<and> sc_current s = None then enroll (se_cfg env) now rnd as s else None)"
| "sched_exec env (Start now k) s = start (se_cfg env) now k s"
| "sched_exec env (Finish now rnd) s = finish env now rnd s"
| "sched_exec env (Others f) s = Some (s\<lparr>sc_pool := f (sc_pool s)\<rparr>)"

fun sched_run :: "sched_env \<Rightarrow> sched_act list \<Rightarrow> sched \<Rightarrow> sched option" where
  "sched_run env [] s = Some s"
| "sched_run env (a # as) s = (case sched_exec env a s of None \<Rightarrow> None | Some s' \<Rightarrow> sched_run env as s')"

section \<open>Bounds\<close>

declare split_paired_All [simp del] split_paired_Ex [simp del]

lemma clamp01_range [simp]: "0 \<le> clamp01 x" "clamp01 x \<le> 1"
  by (auto simp: clamp01_def)

lemma interval_between:
  fixes lo hi e :: real
  assumes "0 \<le> e" "e \<le> 1" "lo \<le> hi"
  shows "lo \<le> lo + e * (hi - lo)" "lo + e * (hi - lo) \<le> hi"
  using assms mult_left_le_one_le[of "hi - lo" e] by simp_all

text \<open>The re-check interval lies between the configured bounds, and a steadier proxy is never
  re-checked sooner.\<close>

theorem interval_bounded:
  assumes "rc_min_interval cfg \<le> rc_max_interval cfg" "as_secs_f64 (rc_max_interval cfg) < 2 ^ 64" "e \<le> e'"
  shows "\<exists>d d'. next_interval e cfg = Some d \<and> next_interval e' cfg = Some d'
    \<and> rc_min_interval cfg \<le> d \<and> d \<le> d' \<and> d' \<le> rc_max_interval cfg"
proof -
  let ?lo = "as_secs_f64 (rc_min_interval cfg)" and ?hi = "as_secs_f64 (rc_max_interval cfg)"
  let ?x = "?lo + clamp01 e * (?hi - ?lo)" and ?y = "?lo + clamp01 e' * (?hi - ?lo)"
  have lh: "?lo \<le> ?hi" using assms(1) by simp
  have "clamp01 e \<le> clamp01 e'" using assms(3) by (auto simp: clamp01_def)
  then have xy: "?x \<le> ?y" using lh by (simp add: mult_right_mono)
  have x: "?lo \<le> ?x" "?x \<le> ?hi" and y: "?lo \<le> ?y" "?y \<le> ?hi"
    using interval_between[OF clamp01_range lh] by simp_all
  obtain d where d: "from_secs_f64 ?x = Some d" "rc_min_interval cfg \<le> d"
    using from_secs_f64_between[OF x assms(2)] by metis
  obtain d' where d': "from_secs_f64 ?y = Some d'" "d' \<le> rc_max_interval cfg"
    using from_secs_f64_between[OF y assms(2)] by metis
  have "round_half_even (?x * 10 ^ 9) \<le> round_half_even (?y * 10 ^ 9)"
    using xy by (intro round_half_even_mono) simp
  then have "d \<le> d'" using d(1) d'(1) by (auto simp: from_secs_f64_def split: if_splits intro: nat_mono)
  with d d' show ?thesis by (auto simp: next_interval_def Let_def)
qed

theorem interval_bounded_witness:
  "\<exists>d d'. next_interval (1/5) recheck_default = Some d \<and> next_interval (9/10) recheck_default = Some d'
    \<and> rc_min_interval recheck_default \<le> d \<and> d \<le> d' \<and> d' \<le> rc_max_interval recheck_default"
  by (rule interval_bounded) (simp_all add: recheck_default_def as_secs_f64_def)

section \<open>Scheduled once\<close>

definition tracked :: "sched \<Rightarrow> sock_addr set" where
  "tracked s = snd ` set (sc_heap s) \<union> set_option (sc_current s)"

definition unit_rates :: "('k \<rightharpoonup> real) \<Rightarrow> bool" where
  "unit_rates m \<longleftrightarrow> (\<forall>a e. m a = Some e \<longrightarrow> 0 \<le> e \<and> e \<le> 1)"

lemma unit_rates_upd [intro]: "unit_rates m \<Longrightarrow> 0 \<le> e \<Longrightarrow> e \<le> 1 \<Longrightarrow> unit_rates (m(a \<mapsto> e))"
  by (auto simp: unit_rates_def)

lemma unit_rates_del [intro]: "unit_rates m \<Longrightarrow> unit_rates (m(a := None))"
  by (auto simp: unit_rates_def)

text \<open>Every address that has a score is either in the schedule, once, or being checked.\<close>

definition sched_inv :: "sched \<Rightarrow> bool" where
  "sched_inv s \<longleftrightarrow> distinct (map snd (sc_heap s)) \<and> set_option (sc_current s) \<inter> snd ` set (sc_heap s) = {}
     \<and> dom (sc_ewma s) = tracked s \<and> dom (sc_last_ok s) = tracked s \<and> sc_retrying s \<subseteq> tracked s \<and> unit_rates (sc_ewma s)"

lemma enroll_one_cases:
  assumes "enroll_one cfg now rnd a s = Some s'"
  obtains "a \<in> dom (sc_ewma s)" "s' = s"
  | j where "a \<notin> dom (sc_ewma s)" "s' = s\<lparr>sc_ewma := (sc_ewma s)(a \<mapsto> 1), sc_last_ok := (sc_last_ok s)(a \<mapsto> now),
      sc_heap := (now + j, a) # sc_heap s\<rparr>"
proof (cases "sc_ewma s a")
  case (Some e)
  with assms have "a \<in> dom (sc_ewma s)" "s' = s" by (simp_all add: enroll_one_def domI)
  then show thesis by (rule that(1))
next
  case None
  with assms obtain j where "s' = s\<lparr>sc_ewma := (sc_ewma s)(a \<mapsto> 1), sc_last_ok := (sc_last_ok s)(a \<mapsto> now),
      sc_heap := (now + j, a) # sc_heap s\<rparr>"
    by (cases "jitter (rnd a) (rc_min_interval cfg)") (simp add: enroll_one_def, simp add: enroll_one_def, blast)
  moreover have "a \<notin> dom (sc_ewma s)" using None by (simp add: domIff)
  ultimately show thesis using that(2) by blast
qed

lemma inv_enroll_one:
  assumes "sched_inv s" "enroll_one cfg now rnd a s = Some s'"
  shows "sched_inv s'"
  using assms(2)
proof (cases rule: enroll_one_cases)
  case 1
  with assms(1) show ?thesis by simp
next
  case (2 j)
  have "unit_rates ((sc_ewma s)(a \<mapsto> 1))" using assms(1) by (intro unit_rates_upd) (simp_all add: sched_inv_def)
  with assms(1) 2 show ?thesis by (auto simp: sched_inv_def tracked_def)
qed

lemma enroll_spec:
  "enroll cfg now rnd as s = Some s' \<Longrightarrow>
    (sched_inv s \<longrightarrow> sched_inv s') \<and> sc_pool s' = sc_pool s \<and> sc_next_start s' = sc_next_start s
    \<and> dom (sc_ewma s') = dom (sc_ewma s) \<union> set as \<and> sc_current s' = sc_current s"
proof (induction cfg now rnd as s rule: enroll.induct)
  case (2 cfg now rnd a as s)
  then obtain t where t: "enroll_one cfg now rnd a s = Some t" "enroll cfg now rnd as t = Some s'"
    by (auto split: option.splits)
  have "(sched_inv s \<longrightarrow> sched_inv t) \<and> sc_pool t = sc_pool s \<and> sc_next_start t = sc_next_start s
    \<and> dom (sc_ewma t) = insert a (dom (sc_ewma s)) \<and> sc_current t = sc_current s"
    using inv_enroll_one[OF _ t(1)] t(1) by (cases rule: enroll_one_cases[OF t(1)]) auto
  with 2(1)[OF t] show ?case by auto
qed simp

lemma snd_vec_remove:
  assumes "k < length xs" "distinct (map snd xs)"
  shows "snd ` set (vec_remove k xs) = snd ` set xs - {snd (xs ! k)}" "distinct (map snd (vec_remove k xs))"
proof -
  have x: "xs = take k xs @ xs ! k # drop (Suc k) xs" using assms(1) by (rule id_take_nth_drop)
  have "distinct (map snd (take k xs @ xs ! k # drop (Suc k) xs))" using assms(2) x by simp
  then have d: "distinct (map snd (vec_remove k xs))" "snd (xs ! k) \<notin> snd ` set (vec_remove k xs)"
    by (auto simp: vec_remove_def)
  show "distinct (map snd (vec_remove k xs))" by (rule d(1))
  have "snd ` set xs = insert (snd (xs ! k)) (snd ` set (vec_remove k xs))"
    by (subst x) (auto simp: vec_remove_def)
  with d(2) show "snd ` set (vec_remove k xs) = snd ` set xs - {snd (xs ! k)}" by blast
qed

lemma start_cases:
  assumes "start cfg now k s = Some s'"
  obtains gap where "start_gap cfg = Some gap" "sc_current s = None" "k < length (sc_heap s)"
    "snd (sc_heap s ! k) \<notin> sc_retrying s" "snd (sc_heap s ! k) \<notin> addrs (sc_pool s)"
    "s' = forget (snd (sc_heap s ! k)) (s\<lparr>sc_next_start := max (sc_next_start s) now + gap, sc_heap := vec_remove k (sc_heap s)\<rparr>)"
  | gap where "start_gap cfg = Some gap" "sc_current s = None" "k < length (sc_heap s)"
    "snd (sc_heap s ! k) \<in> sc_retrying s \<or> snd (sc_heap s ! k) \<in> addrs (sc_pool s)"
    "s' = s\<lparr>sc_next_start := max (sc_next_start s) now + gap, sc_heap := vec_remove k (sc_heap s), sc_current := Some (snd (sc_heap s ! k))\<rparr>"
proof -
  obtain gap where g: "start_gap cfg = Some gap" and c: "sc_current s = None" "k < length (sc_heap s)"
    using assms by (auto simp: start_def split: if_splits option.splits)
  show thesis
  proof (cases "snd (sc_heap s ! k) \<notin> sc_retrying s \<and> snd (sc_heap s ! k) \<notin> addrs (sc_pool s)")
    case True
    with assms g show thesis by (intro that(1)[OF g c]) (auto simp: start_def Let_def split: if_splits)
  next
    case False
    with assms g show thesis by (intro that(2)[OF g c]) (auto simp: start_def Let_def split: if_splits)
  qed
qed

lemma inv_start:
  assumes "sched_inv s" "start cfg now k s = Some s'"
  shows "sched_inv s'"
  using assms(2)
proof (cases rule: start_cases)
  case (1 gap)
  have d: "distinct (map snd (sc_heap s))" using assms(1) by (simp add: sched_inv_def)
  from assms(1) 1 snd_vec_remove[OF 1(3) d] show ?thesis
    by (auto simp: sched_inv_def tracked_def forget_def)
next
  case (2 gap)
  have d: "distinct (map snd (sc_heap s))" using assms(1) by (simp add: sched_inv_def)
  have "snd (sc_heap s ! k) \<in> snd ` set (sc_heap s)" using 2(3) by simp
  with assms(1) 2 snd_vec_remove[OF 2(3) d] show ?thesis
    by (auto simp: sched_inv_def tracked_def)
qed

lemma ewma_next_range: "0 \<le> e \<Longrightarrow> e \<le> 1 \<Longrightarrow> 0 \<le> ewma_next e w \<and> ewma_next e w \<le> 1"
  by (auto simp: ewma_next_def)

lemma finish_cases:
  assumes "finish env now rnd s = Some s'"
  obtains a w p i j where "sc_current s = Some a" "se_check env (sc_probes s) (proxy_new (fst a) (snd a) {}) = (w, p)"
    "s' = settle (se_cfg env) now (i + j) w p a (ewma_next (case sc_ewma s a of Some x \<Rightarrow> x | None \<Rightarrow> 1) w) s"
  using assms by (auto simp: finish_def Let_def split: option.splits prod.splits)

lemma inv_settle:
  assumes "sched_inv s" "sc_current s = Some a" "0 \<le> e" "e \<le> 1"
  shows "sched_inv (settle cfg now d w p a e s)"
  using assms by (auto simp: settle_def Let_def sched_inv_def tracked_def forget_def)

lemma inv_finish:
  assumes "sched_inv s" "finish env now rnd s = Some s'"
  shows "sched_inv s'"
  using assms(2)
proof (cases rule: finish_cases)
  case (1 a w p i j)
  have "0 \<le> (case sc_ewma s a of Some x \<Rightarrow> x | None \<Rightarrow> 1) \<and> (case sc_ewma s a of Some x \<Rightarrow> x | None \<Rightarrow> 1) \<le> 1"
    using assms(1) unfolding sched_inv_def unit_rates_def by (auto split: option.splits)
  with ewma_next_range inv_settle[OF assms(1) 1(1)] 1(3) show ?thesis by simp
qed

lemma sched_inv_run: "sched_run env as s = Some s' \<Longrightarrow> sched_inv s \<Longrightarrow> sched_inv s'"
proof (induction as arbitrary: s)
  case (Cons a as)
  then obtain t where t: "sched_exec env a s = Some t" "sched_run env as t = Some s'" by (auto split: option.splits)
  have "sched_inv t"
  proof (cases a)
    case (Enroll now xs rnd)
    with t(1) have "enroll (se_cfg env) now rnd xs s = Some t" by (simp split: if_splits)
    from enroll_spec[OF this] Cons.prems(2) show ?thesis by blast
  next
    case (Others f)
    with t(1) have "t = s\<lparr>sc_pool := f (sc_pool s)\<rparr>" by simp
    with Cons.prems(2) show ?thesis by (simp add: sched_inv_def tracked_def)
  next
    case (Start now k)
    with t(1) show ?thesis using inv_start[OF Cons.prems(2)] by simp
  next
    case (Finish now rnd)
    with t(1) show ?thesis using inv_finish[OF Cons.prems(2)] by simp
  qed
  with Cons.IH t(2) show ?case by blast
qed simp

lemma sched_inv_init: "sched_inv (sched_init now pl)"
  by (simp add: sched_inv_def sched_init_def tracked_def unit_rates_def)

text \<open>C15. Whatever the other tasks do to the pool, the re-checker schedules every address at most once, never
  schedules the one that it is checking, keeps a score and a last-seen time for exactly the scheduled
  and the checked addresses, and every score is between 0 and 1; after enrolling, every address of the
  pool is covered.\<close>

theorem scheduled_once:
  assumes "sched_run env as (sched_init now pl) = Some s"
  shows "distinct (map snd (sc_heap s)) \<and> set_option (sc_current s) \<inter> snd ` set (sc_heap s) = {}
    \<and> dom (sc_ewma s) = snd ` set (sc_heap s) \<union> set_option (sc_current s) \<and> dom (sc_last_ok s) = dom (sc_ewma s)
    \<and> unit_rates (sc_ewma s)
    \<and> (case sched_exec env (Enroll now' ks rnd) s of Some s' \<Rightarrow> addrs (sc_pool s') \<subseteq> dom (sc_ewma s') | None \<Rightarrow> True)"
proof -
  have "sched_inv s" using sched_inv_run[OF assms sched_inv_init] .
  moreover have "case sched_exec env (Enroll now' ks rnd) s of Some s' \<Rightarrow> addrs (sc_pool s') \<subseteq> dom (sc_ewma s') | None \<Rightarrow> True"
  proof (cases "sched_exec env (Enroll now' ks rnd) s")
    case (Some s')
    then have "set ks = addrs (sc_pool s)" "enroll (se_cfg env) now' rnd ks s = Some s'" by (simp_all split: if_splits)
    with enroll_spec[OF this(2)] Some show ?thesis by auto
  qed simp
  ultimately show ?thesis by (simp add: sched_inv_def tracked_def)
qed

section \<open>Rate\<close>

fun is_start :: "sched_act \<Rightarrow> bool" where
  "is_start (Start now k) = True"
| "is_start _ = False"

lemma exec_next_start:
  assumes "sched_exec env a s = Some t" "start_gap (se_cfg env) = Some gap"
  shows "sc_next_start s + (if is_start a then gap else 0) \<le> sc_next_start t"
proof (cases a)
  case (Enroll now xs rnd)
  with assms(1) have "enroll (se_cfg env) now rnd xs s = Some t" by (simp split: if_splits)
  from enroll_spec[OF this] Enroll show ?thesis by simp
next
  case (Start now k)
  with assms(1) have "start (se_cfg env) now k s = Some t" by simp
  then show ?thesis by (cases rule: start_cases) (use Start assms(2) in \<open>simp_all add: forget_def\<close>)
next
  case (Finish now rnd)
  with assms(1) have "finish env now rnd s = Some t" by simp
  then show ?thesis
    by (cases rule: finish_cases) (use Finish in \<open>simp add: settle_def Let_def forget_def\<close>)
next
  case (Others f)
  with assms(1) show ?thesis by auto
qed

lemma run_next_start:
  "sched_run env as s = Some t \<Longrightarrow> start_gap (se_cfg env) = Some gap \<Longrightarrow>
    sc_next_start s + gap * length (filter is_start as) \<le> sc_next_start t"
proof (induction as arbitrary: s)
  case (Cons a as)
  then obtain u where u: "sched_exec env a s = Some u" "sched_run env as u = Some t" by (auto split: option.splits)
  from Cons.IH[OF u(2) Cons.prems(2)] exec_next_start[OF u(1) Cons.prems(2)] show ?case by (auto split: if_splits)
qed simp

lemma start_gap_total: "\<exists>gap. start_gap cfg = Some gap"
proof -
  define m where "m = max (rc_rate_per_sec cfg) (1/1000)"
  have "1/1000 \<le> m" by (simp add: m_def)
  then have "0 \<le> 1 / m" "1 / m \<le> 1000" by (simp_all add: divide_le_eq)
  then show ?thesis by (simp add: start_gap_def from_secs_f64_def flip: m_def)
qed

text \<open>The rate ceiling: the token for the next re-check after \<open>n\<close> starts is not before the start of the
  loop plus \<open>n\<close> gaps, whatever the backlog; the gap is always defined.\<close>

theorem rate_ceiling:
  assumes "sched_run env as (sched_init t0 pl) = Some s"
  shows "\<exists>gap. start_gap (se_cfg env) = Some gap \<and> t0 + gap * length (filter is_start as) \<le> sc_next_start s"
proof -
  obtain gap where g: "start_gap (se_cfg env) = Some gap" using start_gap_total by blast
  with run_next_start[OF assms g] show ?thesis by (simp add: sched_init_def)
qed

section \<open>Eviction\<close>

lemma decayed_le: "decayed_score e lat age cfg \<le> clamp01 e"
proof -
  define d :: real where "d = (if 0 < as_secs_f64 (rc_decay_halflife cfg)
    then (1/2) powr (as_secs_f64 age / as_secs_f64 (rc_decay_halflife cfg)) else 1)"
  have d: "0 \<le> d" "d \<le> 1" by (simp_all add: d_def powr_le1)
  have "clamp01 e / (1 + max lat 0) \<le> clamp01 e / 1" by (intro divide_left_mono) auto
  moreover have "clamp01 e / (1 + max lat 0) * d \<le> clamp01 e / (1 + max lat 0)"
    using d by (intro mult_left_le) simp_all
  ultimately show ?thesis by (simp add: decayed_score_def Let_def flip: d_def)
qed

lemma retry_needs_score: "should_retry e lat age cfg \<Longrightarrow> 0 \<le> e \<Longrightarrow> 2/100 \<le> e"
  using decayed_le[of e lat age cfg] by (auto simp: should_retry_def evict_floor_def clamp01_def)


text \<open>A proxy that was removed from the pool is not resurrected: when its job comes up and it is not in
  the middle of retries, it is dropped without a check and nothing is added to the pool.\<close>

theorem removed_not_probed:
  assumes "start cfg now k s = Some s'" "snd (sc_heap s ! k) \<notin> sc_retrying s" "snd (sc_heap s ! k) \<notin> addrs (sc_pool s)"
  shows "sc_current s' = None \<and> sc_pool s' = sc_pool s \<and> sc_ewma s' (snd (sc_heap s ! k)) = None
    \<and> sc_stored s' = sc_stored s"
  using assms(1)
proof (cases rule: start_cases)
  case (1 gap)
  then show ?thesis by (simp add: forget_def)
qed (use assms in simp)

section \<open>A run\<close>

lemma round_half_even_numeral [simp]: "round_half_even (numeral n) = numeral n"
  using round_half_even_int[of "numeral n"] by simp

text \<open>One pooled proxy, a check that always fails, intervals of a second and of ten.\<close>

definition sched_addr :: sock_addr where
  "sched_addr = (V4 1 2 3 4, 80)"

definition sched_pool :: pool where
  "sched_pool = from_proxies [proxy_new (V4 1 2 3 4) 80 {}] pool_config_default"

definition sched_sample :: sched_env where
  "sched_sample = \<lparr>se_cfg = \<lparr>rc_min_interval = 1000000000, rc_max_interval = 10000000000, rc_rate_per_sec = 1,
      rc_decay_halflife = 0\<rparr>, se_check = (\<lambda>i p. (False, p))\<rparr>"

definition sched_acts :: "sched_act list" where
  "sched_acts = [Enroll 0 [sched_addr] (\<lambda>_. 0), Start 1000000000 0]"

definition sched_mid :: sched where
  "sched_mid = (sched_init 0 sched_pool)\<lparr>sc_ewma := [sched_addr \<mapsto> 1], sc_last_ok := [sched_addr \<mapsto> 0],
     sc_next_start := 2000000000, sc_current := Some sched_addr\<rparr>"

lemma sched_pool_addrs: "addrs sched_pool = {sched_addr}"
  by (simp add: addrs_def sched_pool_def from_proxies_def pool_config_default_def country_ok_def ready_entry_def
      sched_addr_def proxy_new_def)

lemma sched_sample_times: "jitter 0 1000000000 = Some 1000000000" "start_gap (se_cfg sched_sample) = Some 1000000000"
  by (simp_all add: jitter_def start_gap_def sched_sample_def from_secs_f64_def as_secs_f64_def)

lemma sched_sample_run: "sched_run sched_sample sched_acts (sched_init 0 sched_pool) = Some sched_mid"
  using sched_sample_times sched_pool_addrs
  by (simp add: sched_acts_def sched_init_def enroll_one_def start_def sched_sample_def vec_remove_def sched_mid_def)

theorem scheduled_once_witness:
  "distinct (map snd (sc_heap sched_mid)) \<and> dom (sc_ewma sched_mid) = {sched_addr}"
  using scheduled_once[OF sched_sample_run] by (simp add: sched_mid_def)

theorem rate_ceiling_witness:
  "\<exists>gap. start_gap (se_cfg sched_sample) = Some gap \<and> 0 + gap * 1 \<le> sc_next_start sched_mid"
  using rate_ceiling[OF sched_sample_run] by (simp add: sched_acts_def)

lemma sched_sample_finish: "\<exists>s. finish sched_sample 1500000000 0 sched_mid = Some s"
proof -
  have "next_interval (7/10) (se_cfg sched_sample) = Some 7300000000"
    by (simp add: next_interval_def sched_sample_def clamp01_def as_secs_f64_def from_secs_f64_def)
  then show ?thesis
    using sched_sample_times by (simp add: finish_def sched_mid_def sched_init_def sched_sample_def ewma_next_def)
qed


text \<open>A proxy that a client has leased when its job comes up is taken for a removed one: its score and its
  last-seen time are dropped, and when it is returned it is enrolled again as a healthy one.\<close>

theorem leased_forgotten:
  assumes "start (se_cfg env) now k s = Some s1" "a = snd (sc_heap s ! k)" "a \<notin> sc_retrying s"
    "a \<notin> addrs (sc_pool s)" "sched_run env [Others f, Enroll now' [a] rnd] s1 = Some s2"
  shows "sc_ewma s2 a = Some 1 \<and> sc_last_ok s2 a = Some now'"
proof -
  have "sc_ewma s1 a = None"
    using assms(1) by (cases rule: start_cases) (use assms(2-4) in \<open>auto simp: forget_def\<close>)
  moreover obtain t where "enroll_one (se_cfg env) now' rnd a (s1\<lparr>sc_pool := f (sc_pool s1)\<rparr>) = Some t" "s2 = t"
    using assms(5) by (auto split: if_splits option.splits)
  ultimately show ?thesis by (auto simp: enroll_one_def split: option.splits)
qed

definition leased_state :: sched where
  "leased_state = (sched_init 0 (sched_pool\<lparr>entries := []\<rparr>))\<lparr>sc_heap := [(0, sched_addr)],
     sc_ewma := [sched_addr \<mapsto> 1/10], sc_last_ok := [sched_addr \<mapsto> 0]\<rparr>"

theorem leased_forgotten_witness:
  "\<exists>s1 s2. start (se_cfg sched_sample) 5 0 leased_state = Some s1
     \<and> sched_run sched_sample [Others (\<lambda>_. sched_pool), Enroll 9 [sched_addr] (\<lambda>_. 0)] s1 = Some s2
     \<and> sc_ewma leased_state sched_addr = Some (1/10) \<and> sc_ewma s2 sched_addr = Some 1"
proof -
  obtain s1 where s1: "start (se_cfg sched_sample) 5 0 leased_state = Some s1" "sc_ewma s1 sched_addr = None" "sc_current s1 = None"
    using sched_sample_times by (simp add: start_def leased_state_def sched_init_def addrs_def forget_def)
  then obtain s2 where s2: "sched_run sched_sample [Others (\<lambda>_. sched_pool), Enroll 9 [sched_addr] (\<lambda>_. 0)] s1 = Some s2"
    using sched_sample_times sched_pool_addrs by (simp add: enroll_one_def sched_sample_def)
  have "sc_ewma s2 sched_addr = Some 1"
    using leased_forgotten[OF s1(1) _ _ _ s2] by (simp add: leased_state_def sched_init_def addrs_def)
  with s1 s2 show ?thesis by (simp add: leased_state_def)
qed

theorem removed_not_probed_witness:
  "\<exists>s1. start (se_cfg sched_sample) 5 0 leased_state = Some s1 \<and> sc_current s1 = None \<and> sc_stored s1 = []"
proof -
  obtain s1 where s1: "start (se_cfg sched_sample) 5 0 leased_state = Some s1"
    using sched_sample_times by (simp add: start_def leased_state_def sched_init_def addrs_def)
  from removed_not_probed[OF s1] s1 show ?thesis by (simp add: leased_state_def sched_init_def addrs_def)
qed

end
