(* ===== verification/Cli.thy ===== *)
theory Cli
  imports Broker Output Persist Lookup Scheduler
begin

text \<open>
  The commands of \<^verbatim>\<open>src/src/bin/proxybroker.rs\<close>: how the flags become queries, pool and re-check
  configurations, which providers and which store are used, and how \<open>serve\<close> fills its pool. The parsed
  flags are records (the parsing itself is \<open>clap\<close>'s); files are a map from paths to their texts.
\<close>

section \<open>Flags\<close>

definition secs :: "nat \<Rightarrow> duration" where
  "secs n = n * 1000000000"

definition millis :: "nat \<Rightarrow> duration" where
  "millis n = n * 1000000"

text \<open>\<open>parse_positive_usize\<close>: the error text of a number that does not parse is the standard library's.\<close>

definition parse_positive_usize :: "(string \<Rightarrow> string) \<Rightarrow> string \<Rightarrow> string + nat" where
  "parse_positive_usize why s =
     (case parse_uint (2 ^ 64 - 1) s of
        None \<Rightarrow> Inl (''invalid positive integer: '' @ why s)
      | Some n \<Rightarrow> if n = 0 then Inl ''value must be at least 1'' else Inr n)"

datatype select_strategy = SelBest | SelRoundRobin | SelRandom | SelSticky

fun to_server :: "select_strategy \<Rightarrow> strategy" where
  "to_server SelBest = Best"
| "to_server SelRoundRobin = RoundRobin"
| "to_server SelRandom = Random"
| "to_server SelSticky = Sticky"

datatype retry_on = OnTimeout | OnTransient | OnAll

definition retry_policy_of :: "nat \<Rightarrow> retry_on \<Rightarrow> nat \<Rightarrow> retry_policy" where
  "retry_policy_of tries on backoff_ms =
     (case on of
        OnTimeout \<Rightarrow> retry_tries tries
      | OnTransient \<Rightarrow> retry_transient tries
      | OnAll \<Rightarrow> retry_default\<lparr>rp_max_tries := tries, rp_retry_on := {Timeout, Reset, ConnFailed, EmptyRecv, BadStatus}\<rparr>)
     \<lparr>rp_backoff := millis backoff_ms\<rparr>"

definition types_from :: "proto list \<Rightarrow> anon_level list \<Rightarrow> type_spec list" where
  "types_from protos lvl =
     (let levels = (if lvl = [] then None else Some lvl) in map (\<lambda>pr. \<lparr>ts_proto = pr, ts_levels = levels\<rparr>) protos)"

definition some_unless_empty :: "'a list \<Rightarrow> 'a list option" where
  "some_unless_empty xs = (if xs = [] then None else Some xs)"

datatype stats_format = StText | StJson

record grab_args =
  ga_limit :: nat
  ga_countries :: "string list"
  ga_format :: out_format
  ga_output_format :: "string option"
  ga_outfile :: "string option"

record find_args =
  fa_types :: "proto list"
  fa_lvl :: "anon_level list"
  fa_limit :: nat
  fa_countries :: "string list"
  fa_judges :: "string list"
  fa_dnsbl :: "string list"
  fa_timeout :: nat
  fa_max_conn :: nat
  fa_max_tries :: nat
  fa_post :: bool
  fa_strict :: bool
  fa_liveness_url :: "string option"
  fa_retry_on :: retry_on
  fa_backoff_ms :: nat
  fa_relaxed_validity :: bool
  fa_require_cookie :: bool
  fa_require_referer :: bool
  fa_require_connect25 :: bool
  fa_trust_check :: bool
  fa_require_trusted :: bool
  fa_show_stats :: bool
  fa_stats_format :: stats_format
  fa_format :: out_format
  fa_output_format :: "string option"
  fa_outfile :: "string option"
  fa_save :: "string option"
  fa_progress :: bool
  fa_state :: "string option"

record check_args =
  ca_types :: "proto list"
  ca_infile :: "string option"
  ca_load :: "string option"
  ca_lvl :: "anon_level list"
  ca_limit :: nat
  ca_countries :: "string list"
  ca_judges :: "string list"
  ca_dnsbl :: "string list"
  ca_timeout :: nat
  ca_max_conn :: nat
  ca_max_tries :: nat
  ca_post :: bool
  ca_strict :: bool
  ca_show_stats :: bool
  ca_stats_format :: stats_format
  ca_format :: out_format
  ca_output_format :: "string option"
  ca_outfile :: "string option"
  ca_save :: "string option"

record serve_args =
  sa_host :: string
  sa_types :: "proto list"
  sa_load :: "string option"
  sa_lvl :: "anon_level list"
  sa_dnsbl :: "string list"
  sa_post :: bool
  sa_strict :: bool
  sa_strategy :: select_strategy
  sa_sticky_header :: "string option"
  sa_limit :: nat
  sa_countries :: "string list"
  sa_timeout :: nat
  sa_fill_max_conn :: "nat option"
  sa_fill_max_tries :: "nat option"
  sa_max_error_rate :: real
  sa_max_resp_time :: real
  sa_fail_timeout :: nat
  sa_prefer_connect :: bool
  sa_http_allowed_codes :: "nat list"
  sa_min_queue :: nat
  sa_backlog :: nat
  sa_auth :: "string option"
  sa_max_tries :: nat
  sa_metrics :: "sock_addr option"
  sa_state :: "string option"
  sa_recheck :: bool
  sa_recheck_rate :: real
  sa_recheck_min :: nat
  sa_recheck_max :: nat
  sa_decay_halflife :: nat
  sa_watch :: bool

record fill_args =
  la_types :: "proto list"
  la_limit :: nat
  la_countries :: "string list"
  la_timeout :: nat
  la_refresh :: nat
  la_state :: "string option"

section \<open>Queries and configurations\<close>

definition grab_cmd_query :: "grab_args \<Rightarrow> grab_query" where
  "grab_cmd_query a = \<lparr>gq_countries = some_unless_empty (ga_countries a),
     gq_limit = (if 0 < ga_limit a then Some (ga_limit a) else None)\<rparr>"

definition with_countries :: "string list \<Rightarrow> find_query_builder \<Rightarrow> find_query_builder" where
  "with_countries cs b = (if cs = [] then b else set_countries cs b)"

definition find_cmd_query :: "find_args \<Rightarrow> find_query" where
  "find_cmd_query a =
     (let b = builder_default;
          b = set_types (types_from (fa_types a) (fa_lvl a)) b;
          b = set_limit (fa_limit a) b;
          b = set_judges (fa_judges a) b;
          b = set_dnsbl (fa_dnsbl a) b;
          b = set_timeout (secs (fa_timeout a)) b;
          b = set_max_conn (fa_max_conn a) b;
          b = set_retry (retry_policy_of (fa_max_tries a) (fa_retry_on a) (fa_backoff_ms a)) b;
          b = set_post (fa_post a) b;
          b = set_strict (fa_strict a) b;
          b = set_liveness_url (fa_liveness_url a) b;
          b = with_countries (fa_countries a) b
      in (build b)\<lparr>fq_relaxed_validity := fa_relaxed_validity a, fq_require_cookie := fa_require_cookie a,
           fq_require_referer := fa_require_referer a, fq_require_connect25 := fa_require_connect25 a,
           fq_trust_check := fa_trust_check a, fq_require_trusted := fa_require_trusted a\<rparr>)"

definition check_cmd_query :: "check_args \<Rightarrow> find_query" where
  "check_cmd_query a =
     \<lparr>fq_types = types_from (ca_types a) (ca_lvl a), fq_countries = some_unless_empty (ca_countries a),
      fq_limit = (if 0 < ca_limit a then Some (ca_limit a) else None), fq_judges = ca_judges a, fq_dnsbl = ca_dnsbl a,
      fq_timeout = secs (ca_timeout a), fq_max_conn = ca_max_conn a, fq_retry = retry_tries (ca_max_tries a),
      fq_post = ca_post a, fq_strict = ca_strict a, fq_liveness_url = None, fq_relaxed_validity = False,
      fq_require_cookie = False, fq_require_referer = False, fq_require_connect25 = False, fq_trust_check = False,
      fq_require_trusted = False\<rparr>"

definition serve_query :: "serve_args \<Rightarrow> find_query" where
  "serve_query a =
     (let b = builder_default;
          b = set_types (types_from (sa_types a) (sa_lvl a)) b;
          b = set_limit (max (sa_limit a) 1) b;
          b = set_dnsbl (sa_dnsbl a) b;
          b = set_timeout (secs (sa_timeout a)) b;
          b = set_post (sa_post a) b;
          b = set_strict (sa_strict a) b
      in build (with_countries (sa_countries a) b))"

definition serve_fill_query :: "serve_args \<Rightarrow> find_query" where
  "serve_fill_query a =
     (let q = serve_query a;
          q = (case sa_fill_max_conn a of Some n \<Rightarrow> q\<lparr>fq_max_conn := n\<rparr> | None \<Rightarrow> q)
      in case sa_fill_max_tries a of Some n \<Rightarrow> q\<lparr>fq_retry := (fq_retry q)\<lparr>rp_max_tries := n\<rparr>\<rparr> | None \<Rightarrow> q)"

text \<open>The query of \<open>mcp\<close> and of \<open>top\<close> (which have the same flags, but for the last two, which only \<open>top\<close> has).\<close>

definition fill_query :: "fill_args \<Rightarrow> find_query" where
  "fill_query a =
     (let b = builder_default;
          b = set_types (types_from (la_types a) []) b;
          b = set_limit (max (la_limit a) 1) b;
          b = set_timeout (secs (la_timeout a)) b
      in build (with_countries (la_countries a) b))"

definition allow_list :: "string list \<Rightarrow> string set option" where
  "allow_list cs = (if cs = [] then None else Some (set (map uppercase cs)))"

definition pool_config_of :: "serve_args \<Rightarrow> pool_config" where
  "pool_config_of a =
     pool_config_default\<lparr>max_tries := sa_max_tries a, max_error_rate := sa_max_error_rate a, max_resp_time := sa_max_resp_time a,
       countries := allow_list (sa_countries a), strategy_of := to_server (sa_strategy a), sticky_header := sa_sticky_header a,
       fail_timeout := secs (sa_fail_timeout a), prefer_connect := sa_prefer_connect a,
       http_allowed_codes := some_unless_empty (sa_http_allowed_codes a)\<rparr>"

definition recheck_config_of :: "serve_args \<Rightarrow> recheck_config" where
  "recheck_config_of a = \<lparr>rc_min_interval = secs (sa_recheck_min a), rc_max_interval = secs (sa_recheck_max a),
     rc_rate_per_sec = sa_recheck_rate a, rc_decay_halflife = secs (sa_decay_halflife a)\<rparr>"

section \<open>Providers, stores, the pool\<close>

text \<open>\<open>None\<close> leaves the builder with its own default.\<close>

definition choose_providers :: "provider_spec list \<Rightarrow> provider_spec list list \<Rightarrow> bool \<Rightarrow> string + provider_spec list option" where
  "choose_providers bundled dirs providers_only =
     (if dirs = [] \<and> \<not> providers_only then Inr None
      else let ps = (if providers_only then [] else bundled) @ concat dirs
        in if ps = [] then Inl ''no providers: --providers-only with no valid --provider-dir configs'' else Inr (Some ps))"

record features =
  ft_sqlite :: bool
  ft_redis :: bool

datatype store_choice = UseRedis string | UseSqlite string | UseMemory

definition select_store :: "features \<Rightarrow> string \<Rightarrow> string + store_choice" where
  "select_store ft spec =
     (if starts_with ''redis://'' spec \<or> starts_with ''rediss://'' spec then
        if ft_redis ft then Inr (UseRedis spec)
        else Inl (''--state '' @ spec @ '': a redis:// URL needs --features store-redis'')
      else if ft_sqlite ft then Inr (UseSqlite spec)
      else Inl (''--state '' @ spec @ '': a file path needs --features store-sqlite''))"

definition recheck_store :: "features \<Rightarrow> string option \<Rightarrow> string + store_choice" where
  "recheck_store ft state =
     (case state of
        Some spec \<Rightarrow> if ft_sqlite ft \<or> ft_redis ft then select_store ft spec else Inr UseMemory
      | None \<Rightarrow> Inr UseMemory)"

text \<open>\<open>open_state\<close>: the store whose history is loaded and that every finished check is folded into, or none.\<close>

definition open_state :: "features \<Rightarrow> string option \<Rightarrow> string + store_choice option" where
  "open_state ft spec =
     (if ft_sqlite ft \<or> ft_redis ft then
        (case spec of Some s \<Rightarrow> (case select_store ft s of Inl e \<Rightarrow> Inl e | Inr c \<Rightarrow> Inr (Some c)) | None \<Rightarrow> Inr None)
      else Inr None)"

definition union_dedup :: "proxy list \<Rightarrow> proxy list \<Rightarrow> proxy list" where
  "union_dedup primary secondary =
     (let seen = set (map p_addr primary) in primary @ filter (\<lambda>p. p_addr p \<notin> seen) secondary)"

text \<open>The pool of \<open>serve\<close>: from the file of \<open>--load\<close>, or spawned over the history and the proxies found
  (here after the whole stream has been imported). \<open>None\<close> is a file that cannot be read or parsed.\<close>

definition serve_pool :: "(string \<Rightarrow> json option) \<Rightarrow> (string \<Rightarrow> string option) \<Rightarrow> serve_args \<Rightarrow> proxy list \<Rightarrow> proxy list \<Rightarrow> pool option" where
  "serve_pool from_str files a history found =
     (case sa_load a of
        Some path \<Rightarrow>
          (case files path of None \<Rightarrow> None
           | Some text \<Rightarrow>
              (case read_ndjson from_str text of None \<Rightarrow> None
               | Some loaded \<Rightarrow> Some (from_proxies (union_dedup history loaded) (pool_config_of a))))
      | None \<Rightarrow> Some (import_end (foldl (\<lambda>pl p. import_one p pl) (spawned (pool_config_of a)) (history @ found))))"

section \<open>Properties\<close>

lemmas builder_sets = set_types_def set_countries_def set_limit_def set_judges_def set_dnsbl_def set_timeout_def
  set_max_conn_def set_max_tries_def set_retry_def set_post_def set_strict_def set_liveness_url_def with_countries_def
  builder_default_def build_def find_query_default_def unwrap_or_def option_or_def Let_def

text \<open>The query that \<open>check\<close> writes out field by field is the query that \<open>find\<close> assembles through the
  builder for the same flags, with the flags that only \<open>find\<close> has at their defaults.\<close>

theorem check_query_is_find:
  "check_cmd_query a = find_cmd_query \<lparr>fa_types = ca_types a, fa_lvl = ca_lvl a, fa_limit = ca_limit a,
     fa_countries = ca_countries a, fa_judges = ca_judges a, fa_dnsbl = ca_dnsbl a, fa_timeout = ca_timeout a,
     fa_max_conn = ca_max_conn a, fa_max_tries = ca_max_tries a, fa_post = ca_post a, fa_strict = ca_strict a,
     fa_liveness_url = None, fa_retry_on = OnTimeout, fa_backoff_ms = 0, fa_relaxed_validity = False,
     fa_require_cookie = False, fa_require_referer = False, fa_require_connect25 = False, fa_trust_check = False,
     fa_require_trusted = False, fa_show_stats = ca_show_stats a, fa_stats_format = ca_stats_format a, fa_format = ca_format a,
     fa_output_format = ca_output_format a, fa_outfile = ca_outfile a, fa_save = ca_save a, fa_progress = False, fa_state = None\<rparr>"
  by (simp add: check_cmd_query_def find_cmd_query_def builder_sets some_unless_empty_def retry_policy_of_def retry_tries_def
      retry_default_def millis_def)

text \<open>The query that fills the pool of \<open>serve\<close> always has a positive limit, so that filling ends; the two
  fill flags change nothing but the number of connections and of tries, and re-checking uses the query
  without them.\<close>

theorem serve_query_spec:
  "let q = serve_query a; f = serve_fill_query a
   in (\<exists>n > 0. fq_limit q = Some n) \<and> fq_max_conn q = 200 \<and> fq_retry q = retry_default
    \<and> fq_max_conn f = (case sa_fill_max_conn a of Some n \<Rightarrow> n | None \<Rightarrow> 200)
    \<and> fq_retry f = retry_tries (case sa_fill_max_tries a of Some n \<Rightarrow> n | None \<Rightarrow> 3)
    \<and> f\<lparr>fq_max_conn := 200, fq_retry := retry_default\<rparr> = q"
proof -
  have s: "fq_limit (serve_query a) = Some (max (sa_limit a) 1)" "fq_max_conn (serve_query a) = 200"
    "fq_retry (serve_query a) = retry_default"
    by (simp_all add: serve_query_def builder_sets)
  then have "serve_query a = (serve_query a)\<lparr>fq_max_conn := 200, fq_retry := retry_default\<rparr>" by simp
  then show ?thesis
    using s by (auto simp: Let_def serve_fill_query_def retry_tries_def retry_default_def split: option.split)
qed

lemma pool_spawned:
  "pool_proxies (foldl (\<lambda>pl p. import_one p pl) pl ps) = pool_proxies pl @ filter (\<lambda>p. country_ok p (countries (config pl))) ps"
proof (induction ps arbitrary: pl)
  case (Cons p ps)
  have "config (import_one p pl) = config pl" by (simp add: import_one_def)
  with Cons show ?case by (simp add: import_one_def pool_proxies_def ready_entry_def)
qed simp

text \<open>A pool that \<open>find\<close> saved (in whatever output format) is what \<open>serve --load\<close> serves: the loaded pool
  holds, in order, the saved proxies of the allowed countries with their address, location and confirmed
  types, except that a proxy the store remembers is served with its history instead; nothing is looked
  for any more.\<close>

theorem saved_pool_served:
  assumes "\<forall>p \<in> set ps. json_text_ok to_string from_str (serialize p)" "sa_load a = Some path"
    "files path = sk_saved (write_stream to_string fmt tmpl True ps)"
  shows "\<exists>pl. serve_pool from_str files a history found = Some pl \<and> exhausted pl
    \<and> pool_proxies pl = filter (\<lambda>p. country_ok p (allow_list (sa_countries a)))
        (history @ filter (\<lambda>p. p_addr p \<notin> p_addr ` set history) (map kept ps))
    \<and> list_all (\<lambda>e. blocked_until e = None) (entries pl)"
proof -
  have "sk_saved (write_stream to_string fmt tmpl True ps) = Some (write_ndjson to_string ps)"
    using drain_saved[of to_string ps "emitter_new fmt tmpl"] by (simp add: write_stream_def Let_def split_def)
  with assms ndjson_back[OF assms(1)] show ?thesis
    by (auto simp: serve_pool_def from_proxies_def union_dedup_def Let_def pool_proxies_def ready_entry_def comp_def
        pool_config_of_def list_all_iff)
qed

definition sample_serve :: serve_args where
  "sample_serve = \<lparr>sa_host = ''127.0.0.1:8888'', sa_types = [], sa_load = Some ''pool.ndjson'', sa_lvl = [], sa_dnsbl = [], sa_post = False, sa_strict = False,
     sa_strategy = SelBest, sa_sticky_header = None, sa_limit = 100, sa_countries = [''de''], sa_timeout = 8,
     sa_fill_max_conn = None, sa_fill_max_tries = None, sa_max_error_rate = 1/2, sa_max_resp_time = 8, sa_fail_timeout = 30,
     sa_prefer_connect = False, sa_http_allowed_codes = [], sa_min_queue = 0, sa_backlog = 1024, sa_auth = None,
     sa_max_tries = 3, sa_metrics = None, sa_state = None, sa_recheck = False, sa_recheck_rate = 5, sa_recheck_min = 60,
     sa_recheck_max = 3600, sa_decay_halflife = 21600, sa_watch = False\<rparr>"

theorem saved_pool_served_witness:
  "\<exists>pl. serve_pool (\<lambda>s. if s = ''{}'' then Some (serialize sample_saved) else None)
        (\<lambda>path. sk_saved (write_stream (\<lambda>_. ''{}'') FUrl None True [sample_saved])) sample_serve [] [] = Some pl \<and> exhausted pl
    \<and> pool_proxies pl = filter (\<lambda>p. country_ok p (allow_list (sa_countries sample_serve)))
        ([] @ filter (\<lambda>p. p_addr p \<notin> p_addr ` set []) (map kept [sample_saved]))
    \<and> list_all (\<lambda>e. blocked_until e = None) (entries pl)"
  by (rule saved_pool_served[where path = "''pool.ndjson''"])
    (simp_all add: sample_serve_def json_text_ok_def trim_def trim_start_def trim_end_def is_ws_def LF_def CR_def)

text \<open>The union takes duplicates only across the two lists out, not within one.\<close>

lemma union_dedup_keeps_duplicates: "union_dedup [] [p, p] = [p, p]"
  by (simp add: union_dedup_def)

lemma union_dedup_spec:
  "p_addr ` set (union_dedup ps qs) = p_addr ` set ps \<union> p_addr ` set qs"
  "q \<in> set (union_dedup ps qs) \<Longrightarrow> p_addr q \<in> p_addr ` set ps \<Longrightarrow> q \<in> set ps"
  by (auto simp: union_dedup_def Let_def)

text \<open>The re-checker and the observer use the same store when a state is given and the build has one.\<close>

lemma same_store:
  "open_state ft (Some s) = Inr (Some c) \<Longrightarrow> recheck_store ft (Some s) = Inr c"
  by (auto simp: open_state_def recheck_store_def split: if_splits sum.splits)

end
