(* ===== verification/Serving.thy ===== *)
theory Serving
  imports Server
begin

text \<open>
  The running server of \<^verbatim>\<open>src/src/server.rs\<close>: \<open>serve\<close> with its start-up gate and accept loop, the
  importer of \<open>Pool::spawn\<close>, and every client connection as a task of its own, all over one pool.

  \<open>Server\<close> models the handler of one client as a function. Here the same handler is cut at every point at
  which another task may run: at each lock, atomic, notification and await. A step of a task is a
  function of the task and of what it shares with the others; the interleaving is the list of actions.
  Instants come with the actions. \<open>notify_waiters\<close> is the counter \<open>sh_epoch\<close>: a waker remembers the value at
  its creation and is woken by every later notification, as \<^verbatim>\<open>tokio::sync::Notify\<close> documents for a
  \<open>notified()\<close> future that exists when \<open>notify_waiters\<close> is called, polled or not.
\<close>

section \<open>A call of get\<close>

text \<open>The first number is the count of failed probes, the second of a look, a test of the flag and a
  suspension is the waker.\<close>

datatype get_pc = GWaker nat | GLook nat nat | GProbe nat proxy | GBenched nat | GFlag nat nat | GLast | GSleep nat nat

datatype get_next = GoOn get_pc | Answer "proxy option"

definition probe_failed :: "nat \<Rightarrow> get_next" where
  "probe_failed n = (if verify_max_attempts \<le> n + 1 then Answer None else GoOn (GWaker (n + 1)))"

text \<open>The next step of the call: how it goes on, the pool and the notification counter. \<open>None\<close> while it is
  suspended.\<close>

fun get_step :: "(nat \<Rightarrow> proxy \<Rightarrow> bool) \<Rightarrow> scheme \<Rightarrow> client_key \<Rightarrow> instant \<Rightarrow> get_pc \<Rightarrow> pool \<Rightarrow> nat
    \<Rightarrow> (get_next \<times> pool \<times> nat) option" where
  "get_step live sc key now (GWaker n) pl ep = Some (GoOn (GLook n ep), pl, ep)"
| "get_step live sc key now (GLook n e) pl ep =
     (case try_select now sc key pl of
        (Some p, pl1) \<Rightarrow> Some (if verify_on_lease (config pl1) = None then Answer (Some p) else GoOn (GProbe n p), pl1, ep)
      | (None, pl1) \<Rightarrow> Some (GoOn (GFlag n e), pl1, ep))"
| "get_step live sc key now (GProbe n p) pl ep =
     Some (if live n p then (Answer (Some p), pl, ep)
       else (if unhealthy (config pl) p then probe_failed n else GoOn (GBenched n), put_failed now p pl, ep))"
| "get_step live sc key now (GBenched n) pl ep = Some (probe_failed n, pl, ep + 1)"
| "get_step live sc key now (GFlag n e) pl ep = Some (GoOn (if exhausted pl then GLast else GSleep n e), pl, ep)"
| "get_step live sc key now GLast pl ep = (case try_select now sc key pl of (r, pl1) \<Rightarrow> Some (Answer r, pl1, ep))"
| "get_step live sc key now (GSleep n e) pl ep = (if e < ep then Some (GoOn (GWaker n), pl, ep) else None)"

section \<open>A client connection\<close>

record call =
  cl_req :: client_request
  cl_rest :: input
  cl_target :: target
  cl_key :: client_key
  cl_sent :: string

text \<open>\<open>Getting\<close>, \<open>Drawn\<close> and \<open>Relaying\<close> carry the number of the attempt and how many are left after it.
  \<open>Returning\<close> carries whether the attempt failed, the proxy as it was leased and as it is returned, and
  where the task goes on; \<open>Notifying\<close> is a push whose notification is still to come.\<close>

datatype task_pc = New
  | Getting call nat nat get_pc
  | Drawn call nat nat proxy
  | Relaying call nat nat proxy
  | Returning bool proxy proxy task_pc
  | Notifying task_pc
  | Done string

record client_task =
  tk_peer :: ip_addr
  tk_in :: input
  tk_ow :: outside
  tk_pc :: task_pc

record shared =
  sh_pool :: pool
  sh_history :: history
  sh_epoch :: nat

definition give_up :: "call \<Rightarrow> task_pc" where
  "give_up c = Done (cl_sent c @ terminal_failure (rq_frontend (cl_req c)))"

definition next_attempt :: "call \<Rightarrow> nat \<Rightarrow> nat \<Rightarrow> task_pc" where
  "next_attempt c a r = (case r of 0 \<Rightarrow> give_up c | Suc r' \<Rightarrow> Getting c a r' (GWaker 0))"

definition call_of :: "outside \<Rightarrow> ip_addr \<Rightarrow> pool_config \<Rightarrow> client_request \<Rightarrow> input \<Rightarrow> string \<Rightarrow> call" where
  "call_of ow peer cfg rq ci w = \<lparr>cl_req = rq, cl_rest = ci,
     cl_target = \<lparr>t_host = rq_host rq, t_ip = o_resolve ow (rq_host rq), t_port = rq_port rq\<rparr>,
     cl_key = client_key_of cfg peer rq, cl_sent = w\<rparr>"

text \<open>From the first byte to the first attempt: parsing, the authentication gate, the control interface.\<close>

definition open_call :: "auth_expect option \<Rightarrow> client_task \<Rightarrow> shared \<Rightarrow> task_pc \<times> shared" where
  "open_call want t s =
     (case parse_client_request (o_cw (tk_ow t)) want (tk_in t) of
        (None, w) \<Rightarrow> (Done w, s)
      | (Some (rq, ci), w) \<Rightarrow>
         if \<not> auth_ok want rq then (Done (w @ auth_required), s)
         else if rq_host rq = ''proxycontrol'' then
           (case serve_control rq (tk_peer t) (sh_history s) (sh_pool s) of
              (out, pl) \<Rightarrow> (Done (w @ out), s\<lparr>sh_pool := pl\<rparr>))
         else (next_attempt (call_of (tk_ow t) (tk_peer t) (config (sh_pool s)) rq ci w) 0 (max_tries (config (sh_pool s))), s))"

definition relay_of :: "outside \<Rightarrow> call \<Rightarrow> nat \<Rightarrow> pool_config \<Rightarrow> proxy \<Rightarrow> relay_res" where
  "relay_of ow c a cfg p =
     relay (o_conn ow a p) p (choose_proto p (rq_scheme (cl_req c))) (cl_target c) (cl_req c) (cl_rest c) (http_allowed_codes cfg)"

text \<open>The end of a relay, up to the return of the proxy.\<close>

definition after_relay :: "client_task \<Rightarrow> call \<Rightarrow> nat \<Rightarrow> nat \<Rightarrow> proxy \<Rightarrow> relay_res \<Rightarrow> shared \<Rightarrow> task_pc \<times> shared" where
  "after_relay t c a r p rl s =
     (let ok = record_attempt (Some 0) None p; bad = (\<lambda>e. record_attempt None (Some e) p); answer = Done (cl_sent c @ ro_client rl)
      in case ro_outcome rl of
           RelayOk \<Rightarrow> (Returning False p ok answer,
             s\<lparr>sh_history := history_record (history_key (tk_peer t) (rq_path (cl_req c))) (proxy_label p) (sh_history s)\<rparr>)
         | RetryableFailure e \<Rightarrow> (Returning True p (bad e) (next_attempt c (a + 1) r), s)
         | ClientCommitted e \<Rightarrow> (Returning True p (bad e) answer, s)
         | ClientGone \<Rightarrow> (Returning False p ok answer, s))"

definition put_back :: "bool \<Rightarrow> instant \<Rightarrow> proxy \<Rightarrow> pool \<Rightarrow> pool" where
  "put_back failed now q pl = (if failed then put_failed now q pl else put_ok q pl)"

fun pc_step :: "auth_expect option \<Rightarrow> instant \<Rightarrow> client_task \<Rightarrow> task_pc \<Rightarrow> shared \<Rightarrow> (task_pc \<times> shared) option" where
  "pc_step want now t New s = Some (open_call want t s)"
| "pc_step want now t (Getting c a r g) s =
     (case get_step (\<lambda>n p. verify_live (config (sh_pool s)) (o_probe (tk_ow t) a n p) p) (rq_scheme (cl_req c)) (cl_key c) now g
             (sh_pool s) (sh_epoch s) of
        None \<Rightarrow> None
      | Some (GoOn g', pl, ep) \<Rightarrow> Some (Getting c a r g', s\<lparr>sh_pool := pl, sh_epoch := ep\<rparr>)
      | Some (Answer None, pl, ep) \<Rightarrow> Some (give_up c, s\<lparr>sh_pool := pl, sh_epoch := ep\<rparr>)
      | Some (Answer (Some p), pl, ep) \<Rightarrow> Some (Drawn c a r p, s\<lparr>sh_pool := pl, sh_epoch := ep\<rparr>))"
| "pc_step want now t (Drawn c a r p) s =
     Some (Relaying c a r p, if 0 < a then s\<lparr>sh_pool := (sh_pool s)\<lparr>rotations := rotations (sh_pool s) + 1\<rparr>\<rparr> else s)"
| "pc_step want now t (Relaying c a r p) s = Some (after_relay t c a r p (relay_of (tk_ow t) c a (config (sh_pool s)) p) s)"
| "pc_step want now t (Returning failed p q k) s =
     Some (if unhealthy (config (sh_pool s)) q then k else Notifying k, s\<lparr>sh_pool := put_back failed now q (sh_pool s)\<rparr>)"
| "pc_step want now t (Notifying k) s = Some (k, s\<lparr>sh_epoch := sh_epoch s + 1\<rparr>)"
| "pc_step want now t (Done out) s = None"

definition task_step :: "auth_expect option \<Rightarrow> instant \<Rightarrow> client_task \<Rightarrow> shared \<Rightarrow> (client_task \<times> shared) option" where
  "task_step want now t s =
     (case pc_step want now t (tk_pc t) s of None \<Rightarrow> None | Some (pc, s') \<Rightarrow> Some (t\<lparr>tk_pc := pc\<rparr>, s'))"

section \<open>The server\<close>

text \<open>The importer between a push and its notification, between the end of the source and the last
  notification; the accept loop at its gate (\<open>wait_ready\<close>), accepting, and ended.\<close>

datatype importer = Importing | Pushed | Ending | Finished

datatype gate = GateWaker | GateLen nat | GateFlag nat | GateSleep nat | Accepting | Closed

record serving =
  sv_shared :: shared
  sv_import :: importer
  sv_gate :: gate
  sv_cancelled :: bool
  sv_tasks :: "client_task list"

definition shared_init :: "pool \<Rightarrow> shared" where
  "shared_init pl = \<lparr>sh_pool = pl, sh_history = [], sh_epoch = 0\<rparr>"

definition sv_init :: "pool \<Rightarrow> nat \<Rightarrow> serving" where
  "sv_init pl min_queue = \<lparr>sv_shared = shared_init pl, sv_import = (if exhausted pl then Finished else Importing),
     sv_gate = (if min_queue = 0 then Accepting else GateWaker), sv_cancelled = False, sv_tasks = []\<rparr>"

datatype sv_act = Import proxy | ImportEnd | ImportNotify | Gate | Connect ip_addr input outside | AcceptFailed
  | Shutdown | Close | Tick nat instant | Add proxy | Remove sock_addr

definition set_pool :: "(pool \<Rightarrow> pool) \<Rightarrow> serving \<Rightarrow> serving" where
  "set_pool f s = s\<lparr>sv_shared := (sv_shared s)\<lparr>sh_pool := f (sh_pool (sv_shared s))\<rparr>\<rparr>"

definition notify_all :: "serving \<Rightarrow> serving" where
  "notify_all s = s\<lparr>sv_shared := (sv_shared s)\<lparr>sh_epoch := sh_epoch (sv_shared s) + 1\<rparr>\<rparr>"

definition gate_step :: "nat \<Rightarrow> pool \<Rightarrow> nat \<Rightarrow> gate \<Rightarrow> gate option" where
  "gate_step min_queue pl ep g =
     (case g of
        GateWaker \<Rightarrow> Some (GateLen ep)
      | GateLen e \<Rightarrow> Some (if min_queue \<le> pool_len pl then Accepting else GateFlag e)
      | GateFlag e \<Rightarrow> Some (if exhausted pl then Accepting else GateSleep e)
      | GateSleep e \<Rightarrow> if e < ep then Some GateWaker else None
      | _ \<Rightarrow> None)"

text \<open>\<open>Pool::add\<close> notifies while it still holds the lock, so the push and its notification are one step.\<close>

fun sv_exec :: "auth_expect option \<Rightarrow> nat \<Rightarrow> sv_act \<Rightarrow> serving \<Rightarrow> serving option" where
  "sv_exec want mq (Import p) s =
     (if sv_import s \<noteq> Importing then None
      else Some ((set_pool (import_one p) s)
        \<lparr>sv_import := (if country_ok p (countries (config (sh_pool (sv_shared s)))) then Pushed else Importing)\<rparr>))"
| "sv_exec want mq ImportEnd s =
     (if sv_import s \<noteq> Importing then None else Some ((set_pool import_end s)\<lparr>sv_import := Ending\<rparr>))"
| "sv_exec want mq ImportNotify s =
     (case sv_import s of
        Pushed \<Rightarrow> Some ((notify_all s)\<lparr>sv_import := Importing\<rparr>)
      | Ending \<Rightarrow> Some ((notify_all s)\<lparr>sv_import := Finished\<rparr>)
      | _ \<Rightarrow> None)"
| "sv_exec want mq Gate s =
     (case gate_step mq (sh_pool (sv_shared s)) (sh_epoch (sv_shared s)) (sv_gate s) of
        None \<Rightarrow> None | Some g \<Rightarrow> Some (s\<lparr>sv_gate := g\<rparr>))"
| "sv_exec want mq (Connect peer inp ow) s =
     (if sv_gate s \<noteq> Accepting then None
      else Some (s\<lparr>sv_tasks := sv_tasks s @ [\<lparr>tk_peer = peer, tk_in = inp, tk_ow = ow, tk_pc = New\<rparr>]\<rparr>))"
| "sv_exec want mq AcceptFailed s = (if sv_gate s \<noteq> Accepting then None else Some s)"
| "sv_exec want mq Shutdown s = Some (s\<lparr>sv_cancelled := True\<rparr>)"
| "sv_exec want mq Close s = (if sv_cancelled s \<and> sv_gate s \<noteq> Closed then Some (s\<lparr>sv_gate := Closed\<rparr>) else None)"
| "sv_exec want mq (Tick i now) s =
     (if i < length (sv_tasks s) then
        (case task_step want now (sv_tasks s ! i) (sv_shared s) of
           None \<Rightarrow> None
         | Some (t, sh) \<Rightarrow> Some (s\<lparr>sv_shared := sh, sv_tasks := (sv_tasks s)[i := t]\<rparr>))
      else None)"
| "sv_exec want mq (Add p) s = Some
     (let s' = set_pool (pool_add p) s
      in if p_addr p \<in> addrs (sh_pool (sv_shared s)) then s' else notify_all s')"
| "sv_exec want mq (Remove a) s = Some (set_pool (\<lambda>pl. snd (pool_remove a pl)) s)"

fun sv_run :: "auth_expect option \<Rightarrow> nat \<Rightarrow> sv_act list \<Rightarrow> serving \<Rightarrow> serving option" where
  "sv_run want mq [] s = Some s"
| "sv_run want mq (a # as) s = (case sv_exec want mq a s of None \<Rightarrow> None | Some s' \<Rightarrow> sv_run want mq as s')"

text \<open>\<open>serve\<close> itself: the socket calls in their order (an error of one is the error of the call), then the
  accept task.\<close>

datatype sock_call = NewV4 | NewV6 | SetReuseAddr | Bind sock_addr | Listen nat | LocalAddr

definition serve_calls :: "sock_addr \<Rightarrow> nat \<Rightarrow> sock_call list" where
  "serve_calls a backlog =
     [case fst a of V4 _ _ _ _ \<Rightarrow> NewV4 | V6 _ \<Rightarrow> NewV6, SetReuseAddr, Bind a, Listen backlog, LocalAddr]"

definition serve :: "(sock_call \<Rightarrow> string option) \<Rightarrow> sock_addr \<Rightarrow> pool \<Rightarrow> nat \<Rightarrow> nat \<Rightarrow> string option
    \<Rightarrow> string + auth_expect option \<times> serving" where
  "serve fails a pl min_queue backlog auth =
     (case List.find (\<lambda>c. fails c \<noteq> None) (serve_calls a backlog) of
        Some c \<Rightarrow> Inl (the (fails c))
      | None \<Rightarrow> Inr (map_option auth_expect_of auth, sv_init pl min_queue))"

end
