(* ===== verification/Mcp.thy ===== *)
theory Mcp
  imports Pool_Spec Stats Ip_Text
begin

text \<open>
  The MCP tools over a live pool (\<^verbatim>\<open>src/src/mcp.rs\<close>): \<open>get_proxy\<close>, \<open>pool_status\<close> and \<open>report_dead\<close>, with
  the socket address parser of the standard library that the last one uses. The transport (\<open>rmcp\<close>) only
  passes the arguments on.
\<close>

section \<open>Socket addresses\<close>

definition read_num :: "nat \<Rightarrow> string \<Rightarrow> (nat \<times> string) option" where
  "read_num m s =
     (let ds = takeWhile is_digit s
      in if ds = [] \<or> m < digits_val ds then None else Some (digits_val ds, dropWhile is_digit s))"

definition read_port :: "ip_addr \<Rightarrow> string \<Rightarrow> sock_addr option" where
  "read_port ip s = (case read_num 65535 s of Some (n, r) \<Rightarrow> if r = [] then Some (ip, of_nat n) else None | None \<Rightarrow> None)"

text \<open>An optional scope, which the address part ignores.\<close>

definition skip_scope :: "string \<Rightarrow> string" where
  "skip_scope s = (case strip_prefix ''%'' s of None \<Rightarrow> s
     | Some r \<Rightarrow> (case read_num 4294967295 r of Some (_, r') \<Rightarrow> r' | None \<Rightarrow> s))"

definition parse_sock_addr :: "string \<Rightarrow> sock_addr option" where
  "parse_sock_addr s =
     (case read_v4 s of
        Some ((a, b, c, d), r) \<Rightarrow> Option.bind (strip_prefix '':'' r) (read_port (V4 a b c d))
      | None \<Rightarrow>
         Option.bind (strip_prefix ''['' s) (\<lambda>s1.
         Option.bind (read_v6 s1) (\<lambda>(w, s2).
         Option.bind (strip_prefix '']:'' (skip_scope s2)) (read_port (V6 w)))))"

section \<open>The handlers\<close>

record proxy_info =
  pi_proxy :: string
  pi_types :: "string list"
  pi_avg_resp_time :: real
  pi_error_rate :: real

record pool_status =
  ps_total :: nat
  ps_working :: nat
  ps_by_protocol :: "(string \<times> nat) list"
  ps_by_country :: "(string \<times> nat) list"
  ps_avg_resp_time :: real
  ps_errors :: "(string \<times> u32) list"

definition info_of :: "proxy \<Rightarrow> proxy_info" where
  "info_of p = \<lparr>pi_proxy = addr p, pi_types = map proto_str (type_keys (p_types p)),
     pi_avg_resp_time = avg_resp_time p, pi_error_rate = error_rate p\<rparr>"

definition handle_get_proxy :: "scheme \<Rightarrow> string option \<Rightarrow> pool \<Rightarrow> proxy_info option \<times> pool" where
  "handle_get_proxy sc cc pl =
     (case try_get sc cc pl of
        (None, pl1) \<Rightarrow> (None, pl1)
      | (Some p, pl1) \<Rightarrow> (Some (info_of p), pool_add p pl1))"

text \<open>Collecting into the map of the result: a later entry with the same key replaces the value.\<close>

fun bt_put :: "'k::linorder \<Rightarrow> 'v \<Rightarrow> ('k \<times> 'v) list \<Rightarrow> ('k \<times> 'v) list" where
  "bt_put k v [] = [(k, v)]"
| "bt_put k v ((k', v') # xs) =
     (if k < k' then (k, v) # (k', v') # xs else if k = k' then (k, v) # xs else (k', v') # bt_put k v xs)"

definition handle_pool_status :: "pool \<Rightarrow> pool_status option" where
  "handle_pool_status pl =
     (case stats_from_proxies (pool_proxies pl) of None \<Rightarrow> None
      | Some s \<Rightarrow> Some
         \<lparr>ps_total = st_total s, ps_working = st_working s,
          ps_by_protocol = foldl (\<lambda>m (k, v). bt_put (proto_str k) v m) [] (st_by_protocol s),
          ps_by_country = st_by_country s, ps_avg_resp_time = st_avg_resp_time s,
          ps_errors = foldl (\<lambda>m (k, v). bt_put k v m) [] (st_errors s)\<rparr>)"

definition handle_report_dead :: "string \<Rightarrow> pool \<Rightarrow> bool \<times> pool" where
  "handle_report_dead s pl =
     (case parse_sock_addr s of Some a \<Rightarrow> pool_remove a pl | None \<Rightarrow> (False, pl))"

definition parse_scheme :: "string \<Rightarrow> scheme option" where
  "parse_scheme s = (if lowercase s = ''http'' then Some SHttp else if lowercase s = ''https'' then Some SHttps else None)"

definition get_proxy :: "string \<Rightarrow> string option \<Rightarrow> pool \<Rightarrow> proxy_info option \<times> pool" where
  "get_proxy s cc pl = (case parse_scheme s of None \<Rightarrow> (None, pl) | Some sc \<Rightarrow> handle_get_proxy sc cc pl)"

section \<open>Reading addresses\<close>

lemma read_num_show:
  "unat (w :: u16) \<le> m \<Longrightarrow> read_num m (show_word w) = Some (unat w, [])"
proof -
  assume m: "unat w \<le> m"
  have t: "takeWhile is_digit (show_nat (unat w)) = show_nat (unat w)" "dropWhile is_digit (show_nat (unat w)) = []"
    using show_nat_digits[of "unat w"] by (simp_all add: list_all_iff)
  show ?thesis unfolding read_num_def show_word_def Let_def t using m by simp
qed

lemma read_port_show: "read_port ip (show_word pt) = Some (ip, pt)"
  using unsigned_less[where 'a = nat, of pt] by (simp add: read_port_def read_num_show)

lemma addr_text_back: "parse_sock_addr (addr p) = Some (p_addr p)"
proof (cases "p_host p")
  case (V4 a b c d)
  have "read_v4 (show_v4 a b c d @ CHR '':'' # show_word (p_port p)) = Some ((a, b, c, d), CHR '':'' # show_word (p_port p))"
    by (rule read_v4_show) (simp add: is_digit_def)
  then show ?thesis
    using V4 by (simp add: addr_def parse_sock_addr_def strip_prefix_def starts_with_def read_port_show)
next
  case (V6 w)
  let ?s = "CHR '']'' # CHR '':'' # show_word (p_port p)"
  have e: "ends_addr ?s" by (simp add: ends_addr_def is_hex_def is_digit_def between_def)
  have "read_v4 (CHR ''['' # show_v6 w @ ?s) = None"
    by (rule no_hex[THEN conjunct2]) (simp add: is_hex_def is_digit_def between_def)
  moreover have "skip_scope ?s = ?s" by (simp add: skip_scope_def strip_prefix_def starts_with_def)
  ultimately show ?thesis
    using V6 read_v6_show(1)[OF e, of w]
    by (simp add: addr_def parse_sock_addr_def strip_prefix_def starts_with_def read_port_show)
qed

text \<open>The text of a proxy's address, with the brackets that an IPv6 host needs, is read back as the
  host and the port of the proxy.\<close>

theorem addr_text_roundtrip: "parse_sock_addr (addr p) = Some (p_addr p)"
  by (rule addr_text_back)

lemma report_dead_addr: "handle_report_dead (addr p) pl = pool_remove (p_addr p) pl"
  by (simp add: handle_report_dead_def addr_text_back)

section \<open>What the tools do\<close>

lemma get_proxy_pool:
  assumes "handle_get_proxy sc cc pl = (Some info, pl')"
  obtains i where "i < length (entries pl)" "serves sc (entries pl ! i)" "info = info_of (pl_proxy (entries pl ! i))"
    "country_match cc (pl_proxy (entries pl ! i))"
    "\<And>j. j < length (entries pl) \<Longrightarrow> serves sc (entries pl ! j) \<Longrightarrow> country_match cc (pl_proxy (entries pl ! j))
       \<Longrightarrow> priority (pl_proxy (entries pl ! i)) \<le> priority (pl_proxy (entries pl ! j))"
    "pl' = pool_add (pl_proxy (entries pl ! i)) (pl\<lparr>entries := vec_remove i (entries pl)\<rparr>)"
proof -
  let ?es = "entries pl" and ?pc = "prefer_connect (config pl)"
  let ?el = "filter (\<lambda>i. serves sc (?es ! i) \<and> country_match cc (pl_proxy (?es ! i))) [0..<length ?es]"
  obtain i where i: "best_by_priority ?es ?el ?pc = Some i" "info = info_of (pl_proxy (?es ! i))"
    "pl' = pool_add (pl_proxy (?es ! i)) (pl\<lparr>entries := vec_remove i ?es\<rparr>)"
    using assms by (auto simp: handle_get_proxy_def try_get_def Let_def split: option.splits)
  have "i \<in> set ?el" using best_by_priority_mem[OF i(1)] .
  moreover have "priority (pl_proxy (?es ! i)) \<le> priority (pl_proxy (?es ! j))" if "j \<in> set ?el" for j
    using best_by_priority_least[OF i(1) that]
    by (auto simp: priority_key_def less_eq_prod_def split: prod.splits)
  ultimately show thesis using i by (intro that[of i]) auto
qed

text \<open>C36. \<open>get_proxy\<close> describes a pooled proxy that serves the scheme, is in the country asked for and is at
  least as good as every such proxy; the pool then holds the same addresses as before, and reporting the
  returned text as dead removes that address and no other. There is no result exactly when no pooled
  proxy qualifies.\<close>

theorem mcp_get_report:
  "case handle_get_proxy sc cc pl of
     (None, pl') \<Rightarrow> pl' = pl \<and> list_all (\<lambda>e. \<not> (serves sc e \<and> country_match cc (pl_proxy e))) (entries pl)
   | (Some info, pl') \<Rightarrow>
       (\<exists>e \<in> set (entries pl). serves sc e \<and> country_match cc (pl_proxy e) \<and> info = info_of (pl_proxy e)
         \<and> list_all (\<lambda>e'. priority (pl_proxy e) \<le> priority (pl_proxy e'))
             (filter (\<lambda>e'. serves sc e' \<and> country_match cc (pl_proxy e')) (entries pl))
         \<and> addrs pl' = addrs pl
         \<and> handle_report_dead (pi_proxy info) pl' = (True, snd (pool_remove (p_addr (pl_proxy e)) pl'))
         \<and> addrs (snd (handle_report_dead (pi_proxy info) pl')) = addrs pl - {p_addr (pl_proxy e)})"
proof (cases "handle_get_proxy sc cc pl")
  case (Pair r pl')
  show ?thesis
  proof (cases r)
    case None
    then have "try_get sc cc pl = (None, pl')"
      using Pair by (auto simp: handle_get_proxy_def split: prod.splits option.splits)
    then have "filter (\<lambda>i. serves sc (entries pl ! i) \<and> country_match cc (pl_proxy (entries pl ! i))) [0..<length (entries pl)] = []"
      and "pl' = pl" by (auto simp: try_get_def Let_def split: option.splits)
    then show ?thesis by (simp add: Pair None list_all_length filter_empty_conv)
  next
    case (Some info)
    obtain i where i: "i < length (entries pl)" "serves sc (entries pl ! i)" "info = info_of (pl_proxy (entries pl ! i))"
      "country_match cc (pl_proxy (entries pl ! i))"
      "\<And>j. j < length (entries pl) \<Longrightarrow> serves sc (entries pl ! j) \<Longrightarrow> country_match cc (pl_proxy (entries pl ! j))
         \<Longrightarrow> priority (pl_proxy (entries pl ! i)) \<le> priority (pl_proxy (entries pl ! j))"
      "pl' = pool_add (pl_proxy (entries pl ! i)) (pl\<lparr>entries := vec_remove i (entries pl)\<rparr>)"
      using get_proxy_pool[OF Pair[unfolded Some]] by metis
    let ?p = "pl_proxy (entries pl ! i)"
    have "set (entries pl) = insert (entries pl ! i) (set (vec_remove i (entries pl)))"
      using arg_cong[OF id_take_nth_drop[OF i(1)], of set] by (simp add: vec_remove_def)
    then have "insert (p_addr ?p) (addrs (pl\<lparr>entries := vec_remove i (entries pl)\<rparr>)) = addrs pl"
      by (simp add: addrs_def)
    then have a: "addrs pl' = addrs pl" unfolding i(6) by (simp add: pa.addrs_add)
    have "p_addr ?p \<in> addrs pl" using i(1) by (auto simp: addrs_def)
    then have r: "fst (pool_remove (p_addr ?p) pl')" "addrs (snd (pool_remove (p_addr ?p) pl')) = addrs pl - {p_addr ?p}"
      using pa.remove_reports pa.addrs_remove a by auto
    have "handle_report_dead (pi_proxy info) pl' = pool_remove (p_addr ?p) pl'"
      by (simp add: i(3) info_of_def report_dead_addr)
    with i r a show ?thesis
      by (auto simp: Pair Some list_all_iff in_set_conv_nth prod_eq_iff intro!: bexI[of _ "entries pl ! i"])
  qed
qed

text \<open>Asking for a proxy takes its bench away: a proxy that is benched after a failure is handed out by
  \<open>get_proxy\<close> and is put back as a ready one.\<close>

theorem get_proxy_unbenches:
  assumes "handle_get_proxy sc cc (pl\<lparr>entries := [e]\<rparr>) = (Some info, pl')" "\<not> entry_ready now e"
  shows "entries pl' = [ready_entry (pl_proxy e)] \<and> entry_ready now (ready_entry (pl_proxy e))"
proof -
  obtain i where "i < length [e]" "pl' = pool_add (pl_proxy ([e] ! i)) (pl\<lparr>entries := vec_remove i [e]\<rparr>)"
    using get_proxy_pool[OF assms(1)] by (metis (no_types, lifting) pool.select_convs(1) pool.surjective pool.update_convs(1))
  then show ?thesis by (simp add: pool_add_def vec_remove_def ready_entry_def entry_ready_def)
qed

definition benched_entry :: pooled where
  "benched_entry = \<lparr>pl_proxy = sample_proxy 1, blocked_until = Some 9\<rparr>"

theorem get_proxy_unbenches_witness:
  "\<exists>info pl'. handle_get_proxy SHttp None ((sample_pool Best)\<lparr>entries := [benched_entry]\<rparr>) = (Some info, pl')
    \<and> entries pl' = [ready_entry (pl_proxy benched_entry)] \<and> entry_ready 5 (ready_entry (pl_proxy benched_entry))"
proof -
  have "SHttp \<in> set (schemes (sample_proxy 1))" by (simp add: sample_schemes)
  then have "fst (handle_get_proxy SHttp None ((sample_pool Best)\<lparr>entries := [benched_entry]\<rparr>)) \<noteq> None"
    by (simp add: handle_get_proxy_def try_get_def country_match_def serves_def benched_entry_def best_by_priority_def min_by_def)
  then obtain info pl' where r: "handle_get_proxy SHttp None ((sample_pool Best)\<lparr>entries := [benched_entry]\<rparr>) = (Some info, pl')"
    by (cases "handle_get_proxy SHttp None ((sample_pool Best)\<lparr>entries := [benched_entry]\<rparr>)") auto
  from get_proxy_unbenches[OF r, of 5] r show ?thesis by (simp add: entry_ready_def benched_entry_def)
qed

text \<open>The status report counts the pool.\<close>

lemma pool_status_counts:
  "\<exists>s. handle_pool_status pl = Some s \<and> ps_total s = pool_len pl \<and> ps_working s \<le> ps_total s
    \<and> sum_list (map snd (ps_by_country s)) = pool_len pl"
proof -
  obtain s where "stats_from_proxies (pool_proxies pl) = Some s" "st_total s = length (pool_proxies pl)"
    "st_working s = length (filter is_working (pool_proxies pl))" "sum_list (map snd (st_by_country s)) = st_total s"
    using stats_spec[of "pool_proxies pl"] by blast
  then show ?thesis by (simp add: handle_pool_status_def pool_len_def pool_proxies_def length_filter_le)
qed

end
