(* ===== verification/Persist_Spec.thy ===== *)
theory Persist_Spec
  imports Persist
begin

text \<open>
  The Redis backend meets the store contract too, and what follows for all three: they load the same
  proxies as long as the counters fit in 32 bits, what they remember of an address is the history of its
  samples, and where they differ when the counters do not fit. The bounded retry of SQLite.
\<close>

section \<open>Redis\<close>

definition hash_agg :: "(string \<Rightarrow> json option) \<Rightarrow> redis_hash \<Rightarrow> agg" where
  "hash_agg from_str h = \<lparr>ag_types = types_from_json from_str (rh_types h), ag_requests = nat (rh_requests h),
     ag_errors = nat (rh_errors h), ag_ewma = rh_ewma h, ag_latency = rh_latency h\<rparr>"

definition redis_recall :: "(string \<Rightarrow> json option) \<Rightarrow> redis_db \<Rightarrow> sock_addr \<Rightarrow> agg option" where
  "redis_recall from_str db a =
     map_option (hash_agg from_str) (rd_hashes db (proxy_key a))"

definition redis_ok :: "redis_db \<Rightarrow> bool" where
  "redis_ok db \<longleftrightarrow> distinct (rd_members db)
     \<and> (\<forall>m \<in> set (rd_members db). \<exists>a. m = member_of a \<and> rd_hashes db (proxy_key a) \<noteq> None)
     \<and> (\<forall>a. rd_hashes db (proxy_key a) \<noteq> None \<longrightarrow> member_of a \<in> set (rd_members db))
     \<and> (\<forall>h \<in> ran (rd_hashes db). in_u32 (rh_requests h) \<and> in_u32 (rh_errors h))"

lemma member_split: "rsplit_once (CHR '':'') (member_of a) = Some (show_ip (fst a), show_word (snd a))"
proof -
  have "CHR '':'' \<notin> set (show_word (snd a))"
    using show_word_chars[of "CHR '':''" "snd a"] by (auto simp: is_digit_def between_def)
  then show ?thesis using rsplit_once_last[of "CHR '':''" "show_word (snd a)" "show_ip (fst a)"] by (simp add: member_of_def)
qed

lemma member_inj: "member_of a = member_of b \<Longrightarrow> a = b"
proof -
  assume m: "member_of a = member_of b"
  have s: "show_ip (fst a) = show_ip (fst b)" "show_word (snd a) = show_word (snd b)"
    using member_split[of a] member_split[of b] m by simp_all
  have "fst a = fst b" using s(1) by simp
  moreover have "snd a = snd b" using parse_u16_show[of "snd a"] parse_u16_show[of "snd b"] unfolding s(2) by simp
  ultimately show ?thesis by (rule prod_eqI)
qed

lemma key_inj: "proxy_key a = proxy_key b \<longleftrightarrow> a = b"
  using member_inj[of a b] by (auto simp: proxy_key_def)

lemma parse_count_u32: "in_u32 n \<Longrightarrow> parse_count n = of_nat (nat n)"
  by (simp add: parse_count_def in_u32_def)

lemma redis_load_member:
  assumes "redis_ok db" "redis_recall from_str db a = Some g"
  shows "redis_load_one from_str db (member_of a) = Some (agg_proxy a g)"
proof -
  obtain h where h: "rd_hashes db (proxy_key a) = Some h" "g = hash_agg from_str h"
    using assms(2) by (auto simp: redis_recall_def)
  then have "h \<in> ran (rd_hashes db)" by (auto simp: ran_def)
  with assms(1) have "in_u32 (rh_requests h)" "in_u32 (rh_errors h)" unfolding redis_ok_def by blast+
  with h show ?thesis
    by (simp add: redis_load_one_def member_split agg_proxy_def hash_agg_def parse_count_u32)
qed

lemma lua_fold_agg:
  fixes now :: int
  assumes "text_fit to_string from_str p (redis_recall from_str db)" "redis_ok db"
  defines "h \<equiv> lua_fold to_string now p (rd_hashes db (proxy_key (p_addr p)))"
  shows "hash_agg from_str h = agg_fold p (redis_recall from_str db (p_addr p))"
    "in_u32 (rh_requests h)" "in_u32 (rh_errors h)"
proof -
  have tx: "types_text_ok to_string from_str (p_types p)" "counts_fit p (redis_recall from_str db)"
    using assms(1) by (simp_all add: text_fit_def)
  note rt = types_from_json_back[OF tx(1)]
  have e: "types_to_json to_string (p_types p) = ''[]'' \<longleftrightarrow> \<not> is_working p"
    using tx(1) by (simp add: types_text_ok_def type_entries_empty)
  have "hash_agg from_str h = agg_fold p (redis_recall from_str db (p_addr p)) \<and> in_u32 (rh_requests h) \<and> in_u32 (rh_errors h)"
  proof (cases "rd_hashes db (proxy_key (p_addr p))")
    case None
    with rt u32_range show ?thesis
      by (auto simp: h_def lua_fold_def Let_def redis_recall_def agg_fold_def hash_agg_def)
  next
    case (Some c)
    then have "c \<in> ran (rd_hashes db)" by (auto simp: ran_def)
    with assms(2) have r: "in_u32 (rh_requests c)" "in_u32 (rh_errors c)" unfolding redis_ok_def by blast+
    have n: "nat (rh_requests c) + unat (p_requests p) < 2 ^ 32" "nat (rh_errors c) + unat (errors_total p) < 2 ^ 32"
      using tx(2) Some by (simp_all add: counts_fit_def redis_recall_def hash_agg_def)
    show ?thesis
      using Some rt e u32_sum[OF r(1) n(1)] u32_sum[OF r(2) n(2)]
      by (simp add: h_def lua_fold_def Let_def redis_recall_def agg_fold_def hash_agg_def fold_ewma_def)
  qed
  then show "hash_agg from_str h = agg_fold p (redis_recall from_str db (p_addr p))"
    "in_u32 (rh_requests h)" "in_u32 (rh_errors h)" by blast+
qed

lemma redis_upsert_simps [simp]:
  "rd_hashes (redis_upsert to_string now p db) = (rd_hashes db)(proxy_key (p_addr p) \<mapsto>
     lua_fold to_string now p (rd_hashes db (proxy_key (p_addr p))))"
  "set (rd_members (redis_upsert to_string now p db)) = insert (member_of (p_addr p)) (set (rd_members db))"
  "distinct (rd_members (redis_upsert to_string now p db)) = distinct (rd_members db)"
  by (auto simp: redis_upsert_def Let_def)

lemma redis_upsert_ok:
  assumes "redis_ok db" "text_fit to_string from_str p (redis_recall from_str db)"
  shows "redis_ok (redis_upsert to_string now p db)"
proof -
  let ?db = "redis_upsert to_string now p db"
  have "\<exists>a. m = member_of a \<and> rd_hashes ?db (proxy_key a) \<noteq> None"
    if "m \<in> set (rd_members ?db)" for m
  proof (cases "m = member_of (p_addr p)")
    case True
    then show ?thesis by (intro exI[of _ "p_addr p"]) simp
  next
    case False
    with that assms(1) obtain a where "m = member_of a" "rd_hashes db (proxy_key a) \<noteq> None"
      unfolding redis_ok_def by auto
    then show ?thesis by (intro exI[of _ a]) simp
  qed
  moreover have "member_of a \<in> set (rd_members ?db)" if "rd_hashes ?db (proxy_key a) \<noteq> None" for a
  proof (cases "a = p_addr p")
    case False
    then have "rd_hashes db (proxy_key a) \<noteq> None" using that by (simp add: key_inj)
    with assms(1) have "member_of a \<in> set (rd_members db)" unfolding redis_ok_def by blast
    then show ?thesis by simp
  qed simp
  moreover have "in_u32 (rh_requests h) \<and> in_u32 (rh_errors h)" if "h \<in> ran (rd_hashes ?db)" for h
  proof -
    have "h \<in> ran (rd_hashes db) \<or> h = lua_fold to_string now p (rd_hashes db (proxy_key (p_addr p)))"
      using that by (auto simp: ran_def split: if_splits)
    then show ?thesis using assms(1) lua_fold_agg(2,3)[OF assms(2,1)] unfolding redis_ok_def by blast
  qed
  ultimately show ?thesis using assms(1) unfolding redis_ok_def by simp
qed

lemma redis_load_addrs:
  assumes "redis_ok db"
  obtains as where "rd_members db = map member_of as"
    "redis_load from_str db = map (\<lambda>a. agg_proxy a (the (redis_recall from_str db a))) as"
proof -
  define f where "f m = (SOME a. m = member_of a \<and> rd_hashes db (proxy_key a) \<noteq> None)" for m
  have f: "m = member_of (f m) \<and> rd_hashes db (proxy_key (f m)) \<noteq> None"
    if "m \<in> set (rd_members db)" for m
  proof -
    have "\<exists>a. m = member_of a \<and> rd_hashes db (proxy_key a) \<noteq> None" using assms that unfolding redis_ok_def by blast
    then show ?thesis unfolding f_def by (rule someI_ex)
  qed
  show thesis
  proof
    show "rd_members db = map member_of (map f (rd_members db))"
      unfolding map_map by (rule map_idI[symmetric]) (use f in \<open>metis comp_apply\<close>)
    have "redis_load_one from_str db m = Some (agg_proxy (f m) (the (redis_recall from_str db (f m))))"
      if m: "m \<in> set (rd_members db)" for m
    proof -
      obtain h where h: "rd_hashes db (proxy_key (f m)) = Some h" using f[OF m] by blast
      then have "redis_recall from_str db (f m) = Some (hash_agg from_str h)" by (simp add: redis_recall_def)
      from redis_load_member[OF assms this] this f[OF m, THEN conjunct1, symmetric] show ?thesis by simp
    qed
    then show "redis_load from_str db = map (\<lambda>a. agg_proxy a (the (redis_recall from_str db a))) (map f (rd_members db))"
      by (simp add: redis_load_def map_filter_def)
  qed
qed

interpretation redis: proxy_store "redis_upsert to_string" "redis_load from_str" "redis_recall from_str" redis_ok
  "text_fit to_string from_str"
  for to_string from_str
proof
  fix db p now
  assume ok: "redis_ok db" and f: "text_fit to_string from_str p (redis_recall from_str db)"
  show "redis_ok (redis_upsert to_string now p db)" using ok f by (rule redis_upsert_ok)
  show "redis_recall from_str (redis_upsert to_string now p db) = agg_step p (redis_recall from_str db)"
  proof
    fix a
    show "redis_recall from_str (redis_upsert to_string now p db) a = agg_step p (redis_recall from_str db) a"
      using lua_fold_agg(1)[OF f ok, of now] by (simp add: agg_step_apply redis_recall_def key_inj)
  qed
next
  fix db
  assume ok: "redis_ok db"
  obtain as where as: "rd_members db = map member_of as"
    "redis_load from_str db = map (\<lambda>a. agg_proxy a (the (redis_recall from_str db a))) as"
    using redis_load_addrs[OF ok] by blast
  have "redis_recall from_str db a = Some g \<longleftrightarrow> (\<exists>x \<in> set as. x = a \<and> g = the (redis_recall from_str db x))" for a g
  proof
    assume r: "redis_recall from_str db a = Some g"
    then have "rd_hashes db (proxy_key a) \<noteq> None" by (auto simp: redis_recall_def)
    with ok have "member_of a \<in> set (rd_members db)" unfolding redis_ok_def by blast
    then obtain b where "b \<in> set as" "member_of a = member_of b" by (auto simp: as(1))
    then have "a \<in> set as" using member_inj[of a b] by auto
    with r show "\<exists>x \<in> set as. x = a \<and> g = the (redis_recall from_str db x)" by auto
  next
    assume "\<exists>x \<in> set as. x = a \<and> g = the (redis_recall from_str db x)"
    then have a: "a \<in> set as" "g = the (redis_recall from_str db a)" by auto
    then have "member_of a \<in> set (rd_members db)" using as(1) by auto
    with ok obtain b where "member_of a = member_of b" "rd_hashes db (proxy_key b) \<noteq> None"
      unfolding redis_ok_def by blast
    with member_inj[of a b] have "rd_hashes db (proxy_key a) \<noteq> None" by blast
    then show "redis_recall from_str db a = Some g" using a(2) by (auto simp: redis_recall_def)
  qed
  then show "set (redis_load from_str db) = {agg_proxy a g |a g. redis_recall from_str db a = Some g}"
    unfolding as(2) set_map by (rule load_image) (rule refl)
  have "distinct (map member_of as)" using ok as(1) by (simp add: redis_ok_def)
  then have "distinct as" by (simp add: distinct_map)
  moreover have "map p_addr (redis_load from_str db) = as" by (simp add: as(2) agg_proxy_def comp_def)
  ultimately show "distinct (map p_addr (redis_load from_str db))" by simp
qed

section \<open>All stores\<close>

definition redis_empty :: redis_db where
  "redis_empty = \<lparr>rd_schema = Some ''1'', rd_members = [], rd_hashes = Map.empty\<rparr>"

lemma empty_stores:
  "mem_ok []" "mem_recall [] = Map.empty" "sql_ok []" "sql_recall from_str [] = Map.empty"
  "redis_ok redis_empty" "redis_recall from_str redis_empty = Map.empty"
  by (auto simp: mem_ok_def mem_recall_def sql_ok_def sql_recall_def redis_ok_def redis_recall_def redis_empty_def)

lemma fit_all_mono: "fit_all f ps m \<Longrightarrow> (\<And>p m. f p m \<Longrightarrow> g p m) \<Longrightarrow> fit_all g ps m"
  by (induction f ps m rule: fit_all.induct) auto

text \<open>The upserts of a run, in order.\<close>

definition mem_all :: "(int \<times> proxy) list \<Rightarrow> mem_store \<Rightarrow> mem_store" where
  "mem_all ps s = foldl (\<lambda>s (t, p). mem_upsert p s) s ps"

definition sql_all :: "(json \<Rightarrow> string) \<Rightarrow> (int \<times> proxy) list \<Rightarrow> sql_table \<Rightarrow> sql_table" where
  "sql_all to_string ps s = foldl (\<lambda>s (t, p). sql_exec to_string t p s) s ps"

definition redis_all :: "(json \<Rightarrow> string) \<Rightarrow> (int \<times> proxy) list \<Rightarrow> redis_db \<Rightarrow> redis_db" where
  "redis_all to_string ps s = foldl (\<lambda>s (t, p). redis_upsert to_string t p s) s ps"

lemma all_upsert_all:
  "mem_all ps m = mem.upsert_all ps m" "sql_all to_string ps s = sql.upsert_all to_string ps s"
  "redis_all to_string ps r = redis.upsert_all to_string ps r"
proof -
  show "mem_all ps m = mem.upsert_all ps m"
    by (induction ps arbitrary: m) (auto simp: mem_all_def)
  show "sql_all to_string ps s = sql.upsert_all to_string ps s"
    by (induction ps arbitrary: s) (auto simp: sql_all_def)
  show "redis_all to_string ps r = redis.upsert_all to_string ps r"
    by (induction ps arbitrary: r) (auto simp: redis_all_def)
qed

text \<open>C13. The three stores remember the same: after the same upserts, at whatever times, they load the
  same proxies with the same types, counters, latency and success rate, as long as the counters of an
  address stay within 32 bits and the texts of the types read back.\<close>

theorem stores_agree:
  assumes "fit_all (text_fit to_string from_str) ps Map.empty"
  shows "mset (mem_load (mem_all ps [])) = mset (sql_load from_str (sql_all to_string ps []))
    \<and> mset (sql_load from_str (sql_all to_string ps [])) = mset (redis_load from_str (redis_all to_string ps redis_empty))"
proof -
  have "fit_all counts_fit ps Map.empty"
    using assms by (rule fit_all_mono) (simp add: text_fit_def)
  then have m: "mem_ok (mem_all ps [])" "mem_recall (mem_all ps []) = recall_all ps Map.empty"
    using mem.upsert_all_recall[of "[]" ps] unfolding all_upsert_all by (simp_all add: empty_stores)
  have s: "sql_ok (sql_all to_string ps [])" "sql_recall from_str (sql_all to_string ps []) = recall_all ps Map.empty"
    using sql.upsert_all_recall[of "[]" to_string from_str ps] assms unfolding all_upsert_all by (simp_all add: empty_stores)
  have r: "redis_ok (redis_all to_string ps redis_empty)"
    "redis_recall from_str (redis_all to_string ps redis_empty) = recall_all ps Map.empty"
    using redis.upsert_all_recall[of redis_empty to_string from_str ps] assms unfolding all_upsert_all
    by (simp_all add: empty_stores)
  have "mset (mem_load (mem_all ps [])) = mset (sql_load from_str (sql_all to_string ps []))"
    by (rule mem.load_determined[OF m(1) sql.load_distinct[OF s(1)]])
      (simp only: sql.load_set[OF s(1)] m(2) s(2))
  moreover have "mset (sql_load from_str (sql_all to_string ps [])) = mset (redis_load from_str (redis_all to_string ps redis_empty))"
    by (rule sql.load_determined[OF s(1) redis.load_distinct[OF r(1)]])
      (simp only: redis.load_set[OF r(1)] s(2) r(2))
  ultimately show ?thesis ..
qed

text \<open>A working check of one address and a failed one later, with a JSON text for the two type lists.\<close>

definition store_types :: type_map where
  "store_types = [Http \<mapsto> Some High]"

definition sample_to_string :: "json \<Rightarrow> string" where
  "sample_to_string j = (if j = JArr [] then ''[]'' else ''H'')"

definition sample_from_str :: "string \<Rightarrow> json option" where
  "sample_from_str s = (if s = ''[]'' then Some (JArr []) else Some (JArr [type_json (Http, Some High)]))"

definition store_samples :: "(int \<times> proxy) list" where
  "store_samples = [(10, restored (V4 1 2 3 4) 80 store_types 3 1 (1/4)), (20, restored (V4 1 2 3 4) 80 Map.empty 2 2 0)]"

lemma store_types_entries: "type_entries store_types = [(Http, Some High)]" "type_entries Map.empty = []"
  by (simp_all add: type_entries_def type_keys_def proto_ALL_def store_types_def)

lemma sample_texts: "types_text_ok sample_to_string sample_from_str store_types" "types_text_ok sample_to_string sample_from_str Map.empty"
  by (simp_all add: types_text_ok_def types_to_json_def store_types_entries sample_to_string_def sample_from_str_def)

lemma restored_simps [simp]:
  "p_host (restored h pt ty rq er av) = h" "p_port (restored h pt ty rq er av) = pt"
  "p_types (restored h pt ty rq er av) = ty" "p_requests (restored h pt ty rq er av) = rq"
  "errors_total (restored h pt ty rq er av) = er"
  by (simp_all add: restored_def errors_total_def word_gt_0)

lemma store_samples_fit: "fit_all (text_fit sample_to_string sample_from_str) store_samples Map.empty"
  by (simp add: store_samples_def text_fit_def counts_fit_def sample_texts agg_step_apply
      agg_fold_def)

theorem stores_agree_witness:
  "mset (mem_load (mem_all store_samples [])) = mset (sql_load sample_from_str (sql_all sample_to_string store_samples []))
    \<and> mset (sql_load sample_from_str (sql_all sample_to_string store_samples []))
      = mset (redis_load sample_from_str (redis_all sample_to_string store_samples redis_empty))"
  by (rule stores_agree[OF store_samples_fit])

lemma history_of:
  assumes "recall_all ps Map.empty a = Some g"
  shows "samples a ps \<noteq> []" "ag_requests g = sum_list (map (unat \<circ> p_requests) (samples a ps))"
    "ag_errors g = sum_list (map (unat \<circ> errors_total) (samples a ps))"
    "(\<exists>pr. ag_types g pr \<noteq> None) \<longleftrightarrow> list_ex is_working (samples a ps)" "agg_ok g"
proof -
  have f: "foldl (\<lambda>g p. Some (agg_fold p g)) None (samples a ps) = Some g"
    using assms recall_all_samples[of ps Map.empty a] by simp
  then obtain p qs where s: "samples a ps = p # qs" by (cases "samples a ps") auto
  have h: "foldl (\<lambda>g p. Some (agg_fold p g)) (Some (agg_fold p None)) qs = Some g" using f s by simp
  show "samples a ps \<noteq> []" by (simp add: s)
  show "ag_requests g = sum_list (map (unat \<circ> p_requests) (samples a ps))"
    "ag_errors g = sum_list (map (unat \<circ> errors_total) (samples a ps))"
    "(\<exists>pr. ag_types g pr \<noteq> None) \<longleftrightarrow> list_ex is_working (samples a ps)"
    using agg_history[OF h] unfolding s by (simp_all add: agg_fold_def is_working_iff[of p])
  show "agg_ok g" using recall_all_ok[of Map.empty ps a g] assms by simp
qed



section \<open>Where the stores differ\<close>

text \<open>Beyond 32 bits the stores differ, although they are documented to fold alike: after two upserts
  whose requests add up to \<open>2 ^ 32\<close> the in-memory store gives back the largest counter, and both durable
  stores give back none.\<close>

theorem counters_diverge:
  "let ps = [(t, restored h pt Map.empty (- 1) 0 0), (t', restored h pt Map.empty 1 0 0)]
    in map p_requests (mem_load (mem_all ps [])) = [- 1]
    \<and> map p_requests (sql_load from_str (sql_all to_string ps [])) = [0]
    \<and> map p_requests (redis_load from_str (redis_all to_string ps redis_empty)) = [0]"
proof -
  let ?p = "restored h pt Map.empty (- 1) 0 0" and ?q = "restored h pt Map.empty 1 0 0"
  have u: "uint (- 1 :: u32) = 4294967295" "unat (- 1 :: u32) = 4294967295"
    by (simp_all add: unsigned_minus_1_eq_mask mask_eq_exp_minus_1)
  have "map p_requests (mem_load (mem_all [(t, ?p), (t', ?q)] [])) = [- 1]"
    by (simp add: mem_all_def mem_upsert_def mem_load_def mem_proxy_def mem_fold_def sat_add_def u with_ewma_def)
  moreover have "map p_requests (sql_load from_str (sql_all to_string [(t, ?p), (t', ?q)] [])) = [0]"
    by (simp add: sql_all_def sql_exec_def sql_load_def sql_fold_def sql_update_def sql_values_def u
        map_filter_def with_ewma_def)
  moreover have "map p_requests (redis_load from_str (redis_all to_string [(t, ?p), (t', ?q)] redis_empty)) = [0]"
  proof -
    let ?db = "redis_all to_string [(t, ?p), (t', ?q)] redis_empty"
    obtain r where r: "rd_hashes ?db (proxy_key (h, pt)) = Some r" "rh_requests r = 4294967296"
      by (simp add: redis_all_def redis_upsert_def redis_empty_def Let_def lua_fold_def u)
    have "rd_members ?db = [member_of (h, pt)]"
      by (simp add: redis_all_def redis_upsert_def redis_empty_def Let_def)
    with r show ?thesis
      by (simp add: redis_load_def redis_load_one_def member_split map_filter_def parse_count_def with_ewma_def)
  qed
  ultimately show ?thesis by (simp only: Let_def)
qed

section \<open>Contention\<close>

definition contended :: "(nat \<Rightarrow> sql_error option) \<Rightarrow> nat \<Rightarrow> bool" where
  "contended eng n \<longleftrightarrow>
     list_all (\<lambda>i. case eng i of Some e \<Rightarrow> is_retryable_sqlite_contention e | None \<Rightarrow> False) [0..<n]"

lemma retry_loop_Inr:
  "fst (retry_loop op i ds) = Inr v \<longleftrightarrow>
    (\<exists>n \<le> length ds. op (i + n) = Inr v \<and> (\<forall>m < n. \<exists>e. op (i + m) = Inl e \<and> is_retryable_sqlite_contention e))"
proof (induction op i ds rule: retry_loop.induct)
  case (2 op i d ds)
  show ?case
  proof (cases "\<exists>e. op i = Inl e \<and> is_retryable_sqlite_contention e")
    case True
    then obtain e where e: "op i = Inl e" "is_retryable_sqlite_contention e" by blast
    have "(\<exists>n \<le> length (d # ds). op (i + n) = Inr v \<and> (\<forall>m < n. \<exists>e. op (i + m) = Inl e \<and> is_retryable_sqlite_contention e))
      \<longleftrightarrow> (\<exists>n \<le> length ds. op (i + 1 + n) = Inr v \<and> (\<forall>m < n. \<exists>e. op (i + 1 + m) = Inl e \<and> is_retryable_sqlite_contention e))"
      (is "?l \<longleftrightarrow> ?r")
    proof
      assume ?l
      then obtain n where n: "n \<le> length (d # ds)" "op (i + n) = Inr v"
        "\<forall>m < n. \<exists>e. op (i + m) = Inl e \<and> is_retryable_sqlite_contention e" by blast
      then obtain k where k: "n = Suc k" using e(1) by (cases n) auto
      have "\<exists>e. op (i + 1 + m) = Inl e \<and> is_retryable_sqlite_contention e" if "m < k" for m
        using n(3)[rule_format, of "Suc m"] that k by simp
      with n k show ?r by (intro exI[of _ k]) simp
    next
      assume ?r
      then obtain k where k: "k \<le> length ds" "op (i + 1 + k) = Inr v"
        "\<forall>m < k. \<exists>e. op (i + 1 + m) = Inl e \<and> is_retryable_sqlite_contention e" by blast
      have "\<exists>e. op (i + m) = Inl e \<and> is_retryable_sqlite_contention e" if "m < Suc k" for m
        using k(3)[rule_format, of "m - 1"] e that by (cases m) auto
      with k show ?l by (intro exI[of _ "Suc k"]) simp
    qed
    with 2[OF e] e show ?thesis by simp
  next
    case False
    then have "(\<forall>m < n. \<exists>e. op (i + m) = Inl e \<and> is_retryable_sqlite_contention e) \<longleftrightarrow> n = 0" for n by (cases n) auto
    with False show ?thesis by (cases "op i") auto
  qed
qed simp

lemma retry_loop_count: "snd (retry_loop op i ds) \<le> i + length ds + 1"
  by (induction op i ds rule: retry_loop.induct) (auto split: sum.splits)

text \<open>C33. An SQLite upsert executes its statement at most five times and takes effect at most once: it
  succeeds exactly when one of the first five executions succeeds after nothing but contention, and then
  the table is the one with the sample folded in; otherwise it reports an error and the table is
  unchanged.\<close>

theorem sqlite_upsert_atomic:
  "(fst (sqlite_upsert eng show to_string now p tbl) = Inr () \<longleftrightarrow> (\<exists>n < 5. eng n = None \<and> contended eng n))
   \<and> snd (sqlite_upsert eng show to_string now p tbl) =
       (if fst (sqlite_upsert eng show to_string now p tbl) = Inr () then sql_exec to_string now p tbl else tbl)
   \<and> snd (retry_sqlite_contention (\<lambda>i. case eng i of None \<Rightarrow> Inr () | Some e \<Rightarrow> Inl e)) \<le> 5"
proof -
  let ?op = "\<lambda>i. case eng i of None \<Rightarrow> Inr (sql_exec to_string now p tbl) | Some e \<Rightarrow> Inl e"
  have r: "fst (retry_sqlite_contention ?op) = Inr v \<longleftrightarrow> v = sql_exec to_string now p tbl \<and> (\<exists>n < 5. eng n = None \<and> contended eng n)" for v
  proof -
    have "(\<exists>e. ?op m = Inl e \<and> is_retryable_sqlite_contention e)
        \<longleftrightarrow> (case eng m of Some e \<Rightarrow> is_retryable_sqlite_contention e | None \<Rightarrow> False)" for m
      by (auto split: option.splits)
    moreover have "?op n = Inr v \<longleftrightarrow> eng n = None \<and> v = sql_exec to_string now p tbl" for n
      by (auto split: option.splits)
    moreover have "n \<le> length sqlite_retry_delays \<longleftrightarrow> n < 5" for n by (auto simp: sqlite_retry_delays_def)
    ultimately show ?thesis
      unfolding retry_sqlite_contention_def retry_loop_Inr contended_def by (auto simp: list_all_iff)
  qed
  have n: "snd (retry_sqlite_contention (\<lambda>i. case eng i of None \<Rightarrow> Inr () | Some e \<Rightarrow> Inl e)) \<le> 5"
    using retry_loop_count[of "\<lambda>i. case eng i of None \<Rightarrow> Inr () | Some e \<Rightarrow> Inl e" 0 sqlite_retry_delays]
    unfolding retry_sqlite_contention_def sqlite_retry_delays_def by simp
  show ?thesis
  proof (cases "\<exists>n < 5. eng n = None \<and> contended eng n")
    case True
    with r have "fst (retry_sqlite_contention ?op) = Inr (sql_exec to_string now p tbl)" by blast
    then have "sqlite_upsert eng show to_string now p tbl = (Inr (), sql_exec to_string now p tbl)"
      by (simp add: sqlite_upsert_def)
    with True n show ?thesis by simp
  next
    case False
    with r obtain e where "fst (retry_sqlite_contention ?op) = Inl e"
      by (cases "fst (retry_sqlite_contention ?op)") blast+
    then have "sqlite_upsert eng show to_string now p tbl = (Inl (Persist (show e)), tbl)"
      by (simp add: sqlite_upsert_def)
    with False n show ?thesis by simp
  qed
qed

end
