(* ===== verification/Connector.thy ===== *)
theory Connector
  imports Server
begin

text \<open>
  \<^verbatim>\<open>src/src/connector.rs\<close>: one outbound connection through a rotating proxy. The parsed URI
  (\<^verbatim>\<open>hyper::Uri\<close>) is an argument; clocks and networks are given per attempt as for the server.
\<close>

section \<open>Definitions\<close>

record uri =
  ur_scheme :: "string option"
  ur_host :: "string option"
  ur_port :: "u16 option"

datatype connect_err = NoHost | NoProxyAvailable | AllFailed string

definition tunnel_proto :: "proxy \<Rightarrow> scheme \<Rightarrow> proto option" where
  "tunnel_proto p sc =
     (case find (\<lambda>pr. p_types p pr \<noteq> None) [Socks5, Socks4, Connect80] of
        Some pr \<Rightarrow> Some pr
      | None \<Rightarrow> if sc = SHttp \<and> p_types p Http \<noteq> None then Some Http else None)"

definition dial :: "net \<Rightarrow> proxy \<Rightarrow> proto \<Rightarrow> target \<Rightarrow> proxy_error + stream" where
  "dial net p pr t =
     (case n_dial net of
        DialTimeout \<Rightarrow> Inl Timeout
      | DialRefused \<Rightarrow> Inl ConnFailed
      | Dialed \<Rightarrow> fst (negotiate net pr t (p_auth p) (n_in net)))"

record dial_env =
  d_clk :: "nat \<Rightarrow> nat \<Rightarrow> instant"
  d_probe :: "nat \<Rightarrow> nat \<Rightarrow> proxy \<Rightarrow> net"
  d_now :: "nat \<Rightarrow> instant"
  d_net :: "nat \<Rightarrow> proxy \<Rightarrow> net"

text \<open>The retry loop after \<open>a\<close> attempts with the second argument left; \<open>None\<close> is the suspension on an
  empty pool whose source is not exhausted.\<close>

fun connect_loop :: "dial_env \<Rightarrow> scheme \<Rightarrow> client_key \<Rightarrow> target \<Rightarrow> proxy_error option \<Rightarrow> nat \<Rightarrow> nat \<Rightarrow> pool
    \<Rightarrow> (connect_err + stream) option \<times> pool" where
  "connect_loop de sc key t lst a 0 pl =
     (Some (Inl (AllFailed (case lst of Some e \<Rightarrow> err_str e | None \<Rightarrow> ''all proxies failed''))), pl)"
| "connect_loop de sc key t lst a (Suc r) pl =
     (case get (d_clk de a) (\<lambda>n p. verify_live (config pl) (d_probe de a n p) p) quiet sc key pl of
        (NoProxies, pl1) \<Rightarrow> (Some (Inl NoProxyAvailable), pl1)
      | (Waiting _, pl1) \<Rightarrow> (None, pl1)
      | (Leased p, pl1) \<Rightarrow>
         (case tunnel_proto p sc of
            None \<Rightarrow> connect_loop de sc key t lst (a + 1) r (put_ok p pl1)
          | Some pr \<Rightarrow>
             (case dial (d_net de a p) p pr t of
                Inr s \<Rightarrow> (Some (Inr s), put_ok (record_attempt (Some 0) None p) pl1)
              | Inl e \<Rightarrow>
                  connect_loop de sc key t (Some e) (a + 1) r
                    (put_failed (d_now de a) (record_attempt None (Some e) p) pl1))))"

definition connect :: "dial_env \<Rightarrow> (string \<Rightarrow> ip_addr option) \<Rightarrow> nat \<Rightarrow> uri \<Rightarrow> pool
    \<Rightarrow> (connect_err + stream) option \<times> pool" where
  "connect de resolve tries u pl =
     (let sc = (if ur_scheme u = Some ''https'' then SHttps else SHttp)
      in case ur_host u of
           None \<Rightarrow> (Some (Inl NoHost), pl)
         | Some raw \<Rightarrow>
             let host = bare_host raw;
                 port = (case ur_port u of Some p \<Rightarrow> p | None \<Rightarrow> if sc = SHttps then 443 else 80);
                 t = \<lparr>t_host = host, t_ip = resolve host, t_port = port\<rparr>
             in connect_loop de sc (KeyIp (V4 0 0 0 0)) t None 0 tries pl)"

record rotate_config =
  rt_max_tries :: nat
  rt_timeout :: duration

definition rotate_config_default :: rotate_config where
  "rotate_config_default = \<lparr>rt_max_tries = 3, rt_timeout = 8000000000\<rparr>"

text \<open>The connector owns the configuration; the pool and the resolver are shared. A call dials once.\<close>

definition connector_call :: "rotate_config \<Rightarrow> dial_env \<Rightarrow> (string \<Rightarrow> ip_addr option) \<Rightarrow> uri \<Rightarrow> pool
    \<Rightarrow> (connect_err + stream) option \<times> pool" where
  "connector_call cfg de resolve u pl = connect de resolve (rt_max_tries cfg) u pl"

section \<open>Properties\<close>

lemma tunnel_proto_raw: "tunnel_proto p sc = Some pr \<Longrightarrow> pr \<noteq> Https \<and> pr \<noteq> Connect25 \<and> p_types p pr \<noteq> None"
  by (auto simp: tunnel_proto_def find_Some_iff nth_Cons split: option.splits if_splits nat.splits)

fun is_plain :: "stream \<Rightarrow> bool" where
  "is_plain (Plain _) \<longleftrightarrow> True"
| "is_plain (Tls _) \<longleftrightarrow> False"

lemma negotiate_plain: "pr \<noteq> Https \<Longrightarrow> fst (negotiate net pr t c i) = Inr s \<Longrightarrow> is_plain s"
  by (cases pr) (auto simp: negotiate_def socks4_def socks5_def Let_def
      split: sum.splits prod.splits option.splits ip_addr.splits if_splits elim: socks_result.elims)

lemma dial_plain: "tunnel_proto p sc = Some pr \<Longrightarrow> dial net p pr t = Inr s \<Longrightarrow> is_plain s"
  using tunnel_proto_raw[of p sc pr] negotiate_plain[of pr net t "p_auth p" "n_in net" s]
  by (auto simp: dial_def split: dial_res.splits)

lemma connect_loop_plain: "fst (connect_loop de sc key t lst a r pl) = Some (Inr s) \<Longrightarrow> is_plain s"
proof (induction r arbitrary: lst a pl)
  case (Suc r)
  then show ?case
    by (auto split: prod.splits lease.splits option.splits sum.splits dest: dial_plain)
qed simp

text \<open>The connector never ends TLS on the caller's behalf: every stream it hands out is the plain
  tunnel, never one behind the verifier that accepts every certificate.\<close>

theorem connector_plain:
  assumes "fst (connect de resolve tries u pl) = Some (Inr s)"
  shows "is_plain s"
  using assms connect_loop_plain by (auto simp: connect_def Let_def split: option.splits)

lemma get_outcome: "get clk live quiet sc key pl = (l, pl1) \<Longrightarrow> lease_outcome pl (l, pl1)"
  using get_loop_outcome[of pl clk live sc key 0] by (simp add: get_def)

lemma connect_loop_balanced: "lp.balanced pl (snd (connect_loop de sc key t lst a r pl))"
proof (induction r arbitrary: lst a pl)
  case 0
  then show ?case by (simp add: lp.balanced_refl)
next
  case (Suc r)
  obtain l pl1 where g: "get (d_clk de a) (\<lambda>n p. verify_live (config pl) (d_probe de a n p) p) quiet sc key pl = (l, pl1)"
    by (cases "get (d_clk de a) (\<lambda>n p. verify_live (config pl) (d_probe de a n p) p) quiet sc key pl")
  note o = get_outcome[OF g]
  show ?case
  proof (cases l)
    case (Leased p)
    have b: "lp.balanced pl (lease_give f q pl1)" if "p_addr q = p_addr p" for f q
      using lease_return_balanced[OF o[unfolded Leased]] that by blast
    have "lp.balanced pl (put_ok p pl1)" "lp.balanced pl (put_ok (record_attempt (Some 0) None p) pl1)"
      "lp.balanced pl (put_failed now (record_attempt None (Some e) p) pl1)" for now e
      using b[of p None] b[of "record_attempt (Some 0) None p" None] b[of "record_attempt None (Some e) p" "Some now"]
      by (simp_all add: lease_give_def)
    then show ?thesis using Leased g lp.balanced_trans[OF _ Suc.IH]
      by (auto split: option.split sum.split)
  qed (use g o in \<open>auto simp: lease_outcome_def\<close>)
qed

text \<open>Whatever comes of a connection, the pool keeps its books: every proxy that was pooled before is
  pooled after, or was evicted and counted.\<close>

theorem connector_conserves:
  "\<exists>gone. held pl = held (snd (connect de resolve tries u pl)) + gone
     \<and> evictions (snd (connect de resolve tries u pl)) = evictions pl + of_nat (size gone)"
  using connect_loop_balanced[of pl de] lp.balanced_refl[of pl]
  by (auto simp: connect_def lp.balanced_def Let_def split: option.split)

section \<open>A better proxy without a tunnel\<close>

lemma two_ready_best:
  assumes "strategy_of (config pl) = Best" "mset (entries pl) = {#ready_entry x, ready_entry y#}"
    and "serves sc (ready_entry x)" "priority x < priority y"
  obtains pl' where "try_select now sc key pl = (Some x, pl')" "mset (entries pl') = {#ready_entry y#}"
proof -
  have se: "set (entries pl) = {ready_entry x, ready_entry y}"
    using arg_cong[OF assms(2), of set_mset] by simp
  then have ne: "list_ex (serves sc) (entries pl)" using assms(3) by (simp add: list_ex_iff)
  then have "fst (try_select now sc key pl) \<noteq> None" by (simp add: try_select_none_iff)
  then obtain p pl' where t: "try_select now sc key pl = (Some p, pl')"
    by (cases "try_select now sc key pl") auto
  have "priority p \<le> priority x" "p = x \<or> p = y"
    using best_lease[OF assms(1) t] se assms(3) by (auto simp: ready_entry_def entry_ready_def)
  then have px: "p = x" using assms(4) by auto
  obtain i where i: "i < length (entries pl)" "p = pl_proxy (entries pl ! i)" "entries pl' = swap_remove i (entries pl)"
    using t by (rule try_select_Some)
  have "entries pl ! i = ready_entry x"
  proof -
    have "entries pl ! i = ready_entry x \<or> entries pl ! i = ready_entry y" using nth_mem[OF i(1)] se by blast
    moreover have "entries pl ! i \<noteq> ready_entry y"
    proof
      assume "entries pl ! i = ready_entry y"
      then have "x = y" using i(2) px by (simp add: ready_entry_def)
      with assms(4) show False by simp
    qed
    ultimately show ?thesis by blast
  qed
  then have "mset (entries pl') = {#ready_entry y#}"
    using mset_swap_remove[OF i(1)] assms(2) i(3) by simp
  with t px that show ?thesis by blast
qed

text \<open>A proxy that has no raw tunnel for the scheme but the best priority starves the connector: it is
  returned ready and chosen again in every attempt, so the connection fails although the pool holds a
  proxy with a tunnel that is ready, whatever the number of tries.\<close>

theorem connector_starved:
  assumes "strategy_of (config pl) = Best" "verify_on_lease (config pl) = None"
    and "mset (entries pl) = {#ready_entry x, ready_entry y#}"
    and "SHttps \<in> set (schemes x)" "tunnel_proto x SHttps = None" "tunnel_proto y SHttps = Some Socks5"
    and "priority x < priority y" "\<not> unhealthy (config pl) x"
  shows "fst (connect_loop de SHttps key t None a tries pl) = Some (Inl (AllFailed ''all proxies failed''))"
  using assms(1,2,3,8)
proof (induction tries arbitrary: a pl)
  case (Suc r)
  have v: "serves SHttps (ready_entry x)" using assms(4) by (simp add: serves_def ready_entry_def)
  obtain pl1 where t: "try_select (d_clk de a 0) SHttps key pl = (Some x, pl1)" "mset (entries pl1) = {#ready_entry y#}"
    using two_ready_best[OF Suc.prems(1,3) v assms(7)] by blast
  have c: "config pl1 = config pl" using try_select_simps(1)[of "d_clk de a 0" SHttps key pl] t(1) by simp
  have g: "get (d_clk de a) (\<lambda>n p. verify_live (config pl) (d_probe de a n p) p) quiet SHttps key pl = (Leased x, pl1)"
    using t(1) Suc.prems(2) c unfolding get_def by (subst get_loop.simps) simp
  have m: "mset (entries (put_ok x pl1)) = {#ready_entry x, ready_entry y#}" "config (put_ok x pl1) = config pl"
    using t(2) c Suc.prems(4) by (simp_all add: put_ok_def put_inner_def ready_entry_def)
  have "fst (connect_loop de SHttps key t None (a + 1) r (put_ok x pl1)) = Some (Inl (AllFailed ''all proxies failed''))"
    by (rule Suc.IH) (use m Suc.prems in simp_all)
  then show ?case using g assms(5) by simp
qed simp

definition https_only :: proxy where
  "https_only = add_type Https None (proxy_new (V4 10 0 0 1) 8080 {})"

definition slow_socks :: proxy where
  "slow_socks = record_attempt (Some 1) None (add_type Socks5 None (proxy_new (V4 10 0 0 2) 1080 {}))"

definition sample_dial :: dial_env where
  "sample_dial = \<lparr>d_clk = (\<lambda>_ _. 0), d_probe = (\<lambda>_ _ _. sample_net []), d_now = (\<lambda>_. 0), d_net = (\<lambda>_ _. sample_net [])\<rparr>"

lemma starved_priorities: "priority https_only < priority slow_socks"
proof -
  have "priority https_only = (0, 0)"
    by (simp add: https_only_def add_type_def proxy_new_def priority_def error_rate_def avg_resp_time_def
        mean2_def errors_total_def)
  moreover have "priority slow_socks = (0, 1)"
    by (simp add: slow_socks_def record_attempt_def add_type_def proxy_new_def priority_def error_rate_def
        avg_resp_time_def mean2_def errors_total_def)
  ultimately show ?thesis by (simp add: less_prod_def)
qed

theorem connector_starved_witness:
  "fst (connect_loop sample_dial SHttps (KeyIp (V4 0 0 0 0)) sample_target None 0 50
     (from_proxies [https_only, slow_socks] pool_config_default)) = Some (Inl (AllFailed ''all proxies failed''))"
proof (rule connector_starved)
  let ?pl = "from_proxies [https_only, slow_socks] pool_config_default"
  show "strategy_of (config ?pl) = Best" "verify_on_lease (config ?pl) = None"
    by (simp_all add: from_proxies_def pool_config_default_def)
  show "mset (entries ?pl) = {#ready_entry https_only, ready_entry slow_socks#}"
    by (simp add: from_proxies_def country_ok_def pool_config_default_def)
  show "SHttps \<in> set (schemes https_only)" "tunnel_proto https_only SHttps = None"
    "tunnel_proto slow_socks SHttps = Some Socks5"
    by (simp_all add: schemes_iff tunnel_proto_def https_only_def slow_socks_def add_type_def proxy_new_def)
  show "priority https_only < priority slow_socks" by (rule starved_priorities)
  show "\<not> unhealthy (config ?pl) https_only"
    by (simp add: unhealthy_def from_proxies_def pool_config_default_def https_only_def add_type_def proxy_new_def)
qed

lemma sample_connect: "connect_loop sample_dial SHttps (KeyIp (V4 0 0 0 0)) t None 0 (Suc 0)
    (from_proxies [slow_socks] pool_config_default)
  = (Some (Inr (Plain ([], REof))), snd (connect_loop sample_dial SHttps (KeyIp (V4 0 0 0 0)) t None 0 (Suc 0)
    (from_proxies [slow_socks] pool_config_default)))"
proof -
  let ?pl = "from_proxies [slow_socks] pool_config_default" and ?k = "KeyIp (V4 0 0 0 0)"
  have e: "entries ?pl = [ready_entry slow_socks]" and c: "config ?pl = pool_config_default"
    by (simp_all add: from_proxies_def country_ok_def pool_config_default_def)
  have v: "serves SHttps (ready_entry slow_socks)"
    by (simp add: serves_def ready_entry_def schemes_iff slow_socks_def add_type_def proxy_new_def)
  then obtain p pl1 where t: "try_select 0 SHttps ?k ?pl = (Some p, pl1)"
    using try_select_none_iff[of 0 SHttps ?k ?pl] e by (cases "try_select 0 SHttps ?k ?pl") auto
  then have p: "p = slow_socks" using e by (auto elim!: try_select_Some simp: ready_entry_def)
  have c1: "config pl1 = pool_config_default" using try_select_simps(1)[of 0 SHttps ?k ?pl] t c by simp
  have "get (d_clk sample_dial 0) (\<lambda>n p. verify_live (config ?pl) (d_probe sample_dial 0 n p) p) quiet SHttps ?k ?pl
      = (Leased slow_socks, pl1)"
    using t p c1 unfolding get_def by (subst get_loop.simps) (simp add: sample_dial_def pool_config_default_def)
  moreover have "tunnel_proto slow_socks SHttps = Some Socks5"
    by (simp add: tunnel_proto_def slow_socks_def add_type_def)
  moreover have "dial (d_net sample_dial 0 slow_socks) slow_socks Socks5 t = Inr (Plain ([], REof))"
    by (simp add: dial_def sample_dial_def sample_net_def negotiate_def socks5_def Let_def)
  ultimately have "fst (connect_loop sample_dial SHttps ?k t None 0 (Suc 0) ?pl) = Some (Inr (Plain ([], REof)))"
    by simp
  then show ?thesis by (intro prod_eqI) (simp_all only: fst_conv snd_conv)
qed

theorem connector_plain_witness: "is_plain (Plain ([], REof))"
proof (rule connector_plain)
  show "fst (connect sample_dial (\<lambda>_. None) (Suc 0) \<lparr>ur_scheme = Some ''https'', ur_host = Some ''h'', ur_port = None\<rparr>
      (from_proxies [slow_socks] pool_config_default)) = Some (Inr (Plain ([], REof)))"
    by (simp only: connect_def Let_def uri.select_convs option.case refl if_True) (subst sample_connect, simp)
qed

end
