(* ===== verification/Commands.thy ===== *)
theory Commands
  imports Cli Serving Mcp Persist_Spec Connector
begin

text \<open>
  The commands of \<^verbatim>\<open>src/src/bin/proxybroker.rs\<close> as they run: \<open>main\<close>, \<open>run\<close> with the construction of the broker
  (\<open>BrokerBuilder\<close> of \<^verbatim>\<open>src/src/broker.rs\<close>, \<open>GeoDb\<close> of \<^verbatim>\<open>src/src/geo.rs\<close>), and the bodies of \<open>grab\<close>, \<open>find\<close>,
  \<open>check\<close>, \<open>serve\<close>, \<open>mcp\<close> and \<open>top\<close> over the standard streams, the files and the databases behind \<open>--state\<close>.

  A command is a function of that state. An error is a value, and what was written before it stays
  written. \<open>find\<close> and \<open>check\<close> take the interleaving of their pipeline; the value \<open>None\<close> is a command that
  has not returned yet. \<open>serve\<close>, \<open>mcp\<close> and \<open>top\<close> end in the state in which they serve; what happens from
  then on is in \<open>Serving\<close>, \<open>Mcp\<close> and \<open>Dashboard\<close>. Failing writes (a full disk, a closed pipe) and the
  progress bar are not modelled.
\<close>

section \<open>State and errors\<close>

text \<open>The databases by the \<open>--state\<close> argument; a new SQLite file is a database without a table.\<close>

record sys =
  sy_stdout :: string
  sy_stderr :: string
  sy_files :: "string \<Rightarrow> string option"
  sy_sqlite :: "string \<Rightarrow> sqlite_db"
  sy_redis :: "string \<Rightarrow> redis_db"

datatype cmd_error = Lib error | Os string | Plain string

fun error_text :: "error \<Rightarrow> string" where
  "error_text NoJudges = ''no working judges were found''"
| "error_text NoTypes = ''at least one proxy type is required''"
| "error_text NoProviders = ''no providers configured''"
| "error_text ExtIpUnknown = ''could not determine this machine's external IP address''"
| "error_text (Config s) = ''invalid provider configuration: '' @ s"
| "error_text (Io s) = s"
| "error_text (Persist s) = ''persistence error: '' @ s"

fun cmd_message :: "cmd_error \<Rightarrow> string" where
  "cmd_message (Lib e) = error_text e"
| "cmd_message (Os s) = s"
| "cmd_message (Plain s) = s"

type_synonym 'a cmd = "sys \<Rightarrow> (cmd_error + 'a) \<times> sys"

definition ret :: "'a \<Rightarrow> 'a cmd" where
  "ret x y = (Inr x, y)"

definition fail :: "cmd_error \<Rightarrow> 'a cmd" where
  "fail e y = (Inl e, y)"

text \<open>The question mark operator.\<close>

definition and_then :: "'a cmd \<Rightarrow> ('a \<Rightarrow> 'b cmd) \<Rightarrow> 'b cmd" where
  "and_then c f y = (case c y of (Inl e, y') \<Rightarrow> (Inl e, y') | (Inr x, y') \<Rightarrow> f x y')"

definition eprint :: "string \<Rightarrow> unit cmd" where
  "eprint s y = (Inr (), y\<lparr>sy_stderr := sy_stderr y @ s\<rparr>)"

definition eprintln :: "string \<Rightarrow> unit cmd" where
  "eprintln s = eprint (s @ [LF])"

section \<open>What is outside\<close>

text \<open>A MaxMind reader: the record of an address decoded as a city and as a network.\<close>

record geo_db =
  gr_city :: "ip_addr \<Rightarrow> city_record option"
  gr_asn :: "ip_addr \<Rightarrow> asn_record option"

record builds =
  bd_stores :: features
  bd_persist :: bool
  bd_watch :: bool
  bd_metrics :: bool
  bd_geo :: bool
  bd_geo_bundled :: bool

text \<open>JSON and YAML, the texts of the errors of the operating system and of the engines, which calls fail
  and with what text, the network, the registry of providers and the bundled database. \<open>ev_order\<close> is the
  order in which the fetches complete, \<open>ev_engine i j\<close> the failure of the \<open>j\<close>-th execution of the \<open>i\<close>-th
  upsert, \<open>ev_clash\<close> what two handles on one file leave in it.\<close>

record cmd_env =
  ev_build :: builds
  ev_to_string :: "json \<Rightarrow> string"
  ev_from_str :: "string \<Rightarrow> json option"
  ev_stats_json :: "stats \<Rightarrow> string"
  ev_show_f64 :: "real \<Rightarrow> string"
  ev_debug :: "string \<Rightarrow> string"
  ev_yaml :: "string \<Rightarrow> provider_spec option"
  ev_stdin :: "string + string"
  ev_no_file :: "string \<Rightarrow> string"
  ev_bad_lines :: "string \<Rightarrow> string"
  ev_bad_addr :: "string \<Rightarrow> string"
  ev_create :: "string \<Rightarrow> string option"
  ev_clash :: "string \<Rightarrow> string \<Rightarrow> string"
  ev_connect :: "string \<Rightarrow> string option"
  ev_no_table :: string
  ev_engine :: "nat \<Rightarrow> nat \<Rightarrow> sql_error option"
  ev_engine_text :: "sql_error \<Rightarrow> string"
  ev_clock :: "nat \<Rightarrow> int"
  ev_dirs :: "string \<Rightarrow> (string \<times> string option) list option"
  ev_mmdb :: "string \<Rightarrow> string + geo_db"
  ev_bundled_geo :: "string + geo_db"
  ev_registry :: "provider_spec list"
  ev_captures :: captures
  ev_get :: "string \<Rightarrow> nat \<Rightarrow> string option"
  ev_order :: "provider_spec list \<Rightarrow> provider_spec list"
  ev_world :: Broker.world
  ev_dns_init :: "string option"
  ev_dns_build :: "string option"
  ev_socket :: "sock_call \<Rightarrow> string option"
  ev_local :: "sock_addr \<Rightarrow> sock_addr"
  ev_metrics_bind :: "sock_addr \<Rightarrow> string option"
  ev_watch_init :: "string \<Rightarrow> string option"

definition read_file :: "cmd_env \<Rightarrow> string \<Rightarrow> string cmd" where
  "read_file ev path y =
     (case sy_files y path of Some text \<Rightarrow> (Inr text, y) | None \<Rightarrow> (Inl (Os (ev_no_file ev path)), y))"

text \<open>\<open>File::create\<close>: the file is empty afterwards, whatever it held.\<close>

definition create_file :: "cmd_env \<Rightarrow> string \<Rightarrow> unit cmd" where
  "create_file ev path y =
     (case ev_create ev path of Some e \<Rightarrow> (Inl (Os e), y) | None \<Rightarrow> (Inr (), y\<lparr>sy_files := (sy_files y)(path := Some [])\<rparr>))"

definition load_ndjson :: "cmd_env \<Rightarrow> string \<Rightarrow> proxy list cmd" where
  "load_ndjson ev path = and_then (read_file ev path) (\<lambda>text.
     case read_ndjson (ev_from_str ev) text of Some ps \<Rightarrow> ret ps | None \<Rightarrow> fail (Os (ev_bad_lines ev text)))"

section \<open>The broker\<close>

text \<open>The HTTP client and the resolver of a broker are the network of \<open>cmd_env\<close>; the commands set neither.\<close>

definition geo_open :: "cmd_env \<Rightarrow> string \<Rightarrow> geo_db cmd" where
  "geo_open ev path = and_then (read_file ev path) (\<lambda>bytes.
     case ev_mmdb ev bytes of Inr db \<Rightarrow> ret db | Inl e \<Rightarrow> fail (Os e))"

record broker_builder =
  bb_providers :: "provider_spec list option"
  bb_geo :: "geo_db option"
  bb_no_geo :: bool
  bb_asn :: "geo_db option"

record broker =
  bk_providers :: "provider_spec list"
  bk_geo :: geo_dbs
  bk_on_checked :: "store_choice option"

definition broker_builder_default :: broker_builder where
  "broker_builder_default = \<lparr>bb_providers = None, bb_geo = None, bb_no_geo = False, bb_asn = None\<rparr>"

definition bb_set_providers :: "provider_spec list \<Rightarrow> broker_builder \<Rightarrow> broker_builder" where
  "bb_set_providers ps b = b\<lparr>bb_providers := Some ps\<rparr>"

definition bb_set_geo :: "geo_db \<Rightarrow> broker_builder \<Rightarrow> broker_builder" where
  "bb_set_geo db b = b\<lparr>bb_geo := Some db\<rparr>"

definition bb_without_geo :: "broker_builder \<Rightarrow> broker_builder" where
  "bb_without_geo b = b\<lparr>bb_no_geo := True\<rparr>"

definition bb_set_asn_db :: "geo_db \<Rightarrow> broker_builder \<Rightarrow> broker_builder" where
  "bb_set_asn_db db b = b\<lparr>bb_asn := Some db\<rparr>"

definition ok_of :: "'e + 'a \<Rightarrow> 'a option" where
  "ok_of r = (case r of Inl _ \<Rightarrow> None | Inr x \<Rightarrow> Some x)"

definition build_broker :: "cmd_env \<Rightarrow> broker_builder \<Rightarrow> broker" where
  "build_broker ev b =
     (let geo = (case (bb_geo b, bb_no_geo b) of
            (Some db, _) \<Rightarrow> Some db
          | (None, True) \<Rightarrow> None
          | (None, False) \<Rightarrow> if bd_geo_bundled (ev_build ev) then ok_of (ev_bundled_geo ev) else None)
      in \<lparr>bk_providers = (case bb_providers b of Some ps \<Rightarrow> ps | None \<Rightarrow> ev_registry ev),
          bk_geo = (if bd_geo (ev_build ev) then
              \<lparr>gd_geo = map_option (\<lambda>db. geo_lookup (gr_city db)) geo, gd_asn = map_option (\<lambda>db. lookup_asn (gr_asn db)) (bb_asn b)\<rparr>
            else \<lparr>gd_geo = None, gd_asn = None\<rparr>),
          bk_on_checked = None\<rparr>)"

definition with_observer :: "store_choice option \<Rightarrow> broker \<Rightarrow> broker" where
  "with_observer st bk = bk\<lparr>bk_on_checked := st\<rparr>"

text \<open>The batches of candidates that a run scrapes.\<close>

definition batches_of :: "cmd_env \<Rightarrow> broker \<Rightarrow> candidate list list" where
  "batches_of ev bk = map (fetch (ev_captures ev) (ev_get ev)) (ev_order ev (bk_providers bk))"

definition broker_find :: "cmd_env \<Rightarrow> broker \<Rightarrow> find_query \<Rightarrow> error + cs_env \<times> cs_state" where
  "broker_find ev bk q = find_run (ev_world ev) (bk_geo bk) (bk_on_checked bk \<noteq> None) q (batches_of ev bk)"

definition broker_check :: "cmd_env \<Rightarrow> broker \<Rightarrow> proxy list \<Rightarrow> find_query \<Rightarrow> error + cs_env \<times> cs_state" where
  "broker_check ev bk ps q = check_run (ev_world ev) (bk_geo bk) (bk_on_checked bk \<noteq> None) q ps"

definition lib :: "error + 'a \<Rightarrow> 'a cmd" where
  "lib r = (case r of Inl e \<Rightarrow> fail (Lib e) | Inr x \<Rightarrow> ret x)"

section \<open>The store behind --state\<close>

text \<open>\<open>SqliteStore::open\<close>, \<open>RedisStore::open\<close>, \<open>MemoryStore::new\<close>. The choice is the handle: the state of a
  durable store is the database.\<close>

definition open_store :: "cmd_env \<Rightarrow> store_choice \<Rightarrow> unit cmd" where
  "open_store ev c y =
     (case c of
        UseMemory \<Rightarrow> (Inr (), y)
      | UseSqlite s \<Rightarrow>
          (case ev_connect ev s of
             Some e \<Rightarrow> (Inl (Lib (Persist e)), y)
           | None \<Rightarrow> (Inr (), y\<lparr>sy_sqlite := (sy_sqlite y)(s := migrate (sy_sqlite y s))\<rparr>))
      | UseRedis s \<Rightarrow>
          (case ev_connect ev s of
             Some e \<Rightarrow> (Inl (Lib (Persist e)), y)
           | None \<Rightarrow>
              (case redis_open (ev_debug ev) (sy_redis y s) of
                 (Inl e, db) \<Rightarrow> (Inl (Lib e), y\<lparr>sy_redis := (sy_redis y)(s := db)\<rparr>)
               | (Inr _, db) \<Rightarrow> (Inr (), y\<lparr>sy_redis := (sy_redis y)(s := db)\<rparr>))))"

definition load_store :: "cmd_env \<Rightarrow> store_choice \<Rightarrow> proxy list cmd" where
  "load_store ev c y =
     (case c of
        UseMemory \<Rightarrow> (Inr [], y)
      | UseSqlite s \<Rightarrow>
          (case db_table (sy_sqlite y s) of
             Some t \<Rightarrow> (Inr (sql_load (ev_from_str ev) t), y)
           | None \<Rightarrow> (Inl (Lib (Persist (ev_no_table ev))), y))
      | UseRedis s \<Rightarrow> (Inr (redis_load (ev_from_str ev) (sy_redis y s)), y))"

text \<open>The observer of the \<open>i\<close>-th finished check: an upsert that fails is logged and leaves the store as it is.\<close>

definition observe :: "cmd_env \<Rightarrow> store_choice \<Rightarrow> nat \<Rightarrow> proxy \<Rightarrow> sys \<Rightarrow> sys" where
  "observe ev c i p y =
     (case c of
        UseMemory \<Rightarrow> y
      | UseSqlite s \<Rightarrow>
          (case db_table (sy_sqlite y s) of
             Some t \<Rightarrow> y\<lparr>sy_sqlite := (sy_sqlite y)(s := (sy_sqlite y s)\<lparr>db_table :=
                 Some (snd (sqlite_upsert (ev_engine ev i) (ev_engine_text ev) (ev_to_string ev) (ev_clock ev i) p t))\<rparr>)\<rparr>
           | None \<Rightarrow> y)
      | UseRedis s \<Rightarrow>
          if ev_engine ev i 0 \<noteq> None then y
          else y\<lparr>sy_redis := (sy_redis y)(s := redis_upsert (ev_to_string ev) (ev_clock ev i) p (sy_redis y s))\<rparr>)"

fun observe_from :: "cmd_env \<Rightarrow> store_choice \<Rightarrow> nat \<Rightarrow> proxy list \<Rightarrow> sys \<Rightarrow> sys" where
  "observe_from ev c i [] y = y"
| "observe_from ev c i (p # ps) y = observe_from ev c (i + 1) ps (observe ev c i p y)"

definition observe_all :: "cmd_env \<Rightarrow> store_choice option \<Rightarrow> proxy list \<Rightarrow> sys \<Rightarrow> sys" where
  "observe_all ev st ps y = (case st of None \<Rightarrow> y | Some c \<Rightarrow> observe_from ev c 0 ps y)"

definition has_backend :: "cmd_env \<Rightarrow> bool" where
  "has_backend ev \<longleftrightarrow> ft_sqlite (bd_stores (ev_build ev)) \<or> ft_redis (bd_stores (ev_build ev))"

definition no_backend_text :: string where
  "no_backend_text = ''--state requires a store backend; rebuild with --features store-sqlite (or store-redis)''"

definition open_state_cmd :: "cmd_env \<Rightarrow> broker \<Rightarrow> string option \<Rightarrow> (broker \<times> proxy list) cmd" where
  "open_state_cmd ev bk spec =
     (if has_backend ev then
        (case spec of
           None \<Rightarrow> ret (bk, [])
         | Some s \<Rightarrow>
            (case select_store (bd_stores (ev_build ev)) s of
               Inl e \<Rightarrow> fail (Plain e)
             | Inr c \<Rightarrow> and_then (open_store ev c) (\<lambda>_. and_then (load_store ev c) (\<lambda>history. ret (with_observer (Some c) bk, history)))))
      else and_then (if spec \<noteq> None then eprintln no_backend_text else ret ()) (\<lambda>_. ret (bk, [])))"

definition memory_only_text :: string where
  "memory_only_text = ''re-checking into memory only (no durable --state); scores reset on restart''"

definition recheck_store_cmd :: "cmd_env \<Rightarrow> string option \<Rightarrow> store_choice cmd" where
  "recheck_store_cmd ev state =
     (case recheck_store (bd_stores (ev_build ev)) state of
        Inl e \<Rightarrow> fail (Plain e)
      | Inr UseMemory \<Rightarrow> and_then (eprintln memory_only_text) (\<lambda>_. ret UseMemory)
      | Inr c \<Rightarrow> and_then (open_store ev c) (\<lambda>_. ret c))"

section \<open>Writing a stream\<close>

text \<open>The sinks are created first, the save file before the output file.\<close>

definition create_opt :: "cmd_env \<Rightarrow> string option \<Rightarrow> unit cmd" where
  "create_opt ev path = (case path of Some f \<Rightarrow> create_file ev f | None \<Rightarrow> ret ())"

definition create_sinks :: "cmd_env \<Rightarrow> string option \<Rightarrow> string option \<Rightarrow> unit cmd" where
  "create_sinks ev outfile save = and_then (create_opt ev save) (\<lambda>_. create_opt ev outfile)"

definition put_file :: "string \<Rightarrow> string \<Rightarrow> sys \<Rightarrow> sys" where
  "put_file path text y = y\<lparr>sy_files := (sy_files y)(path := Some text)\<rparr>"

definition wrote_text :: "nat \<Rightarrow> string \<Rightarrow> string" where
  "wrote_text n path = ''wrote '' @ show_nat n @ '' proxies to '' @ path"

text \<open>The rest of \<open>write_stream\<close>, for a stream that gives these proxies and ends.\<close>

definition fill_sinks :: "cmd_env \<Rightarrow> out_format \<Rightarrow> string option \<Rightarrow> string option \<Rightarrow> string option \<Rightarrow> proxy list \<Rightarrow> unit cmd" where
  "fill_sinks ev fmt tmpl outfile save ps y =
     (let k = write_stream (ev_to_string ev) fmt tmpl (save \<noteq> None) ps;
          y1 = (case (save, sk_saved k) of (Some f, Some text) \<Rightarrow> put_file f text y | _ \<Rightarrow> y)
      in case outfile of
           None \<Rightarrow> (Inr (), y1\<lparr>sy_stdout := sy_stdout y1 @ sk_out k\<rparr>)
         | Some f \<Rightarrow>
            let text = (case sk_saved k of Some saved \<Rightarrow> if save = Some f then ev_clash ev (sk_out k) saved else sk_out k | None \<Rightarrow> sk_out k)
            in eprintln (wrote_text (sk_count k) f) (put_file f text y1))"

definition emit :: "cmd_env \<Rightarrow> out_format \<Rightarrow> string option \<Rightarrow> string option \<Rightarrow> string option \<Rightarrow> proxy list \<Rightarrow> unit cmd" where
  "emit ev fmt tmpl outfile save ps = and_then (create_sinks ev outfile save) (\<lambda>_. fill_sinks ev fmt tmpl outfile save ps)"

definition stats_text :: "cmd_env \<Rightarrow> stats_format \<Rightarrow> stats \<Rightarrow> string" where
  "stats_text ev f s = (case f of StText \<Rightarrow> LF # display_stats s | StJson \<Rightarrow> ev_stats_json ev s @ [LF])"

text \<open>The summary of the checked proxies, which always exists (\<open>Stats\<close>).\<close>

definition show_stats :: "cmd_env \<Rightarrow> bool \<Rightarrow> stats_format \<Rightarrow> proxy list \<Rightarrow> unit cmd" where
  "show_stats ev on f ps =
     (if on then (case stats_from_proxies ps of Some s \<Rightarrow> eprint (stats_text ev f s) | None \<Rightarrow> ret ()) else ret ())"

section \<open>grab, find, check\<close>

definition grab_cmd :: "cmd_env \<Rightarrow> broker \<Rightarrow> grab_args \<Rightarrow> unit cmd" where
  "grab_cmd ev bk a =
     emit ev (ga_format a) (ga_output_format a) (ga_outfile a) None
       (grab_task (bk_geo bk) (\<lambda>_. False) (grab_cmd_query a) (batches_of ev bk))"

text \<open>The stream of the pipeline has ended for its reader: every sender is gone and nothing is queued.\<close>

definition stream_over :: "cs_state \<Rightarrow> bool" where
  "stream_over s \<longleftrightarrow> cs_phase s = Ended \<and> \<not> cs_gone s \<and> cs_got s = length (cs_out s)"

text \<open>The common end of \<open>find\<close> and \<open>check\<close>. The pipeline runs while the sinks are created and filled, and
  its observer writes to the store.\<close>

definition write_checked :: "cmd_env \<Rightarrow> store_choice option \<Rightarrow> out_format \<Rightarrow> string option \<Rightarrow> string option \<Rightarrow> string option
    \<Rightarrow> bool \<Rightarrow> stats_format \<Rightarrow> cs_state \<Rightarrow> sys \<Rightarrow> ((cmd_error + unit) \<times> sys) option" where
  "write_checked ev st fmt tmpl outfile save on sf s y =
     (case create_sinks ev outfile save (observe_all ev st (cs_seen s) y) of
        (Inl e, y') \<Rightarrow> Some (Inl e, y')
      | (Inr _, y') \<Rightarrow>
         if \<not> stream_over s then None
         else Some (and_then (fill_sinks ev fmt tmpl outfile save (cs_out s)) (\<lambda>_. show_stats ev on sf (cs_stats s)) y'))"

definition find_cmd :: "cmd_env \<Rightarrow> broker \<Rightarrow> find_args \<Rightarrow> act list \<Rightarrow> sys \<Rightarrow> ((cmd_error + unit) \<times> sys) option" where
  "find_cmd ev bk0 a acts y =
     (case open_state_cmd ev bk0 (fa_state a) y of
        (Inl e, y1) \<Rightarrow> Some (Inl e, y1)
      | (Inr (bk, _), y1) \<Rightarrow>
         (case broker_find ev bk (find_cmd_query a) of
            Inl e \<Rightarrow> Some (Inl (Lib e), y1)
          | Inr (e, s0) \<Rightarrow>
             (case cs_run e acts s0 of None \<Rightarrow> None
              | Some s \<Rightarrow> write_checked ev (bk_on_checked bk) (fa_format a) (fa_output_format a) (fa_outfile a) (fa_save a)
                  (fa_show_stats a) (fa_stats_format a) s y1)))"

definition check_loaded :: "cmd_env \<Rightarrow> check_args \<Rightarrow> string \<Rightarrow> unit cmd" where
  "check_loaded ev a path = and_then (load_ndjson ev path) (\<lambda>loaded.
     and_then (emit ev (ca_format a) (ca_output_format a) (ca_outfile a) (ca_save a) loaded)
       (\<lambda>_. show_stats ev (ca_show_stats a) (ca_stats_format a) loaded))"

definition input_text :: "cmd_env \<Rightarrow> string option \<Rightarrow> string cmd" where
  "input_text ev infile =
     (case infile of Some path \<Rightarrow> read_file ev path
      | None \<Rightarrow> (case ev_stdin ev of Inr s \<Rightarrow> ret s | Inl e \<Rightarrow> fail (Os e)))"

definition check_cmd :: "cmd_env \<Rightarrow> broker \<Rightarrow> check_args \<Rightarrow> act list \<Rightarrow> sys \<Rightarrow> ((cmd_error + unit) \<times> sys) option" where
  "check_cmd ev bk a acts y =
     (case ca_load a of
        Some path \<Rightarrow> Some (check_loaded ev a path y)
      | None \<Rightarrow>
         (case input_text ev (ca_infile a) y of
            (Inl e, y1) \<Rightarrow> Some (Inl e, y1)
          | (Inr text, y1) \<Rightarrow>
             let ps = parse_proxy_lines text;
                 y2 = (if ps = [] then snd (eprintln ''no proxy addresses parsed from input'' y1) else y1)
             in case broker_check ev bk ps (check_cmd_query a) of
                  Inl e \<Rightarrow> Some (Inl (Lib e), y2)
                | Inr (e, s0) \<Rightarrow>
                   (case cs_run e acts s0 of None \<Rightarrow> None
                    | Some s \<Rightarrow> write_checked ev (bk_on_checked bk) (ca_format a) (ca_output_format a) (ca_outfile a) (ca_save a)
                        (ca_show_stats a) (ca_stats_format a) s y2)))"

section \<open>serve, mcp, top\<close>

text \<open>A pool that is being filled: what its importer reads first, and the run of \<open>find\<close> it reads then.\<close>

record filling =
  fl_pool :: pool
  fl_history :: "proxy list"
  fl_find :: "(cs_env \<times> cs_state) option"

record served =
  sd_want :: "auth_expect option"
  sd_serving :: serving
  sd_fill :: filling
  sd_observer :: "store_choice option"
  sd_metrics :: "sock_addr option"
  sd_recheck :: "(checker \<times> store_choice \<times> recheck_config) option"
  sd_watch :: "string option"

definition spawn_fill :: "cmd_env \<Rightarrow> broker \<Rightarrow> find_query \<Rightarrow> proxy list \<Rightarrow> pool_config \<Rightarrow> filling cmd" where
  "spawn_fill ev bk q history cfg = and_then (lib (broker_find ev bk q)) (\<lambda>run.
     ret \<lparr>fl_pool = spawned cfg, fl_history = history, fl_find = Some run\<rparr>)"

definition loaded_text :: "nat \<Rightarrow> string \<Rightarrow> string" where
  "loaded_text n path = ''loaded '' @ show_nat n @ '' proxies from '' @ path"

definition serve_fill :: "cmd_env \<Rightarrow> broker \<Rightarrow> serve_args \<Rightarrow> proxy list \<Rightarrow> filling cmd" where
  "serve_fill ev bk a history =
     (case sa_load a of
        Some path \<Rightarrow> and_then (load_ndjson ev path) (\<lambda>loaded.
          and_then (eprintln (loaded_text (length loaded) path)) (\<lambda>_.
            ret \<lparr>fl_pool = from_proxies (union_dedup history loaded) (pool_config_of a), fl_history = [], fl_find = None\<rparr>))
      | None \<Rightarrow> spawn_fill ev bk (serve_fill_query a) history (pool_config_of a))"

definition show_sock_addr :: "sock_addr \<Rightarrow> string" where
  "show_sock_addr a =
     (case fst a of V4 b c d e \<Rightarrow> show_v4 b c d e @ '':'' @ show_word (snd a)
      | V6 w \<Rightarrow> ''['' @ show_v6 w @ '']:'' @ show_word (snd a))"

definition start_metrics :: "cmd_env \<Rightarrow> sock_addr option \<Rightarrow> sock_addr option cmd" where
  "start_metrics ev m =
     (case (bd_metrics (ev_build ev), m) of
        (True, Some a) \<Rightarrow>
          (case ev_metrics_bind ev a of
             Some e \<Rightarrow> fail (Os e)
           | None \<Rightarrow> and_then (eprintln (''metrics on '' @ show_sock_addr (ev_local ev a))) (\<lambda>_. ret (Some (ev_local ev a))))
      | _ \<Rightarrow> ret None)"

definition start_recheck :: "cmd_env \<Rightarrow> serve_args \<Rightarrow> (checker \<times> store_choice \<times> recheck_config) option cmd" where
  "start_recheck ev a =
     (if bd_persist (ev_build ev) \<and> sa_recheck a then
        and_then (recheck_store_cmd ev (sa_state a)) (\<lambda>c.
          and_then (lib (build_checker (ev_world ev) (serve_query a))) (\<lambda>ck.
            and_then (eprintln (''adaptive re-checking enabled (rate '' @ ev_show_f64 ev (sa_recheck_rate a) @ ''/s)'')) (\<lambda>_.
              ret (Some (ck, c, recheck_config_of a)))))
      else ret None)"

definition start_watch :: "cmd_env \<Rightarrow> serve_args \<Rightarrow> string option cmd" where
  "start_watch ev a =
     (if bd_watch (ev_build ev) \<and> sa_watch a then
        (case sa_load a of
           Some path \<Rightarrow> and_then (eprintln (''live-reloading '' @ path @ '' on change'')) (\<lambda>_.
             case ev_watch_init ev path of Some e \<Rightarrow> fail (Os e) | None \<Rightarrow> ret (Some path))
         | None \<Rightarrow> and_then (eprintln ''--watch requires --load; live-reload disabled'') (\<lambda>_. ret None))
      else ret None)"

definition warn_features :: "cmd_env \<Rightarrow> serve_args \<Rightarrow> unit cmd" where
  "warn_features ev a =
     and_then (if \<not> bd_persist (ev_build ev) \<and> sa_recheck a
         then eprintln ''--recheck requires a persistence feature; rebuild with --features persist (or store-sqlite/store-redis)'' else ret ())
       (\<lambda>_. if \<not> bd_watch (ev_build ev) \<and> sa_watch a
         then eprintln ''--watch requires the watch feature; rebuild with --features watch'' else ret ())"

definition serving_text :: "sock_addr \<Rightarrow> string" where
  "serving_text a = ''proxybroker serving on '' @ show_sock_addr a @ '' '' @ [CHR 0xE2, CHR 0x80, CHR 0x94] @ '' Ctrl-C to stop''"

definition start_server :: "cmd_env \<Rightarrow> serve_args \<Rightarrow> sock_addr \<Rightarrow> pool \<Rightarrow> (auth_expect option \<times> serving) cmd" where
  "start_server ev a sa pl =
     (case serve (ev_socket ev) sa pl (sa_min_queue a) (sa_backlog a) (sa_auth a) of
        Inl e \<Rightarrow> fail (Os e)
      | Inr x \<Rightarrow> and_then (eprintln (serving_text (ev_local ev sa))) (\<lambda>_. ret x))"

definition serve_cmd :: "cmd_env \<Rightarrow> broker \<Rightarrow> serve_args \<Rightarrow> served cmd" where
  "serve_cmd ev bk0 a =
     (case parse_sock_addr (sa_host a) of
        None \<Rightarrow> fail (Plain (ev_bad_addr ev (sa_host a)))
      | Some sa \<Rightarrow>
         and_then (open_state_cmd ev bk0 (sa_state a)) (\<lambda>(bk, history).
         and_then (serve_fill ev bk a history) (\<lambda>fl.
         and_then (lib (resolver_new (ev_dns_init ev) (ev_dns_build ev) (secs (sa_timeout a)))) (\<lambda>_.
         and_then (start_metrics ev (sa_metrics a)) (\<lambda>m.
         and_then (start_recheck ev a) (\<lambda>rc.
         and_then (start_watch ev a) (\<lambda>wt.
         and_then (warn_features ev a) (\<lambda>_.
         and_then (start_server ev a sa (fl_pool fl)) (\<lambda>(want, sv).
         ret \<lparr>sd_want = want, sd_serving = sv, sd_fill = fl, sd_observer = bk_on_checked bk, sd_metrics = m, sd_recheck = rc, sd_watch = wt\<rparr>)))))))))"

text \<open>After Ctrl-C.\<close>

definition serve_stop :: "unit cmd" where
  "serve_stop = eprintln ''shutting down''"

definition fill_config :: "fill_args \<Rightarrow> pool_config" where
  "fill_config a = pool_config_default\<lparr>countries := allow_list (la_countries a)\<rparr>"

definition mcp_text :: "nat \<Rightarrow> string" where
  "mcp_text n = ''mcp: filling pool (limit '' @ show_nat n @ ''); serving get_proxy/pool_status/report_dead over stdio''"

definition mcp_cmd :: "cmd_env \<Rightarrow> broker \<Rightarrow> fill_args \<Rightarrow> filling cmd" where
  "mcp_cmd ev bk a = and_then (spawn_fill ev bk (fill_query a) [] (fill_config a)) (\<lambda>fl.
     and_then (eprintln (mcp_text (la_limit a))) (\<lambda>_. ret fl))"

definition top_cmd :: "cmd_env \<Rightarrow> broker \<Rightarrow> fill_args \<Rightarrow> (filling \<times> duration) cmd" where
  "top_cmd ev bk0 a = and_then (open_state_cmd ev bk0 (la_state a)) (\<lambda>(bk, history).
     and_then (spawn_fill ev bk (fill_query a) history (fill_config a)) (\<lambda>fl. ret (fl, secs (la_refresh a))))"

text \<open>\<open>Broker::rotating\<close> for library users: a connector over a pool that a \<open>find\<close> is filling.\<close>

definition rotating :: "cmd_env \<Rightarrow> broker \<Rightarrow> find_query \<Rightarrow> rotate_config \<Rightarrow> error + filling \<times> rotate_config" where
  "rotating ev bk q cfg =
     (case resolver_new (ev_dns_init ev) (ev_dns_build ev) (fq_timeout q) of
        Inl e \<Rightarrow> Inl e
      | Inr _ \<Rightarrow>
         (case broker_find ev bk q of
            Inl e \<Rightarrow> Inl e
          | Inr run \<Rightarrow> Inr (\<lparr>fl_pool = spawned pool_config_default, fl_history = [], fl_find = Some run\<rparr>, cfg)))"

section \<open>main\<close>

datatype command = Grab grab_args | Find find_args | Check check_args | Serve serve_args | McpTools fill_args | Top fill_args

record cli =
  ci_geo_db :: "string option"
  ci_asn_db :: "string option"
  ci_provider_dir :: "string list"
  ci_providers_only :: bool
  ci_command :: command

definition open_opt :: "cmd_env \<Rightarrow> string option \<Rightarrow> geo_db option cmd" where
  "open_opt ev path = (case path of None \<Rightarrow> ret None | Some f \<Rightarrow> and_then (geo_open ev f) (\<lambda>db. ret (Some db)))"

definition geo_builder :: "cmd_env \<Rightarrow> cli \<Rightarrow> broker_builder \<Rightarrow> broker_builder cmd" where
  "geo_builder ev c b =
     (if bd_geo (ev_build ev) then
        and_then (open_opt ev (ci_geo_db c)) (\<lambda>g.
          and_then (open_opt ev (ci_asn_db c)) (\<lambda>asn.
            let db = (if ci_geo_db c = None then ok_of (ev_bundled_geo ev) else g);
                b = (case db of Some d \<Rightarrow> bb_set_geo d b | None \<Rightarrow> b)
            in ret (case asn of Some d \<Rightarrow> bb_set_asn_db d b | None \<Rightarrow> b)))
      else ret b)"

definition broker_of :: "cmd_env \<Rightarrow> cli \<Rightarrow> broker cmd" where
  "broker_of ev c =
     (case choose_providers (ev_registry ev) (map (\<lambda>d. load_provider_dir (ev_yaml ev) (ev_dirs ev d)) (ci_provider_dir c)) (ci_providers_only c) of
        Inl e \<Rightarrow> fail (Plain e)
      | Inr ps \<Rightarrow>
         and_then (geo_builder ev c (case ps of Some l \<Rightarrow> bb_set_providers l broker_builder_default | None \<Rightarrow> broker_builder_default))
           (\<lambda>b. ret (build_broker ev b)))"

text \<open>What a command comes to: it returns, or it serves.\<close>

datatype cmd_outcome = Returned | ServingClients served | ServingTools filling | ShowingPool filling duration

definition outcome_map :: "('a \<Rightarrow> cmd_outcome) \<Rightarrow> (cmd_error + 'a) \<times> sys \<Rightarrow> (cmd_error + cmd_outcome) \<times> sys" where
  "outcome_map f r = (case r of (Inl e, y) \<Rightarrow> (Inl e, y) | (Inr x, y) \<Rightarrow> (Inr (f x), y))"

definition run_cli :: "cmd_env \<Rightarrow> cli \<Rightarrow> act list \<Rightarrow> sys \<Rightarrow> ((cmd_error + cmd_outcome) \<times> sys) option" where
  "run_cli ev c acts y =
     (case broker_of ev c y of
        (Inl e, y') \<Rightarrow> Some (Inl e, y')
      | (Inr bk, y') \<Rightarrow>
         (case ci_command c of
            Grab a \<Rightarrow> Some (outcome_map (\<lambda>_. Returned) (grab_cmd ev bk a y'))
          | Find a \<Rightarrow> map_option (outcome_map (\<lambda>_. Returned)) (find_cmd ev bk a acts y')
          | Check a \<Rightarrow> map_option (outcome_map (\<lambda>_. Returned)) (check_cmd ev bk a acts y')
          | Serve a \<Rightarrow> Some (outcome_map ServingClients (serve_cmd ev bk a y'))
          | McpTools a \<Rightarrow> Some (outcome_map ServingTools (mcp_cmd ev bk a y'))
          | Top a \<Rightarrow> Some (outcome_map (\<lambda>(fl, d). ShowingPool fl d) (top_cmd ev bk a y'))))"

text \<open>The exit code of a process whose command has returned, and what it leaves behind.\<close>

definition main_exit :: "(cmd_error + 'a) \<times> sys \<Rightarrow> nat \<times> sys" where
  "main_exit r = (case r of (Inr _, y) \<Rightarrow> (0, y) | (Inl e, y) \<Rightarrow> (1, snd (eprintln (''error: '' @ cmd_message e) y)))"

end
