(* ===== verification/Watch.thy ===== *)
theory Watch
  imports Pool_Spec Proxy_Json
begin

text \<open>
  Live reload (\<^verbatim>\<open>src/src/watch.rs\<close>): the reconciliation of the pool with a list of proxies, and the
  polling task that waits for a burst of file events to end before it reads the file again. A file event
  is an error or the list of the names of the files it concerns; the file system is the text that a
  reading of the file gives at the time of a poll (\<open>None\<close> when it cannot be read).
\<close>

section \<open>Reconciliation\<close>

text \<open>\<open>Pool::addrs\<close> gives a sorted set; the order in which the addresses are visited does not matter
  (\<open>entries_reconcile\<close> below).\<close>

definition reconcile :: "proxy list \<Rightarrow> pool \<Rightarrow> pool" where
  "reconcile desired pl =
     (let current = remdups (map p_addr (pool_proxies pl)); want = set (map p_addr desired);
          pl1 = foldl (\<lambda>pl a. snd (pool_remove a pl)) pl (filter (\<lambda>a. a \<notin> want) current)
      in foldl (\<lambda>pl p. pool_add p pl) pl1 (filter (\<lambda>p. p_addr p \<notin> set current) desired))"

definition debounce :: duration where
  "debounce = 250000000"

section \<open>The polling task\<close>

type_synonym file_event = "string + string option list"

record watch =
  wa_pending :: "instant option"
  wa_pool :: pool

definition watch_init :: "pool \<Rightarrow> watch" where
  "watch_init pl = \<lparr>wa_pending = None, wa_pool = pl\<rparr>"

definition touches :: "string option \<Rightarrow> file_event list \<Rightarrow> bool" where
  "touches target evs =
     list_ex (\<lambda>ev. case ev of Inl _ \<Rightarrow> False | Inr names \<Rightarrow> list_ex (\<lambda>n. n = target) names) evs"

definition reload :: "(string \<Rightarrow> json option) \<Rightarrow> string option \<Rightarrow> proxy list option" where
  "reload from_str file = (case file of None \<Rightarrow> None | Some text \<Rightarrow> read_ndjson from_str text)"

text \<open>One pass of the loop at time \<open>now\<close>, with the events queued since the last pass.\<close>

definition poll :: "(string \<Rightarrow> json option) \<Rightarrow> string option \<Rightarrow> instant \<Rightarrow> file_event list \<Rightarrow> string option \<Rightarrow> watch \<Rightarrow> watch" where
  "poll from_str target now evs file w =
     (let pending = (if touches target evs then Some now else wa_pending w)
      in case pending of
           None \<Rightarrow> w
         | Some since \<Rightarrow>
            if debounce \<le> now - since then
              (case reload from_str file of
                 Some desired \<Rightarrow> \<lparr>wa_pending = None, wa_pool = reconcile desired (wa_pool w)\<rparr>
               | None \<Rightarrow> \<lparr>wa_pending = None, wa_pool = wa_pool w\<rparr>)
            else w\<lparr>wa_pending := Some since\<rparr>)"

fun poll_all :: "(string \<Rightarrow> json option) \<Rightarrow> string option \<Rightarrow> (instant \<times> file_event list \<times> string option) list \<Rightarrow> watch \<Rightarrow> watch" where
  "poll_all from_str target [] w = w"
| "poll_all from_str target ((now, evs, file) # ps) w = poll_all from_str target ps (poll from_str target now evs file w)"

section \<open>What reconciliation leaves\<close>

lemma entries_remove_all:
  "entries (foldl (\<lambda>pl a. snd (pool_remove a pl)) pl as) = filter (\<lambda>e. p_addr (pl_proxy e) \<notin> set as) (entries pl)"
proof (induction as arbitrary: pl)
  case (Cons a as)
  have "entries (snd (pool_remove a pl)) = filter (\<lambda>e. p_addr (pl_proxy e) \<noteq> a) (entries pl)"
    by (auto simp: pool_remove_def Let_def at_addr_def intro!: filter_cong)
  with Cons show ?case by (auto simp: conj_commute intro!: filter_cong)
qed simp

text \<open>The first proxy of every address, as the admission keeps it.\<close>

fun firsts :: "sock_addr set \<Rightarrow> proxy list \<Rightarrow> proxy list" where
  "firsts seen [] = []"
| "firsts seen (p # ps) = (if p_addr p \<in> seen then firsts seen ps else p # firsts (insert (p_addr p) seen) ps)"

lemma firsts_spec:
  "distinct (map p_addr (firsts seen ps)) \<and> p_addr ` set (firsts seen ps) = p_addr ` set ps - seen"
proof (induction seen ps rule: firsts.induct)
  case (2 seen p ps)
  then show ?case by (cases "p_addr p \<in> seen") auto
qed simp

lemma entries_add_all:
  "entries (foldl (\<lambda>pl p. pool_add p pl) pl ps) = entries pl @ map ready_entry (firsts (addrs pl) ps)"
proof (induction ps arbitrary: pl)
  case (Cons p ps)
  have "list_ex (at_addr (p_addr p)) (entries pl) \<longleftrightarrow> p_addr p \<in> addrs pl"
    by (simp add: list_ex_iff addrs_iff)
  moreover have "addrs (pool_add p pl) = insert (p_addr p) (addrs pl)" by (rule pa.addrs_add)
  ultimately show ?case using Cons[of "pool_add p pl"] by (auto simp: pool_add_def insert_absorb)
qed simp

lemma addrs_eq: "addrs pl = set (map p_addr (pool_proxies pl))"
  by (auto simp: addrs_def pool_proxies_def)

lemma firsts_filter: "firsts B (filter (\<lambda>p. p_addr p \<notin> A) ps) = firsts (A \<union> B) ps"
proof (induction ps arbitrary: B)
  case (Cons p ps)
  then show ?case by (cases "p_addr p \<in> A"; cases "p_addr p \<in> B") (simp_all add: insert_absorb)
qed simp

lemma entries_reconcile:
  "entries (reconcile desired pl) =
     filter (\<lambda>e. p_addr (pl_proxy e) \<in> p_addr ` set desired) (entries pl) @ map ready_entry (firsts (addrs pl) desired)"
proof -
  let ?cur = "remdups (map p_addr (pool_proxies pl))" and ?want = "set (map p_addr desired)"
  define pl1 where "pl1 = foldl (\<lambda>pl a. snd (pool_remove a pl)) pl (filter (\<lambda>a. a \<notin> ?want) ?cur)"
  have e1: "entries pl1 = filter (\<lambda>e. p_addr (pl_proxy e) \<in> ?want) (entries pl)"
    unfolding pl1_def entries_remove_all
    by (rule filter_cong) (auto simp: pool_proxies_def)
  have "addrs pl1 \<subseteq> addrs pl" using e1 by (auto simp: addrs_def)
  then have "addrs pl \<union> addrs pl1 = addrs pl" by blast
  moreover have "entries (reconcile desired pl) = entries pl1 @ map ready_entry (firsts (addrs pl \<union> addrs pl1) desired)"
    unfolding reconcile_def Let_def pl1_def[symmetric] entries_add_all
    by (simp add: addrs_eq[symmetric, unfolded set_map] firsts_filter)
  ultimately show ?thesis by (simp add: e1)
qed

lemma reconcile_addrs: "addrs (reconcile desired pl) = p_addr ` set desired"
  using pa.addrs_sync[of "remdups (map p_addr (pool_proxies pl))" pl desired]
  by (simp add: reconcile_def Let_def pa.add_all_def pa.remove_all_def addrs_eq)

lemma reconcile_frame:
  "config (reconcile desired pl) = config pl" "sessions (reconcile desired pl) = sessions pl"
  "evictions (reconcile desired pl) = evictions pl"
proof -
  have rm: "config (foldl (\<lambda>pl a. snd (pool_remove a pl)) pl as) = config pl"
      "sessions (foldl (\<lambda>pl a. snd (pool_remove a pl)) pl as) = sessions pl"
      "evictions (foldl (\<lambda>pl a. snd (pool_remove a pl)) pl as) = evictions pl" for as pl
    by (induction as arbitrary: pl) (simp_all add: pool_remove_def Let_def)
  have ad: "config (foldl (\<lambda>pl p. pool_add p pl) pl ps) = config pl"
      "sessions (foldl (\<lambda>pl p. pool_add p pl) pl ps) = sessions pl"
      "evictions (foldl (\<lambda>pl p. pool_add p pl) pl ps) = evictions pl" for ps pl
    by (induction ps arbitrary: pl) (simp_all add: pool_add_def)
  show "config (reconcile desired pl) = config pl" "sessions (reconcile desired pl) = sessions pl"
    "evictions (reconcile desired pl) = evictions pl"
    by (simp_all add: reconcile_def Let_def rm ad)
qed

text \<open>C30. Reconciling the pool with a list of proxies leaves exactly the addresses of the list in the pool.
  A pooled proxy whose address is on the list stays as it is, with its statistics and its bench, in its
  place; a new address is added once, as a fresh entry with the first proxy of the list at that address;
  the configuration, the sessions and the counters are untouched, and doing it again changes nothing.\<close>

theorem reconcile_exact:
  "addrs (reconcile desired pl) = p_addr ` set desired
   \<and> entries (reconcile desired pl) = filter (\<lambda>e. p_addr (pl_proxy e) \<in> p_addr ` set desired) (entries pl)
       @ map ready_entry (firsts (addrs pl) desired)
   \<and> distinct (map p_addr (firsts (addrs pl) desired))
   \<and> config (reconcile desired pl) = config pl \<and> sessions (reconcile desired pl) = sessions pl
   \<and> evictions (reconcile desired pl) = evictions pl
   \<and> entries (reconcile desired (reconcile desired pl)) = entries (reconcile desired pl)"
proof -
  let ?A = "p_addr ` set desired"
  have f: "p_addr ` set (firsts (addrs pl) desired) = ?A - addrs pl" "distinct (map p_addr (firsts (addrs pl) desired))"
    using firsts_spec by auto
  note a = reconcile_addrs[of desired pl]
  have "firsts (addrs (reconcile desired pl)) desired = []"
    using firsts_spec[of "addrs (reconcile desired pl)" desired] a by auto
  then have "entries (reconcile desired (reconcile desired pl)) = filter (\<lambda>e. p_addr (pl_proxy e) \<in> ?A) (entries (reconcile desired pl))"
    by (simp add: entries_reconcile)
  moreover have "\<forall>e \<in> set (entries (reconcile desired pl)). p_addr (pl_proxy e) \<in> ?A"
    using a by (auto simp: addrs_def)
  ultimately have "entries (reconcile desired (reconcile desired pl)) = entries (reconcile desired pl)" by simp
  then show ?thesis by (intro conjI a f(2) reconcile_frame entries_reconcile)
qed

text \<open>A reload waits until the file has been quiet for the debounce period: polls before that leave the
  pool alone, the first poll after it that sees no new event applies the file as it is then (or leaves the
  pool as it is when the file cannot be read or parsed, so a half-written file never empties it), and
  without a further event nothing happens any more.\<close>

theorem watch_debounce:
  assumes "touches target evs" "\<forall>(t, es, f) \<in> set early. \<not> touches target es \<and> t < t0 + debounce"
    "\<not> touches target es1" "t0 + debounce \<le> t1" "\<forall>(t, es, f) \<in> set late. \<not> touches target es"
  shows "wa_pool (poll_all from_str target ((t0, evs, f0) # early) w) = wa_pool w
   \<and> poll_all from_str target ((t0, evs, f0) # early @ (t1, es1, f1) # late) w =
      \<lparr>wa_pending = None, wa_pool = (case reload from_str f1 of Some ps \<Rightarrow> reconcile ps (wa_pool w) | None \<Rightarrow> wa_pool w)\<rparr>"
proof -
  have d: "0 < debounce" by (simp add: debounce_def)
  then have q: "t < t0 + debounce \<Longrightarrow> \<not> debounce \<le> t - t0" for t by linarith
  have append: "poll_all from_str target (a @ b) v = poll_all from_str target b (poll_all from_str target a v)" for a b v
    by (induction a arbitrary: v) auto
  have e: "poll_all from_str target early (v\<lparr>wa_pending := Some t0\<rparr>) = v\<lparr>wa_pending := Some t0\<rparr>" for v
    using assms(2) by (induction early) (auto simp: poll_def Let_def dest: q)
  have l: "poll_all from_str target late (v\<lparr>wa_pending := None\<rparr>) = v\<lparr>wa_pending := None\<rparr>" for v
    using assms(5) by (induction late) (auto simp: poll_def Let_def)
  have f: "poll from_str target t0 evs f0 w = w\<lparr>wa_pending := Some t0\<rparr>"
    using assms(1) d by (simp add: poll_def Let_def)
  let ?r = "\<lparr>wa_pending = None, wa_pool = (case reload from_str f1 of Some ps \<Rightarrow> reconcile ps (wa_pool w) | None \<Rightarrow> wa_pool w)\<rparr>"
  have m: "poll from_str target t1 es1 f1 (w\<lparr>wa_pending := Some t0\<rparr>) = ?r"
    using assms(3,4) by (auto simp: poll_def Let_def split: option.splits)
  show ?thesis using l[of ?r] by (simp add: f e append m)
qed

text \<open>A burst on the file, then quiet.\<close>

definition quiet_polls :: "(instant \<times> file_event list \<times> string option) list" where
  "quiet_polls = [(200000000, [], None)]"

theorem watch_debounce_witness:
  "wa_pool (poll_all (\<lambda>_. None) (Some ''pool.ndjson'') ((0, [Inr [Some ''pool.ndjson'']], None) # quiet_polls) (watch_init (sample_pool Best)))
     = wa_pool (watch_init (sample_pool Best))
   \<and> poll_all (\<lambda>_. None) (Some ''pool.ndjson'')
       ((0, [Inr [Some ''pool.ndjson'']], None) # quiet_polls @ (250000000, [Inl ''lost''], Some [LF]) # [(300000000, [], None)]) (watch_init (sample_pool Best))
     = \<lparr>wa_pending = None, wa_pool = (case reload (\<lambda>_. None) (Some [LF]) of Some ps \<Rightarrow> reconcile ps (wa_pool (watch_init (sample_pool Best)))
         | None \<Rightarrow> wa_pool (watch_init (sample_pool Best)))\<rparr>"
  by (rule watch_debounce) (simp_all add: touches_def quiet_polls_def debounce_def)

section \<open>What reconciliation does not do\<close>

text \<open>A reload knows nothing of the proxies that are checked out: a proxy whose line is deleted while it
  is leased is back in the pool when it is returned in good health.\<close>

theorem reload_resurrects:
  assumes "try_select now sc key pl = (Some p, pl1)" "\<not> unhealthy (config pl) p"
  shows "p_addr p \<notin> addrs (reconcile [] pl1) \<and> p_addr p \<in> addrs (put_ok p (reconcile [] pl1))"
proof -
  have "config pl1 = config pl" using try_select_simps(1)[of now sc key pl] assms(1) by simp
  moreover have "addrs (reconcile [] pl1) = {}" by (simp add: addrs_def entries_reconcile)
  ultimately show ?thesis using assms(2) by (simp add: put_ok_def put_inner_def addrs_def reconcile_frame)
qed

theorem reload_resurrects_witness:
  "let pl1 = snd (try_select 7 SHttp (KeyHeader []) (sample_pool Best))
   in p_addr (sample_proxy 1) \<notin> addrs (reconcile [] pl1)
    \<and> p_addr (sample_proxy 1) \<in> addrs (put_ok (sample_proxy 1) (reconcile [] pl1))"
  unfolding Let_def
proof (rule reload_resurrects)
  show "try_select 7 SHttp (KeyHeader []) (sample_pool Best)
    = (Some (sample_proxy 1), snd (try_select 7 SHttp (KeyHeader []) (sample_pool Best)))"
    by (rule sample_select) simp
  show "\<not> unhealthy (config (sample_pool Best)) (sample_proxy 1)"
    by (simp add: unhealthy_def sample_config pool_config_default_def sample_proxy_def add_type_def proxy_new_def)
qed

text \<open>A reload does not apply the country filter that the pool applies when it is filled: a line with a
  new proxy outside the allowed countries is admitted.\<close>

theorem reload_unscreened:
  assumes "\<not> country_ok q (countries (config pl))" "p_addr q \<notin> addrs pl"
  shows "\<exists>e \<in> set (entries (reconcile [q] pl)). \<not> country_ok (pl_proxy e) (countries (config (reconcile [q] pl)))"
proof
  show "ready_entry q \<in> set (entries (reconcile [q] pl))"
    using assms(2) by (simp add: entries_reconcile[of "[q]"])
  show "\<not> country_ok (pl_proxy (ready_entry q)) (countries (config (reconcile [q] pl)))"
    using assms(1) by (simp add: reconcile_frame ready_entry_def)
qed

theorem reload_unscreened_witness:
  "let pl = spawned (pool_config_default\<lparr>countries := Some {''US''}\<rparr>)
   in \<exists>e \<in> set (entries (reconcile [sample_proxy 1] pl)).
        \<not> country_ok (pl_proxy e) (countries (config (reconcile [sample_proxy 1] pl)))"
  unfolding Let_def
  by (rule reload_unscreened)
    (simp_all add: country_ok_def spawned_def addrs_def sample_proxy_def add_type_def proxy_new_def)

end
