(* ===== verification/Dashboard.thy ===== *)
theory Dashboard
  imports Pool_Facts Stats
begin

text \<open>
  The terminal dashboard (\<^verbatim>\<open>src/src/tui.rs\<close>): its state, the refresh from a reading of the pool, the keys,
  what a frame shows and the event loop. Drawing and the terminal modes are left out; a frame is the texts
  and numbers that are handed to the widgets.
\<close>

section \<open>State\<close>

record row =
  rw_key :: sock_addr
  rw_addr :: string
  rw_protos :: string
  rw_error_rate :: real
  rw_resp_time :: real
  rw_country :: string

datatype dash_key = ByAddr | ByErrorRate | ByRespTime | ByCountry

definition ring_cap :: nat where
  "ring_cap = 60"

record dashboard =
  ds_rows :: "row list"
  ds_snapshot :: pool_snapshot
  ds_sort :: dash_key
  ds_history :: "sock_addr \<rightharpoonup> real list"
  ds_selected :: nat

definition dashboard_default :: dashboard where
  "dashboard_default = \<lparr>ds_rows = [],
     ds_snapshot = \<lparr>sn_http = 0, sn_https = 0, sn_total = 0, sn_error_rate = 0, sn_resp_time = 0, sn_probe_latency = 0\<rparr>,
     ds_sort = ByRespTime, ds_history = Map.empty, ds_selected = 0\<rparr>"

section \<open>Refresh and keys\<close>

definition row_of :: "proxy \<Rightarrow> row" where
  "row_of p = \<lparr>rw_key = p_addr p, rw_addr = addr p, rw_protos = join '','' (map proto_str (type_keys (p_types p))),
     rw_error_rate = error_rate p, rw_resp_time = avg_resp_time p,
     rw_country = (case p_geo p of Some c \<Rightarrow> c_code c | None \<Rightarrow> [])\<rparr>"

text \<open>Pushing at the back, then dropping from the front while there are too many.\<close>

definition push_ring :: "real \<Rightarrow> real list \<Rightarrow> real list" where
  "push_ring t ring = (let r = ring @ [t] in drop (length r - ring_cap) r)"

definition push_history :: "proxy \<Rightarrow> (sock_addr \<rightharpoonup> real list) \<Rightarrow> sock_addr \<rightharpoonup> real list" where
  "push_history p h = h(p_addr p \<mapsto> push_ring (avg_resp_time p) (case h (p_addr p) of Some r \<Rightarrow> r | None \<Rightarrow> []))"

definition sort_rows :: "dashboard \<Rightarrow> dashboard" where
  "sort_rows d = d\<lparr>ds_rows := (case ds_sort d of
      ByAddr \<Rightarrow> sort_key rw_addr (ds_rows d)
    | ByErrorRate \<Rightarrow> sort_key rw_error_rate (ds_rows d)
    | ByRespTime \<Rightarrow> sort_key rw_resp_time (ds_rows d)
    | ByCountry \<Rightarrow> sort_key rw_country (ds_rows d))\<rparr>"

record header_sums =
  hs_http :: nat
  hs_https :: nat
  hs_err :: real
  hs_rt :: real
  hs_probe :: real

definition add_header :: "header_sums \<Rightarrow> proxy \<Rightarrow> header_sums" where
  "add_header s p =
     \<lparr>hs_http = (if SHttp \<in> set (schemes p) then hs_http s + 1 else hs_http s),
      hs_https = (if SHttps \<in> set (schemes p) then hs_https s + 1 else hs_https s),
      hs_err = hs_err s + error_rate p, hs_rt = hs_rt s + avg_resp_time p, hs_probe = hs_probe s + probe_latency p\<rparr>"

definition header_of :: "proxy list \<Rightarrow> pool_snapshot" where
  "header_of ps =
     (let total = length ps;
          s = foldl add_header \<lparr>hs_http = 0, hs_https = 0, hs_err = 0, hs_rt = 0, hs_probe = 0\<rparr> ps;
          mean = (\<lambda>x. if 0 < total then x / real total else 0)
      in \<lparr>sn_http = hs_http s, sn_https = hs_https s, sn_total = total, sn_error_rate = mean (hs_err s),
          sn_resp_time = mean (hs_rt s), sn_probe_latency = mean (hs_probe s)\<rparr>)"

definition apply_proxies :: "proxy list \<Rightarrow> dashboard \<Rightarrow> dashboard" where
  "apply_proxies ps d =
     (let d1 = d\<lparr>ds_rows := map row_of ps, ds_history := foldl (\<lambda>h p. push_history p h) (ds_history d) ps,
                 ds_snapshot := header_of ps\<rparr>;
          d2 = sort_rows d1
      in d2\<lparr>ds_selected := min (ds_selected d2) (length (ds_rows d2) - 1)\<rparr>)"

datatype key_code = KChar char | KEsc | KUp | KDown | KOther

definition sort_by_key :: "dash_key \<Rightarrow> dashboard \<Rightarrow> dashboard" where
  "sort_by_key k d = sort_rows (d\<lparr>ds_sort := k\<rparr>)"

definition on_key :: "key_code \<Rightarrow> dashboard \<Rightarrow> bool \<times> dashboard" where
  "on_key k d =
     (if k = KChar CHR ''q'' \<or> k = KEsc then (False, d)
      else if k = KChar CHR ''a'' then (True, sort_by_key ByAddr d)
      else if k = KChar CHR ''e'' then (True, sort_by_key ByErrorRate d)
      else if k = KChar CHR ''r'' then (True, sort_by_key ByRespTime d)
      else if k = KChar CHR ''c'' then (True, sort_by_key ByCountry d)
      else if k = KDown \<or> k = KChar CHR ''j'' then
        (True, if ds_rows d = [] then d else d\<lparr>ds_selected := min (ds_selected d + 1) (length (ds_rows d) - 1)\<rparr>)
      else if k = KUp \<or> k = KChar CHR ''k'' then (True, d\<lparr>ds_selected := ds_selected d - 1\<rparr>)
      else (True, d))"

section \<open>A frame\<close>

record frame =
  fr_header :: string
  fr_rows :: "string list list"
  fr_spark :: "int list"

definition frame_of :: "dashboard \<Rightarrow> frame" where
  "frame_of d =
     (let sn = ds_snapshot d;
          ring = (if ds_selected d < length (ds_rows d) then ds_history d (rw_key (ds_rows d ! ds_selected d)) else None)
      in \<lparr>fr_header = ''total '' @ show_nat (sn_total sn) @ '' | http '' @ show_nat (sn_http sn) @ '' | https ''
            @ show_nat (sn_https sn) @ '' | avg err '' @ fmt2 (sn_error_rate sn) @ '' | avg resp '' @ fmt2 (sn_resp_time sn) @ ''s'',
          fr_rows = map (\<lambda>r. [rw_addr r, rw_protos r, fmt2 (rw_error_rate r), fmt2 (rw_resp_time r), rw_country r]) (ds_rows d),
          fr_spark = (case ring of None \<Rightarrow> [] | Some r \<Rightarrow> map (\<lambda>secs. \<lfloor>secs * 1000 + 1/2\<rfloor>) r)\<rparr>)"

section \<open>The metrics text\<close>

text \<open>The Prometheus text of \<^verbatim>\<open>src/src/server.rs\<close> and the answer that carries it.\<close>

definition metric :: "string \<Rightarrow> string \<Rightarrow> string \<Rightarrow> (string \<times> string) list \<Rightarrow> string" where
  "metric name help kind samples =
     ''# HELP '' @ name @ '' '' @ help @ [LF] @ ''# TYPE '' @ name @ '' '' @ kind @ [LF]
     @ concat (map (\<lambda>(label, v). name @ label @ '' '' @ v @ [LF]) samples)"

definition render_metrics :: "pool \<Rightarrow> string" where
  "render_metrics pl =
     (let s = snapshot pl
      in metric ''proxybroker_pool_size'' ''Proxies currently available in the pool.'' ''gauge''
           [(''{scheme=\"http\"}'', show_nat (sn_http s)), (''{scheme=\"https\"}'', show_nat (sn_https s))]
       @ metric ''proxybroker_pool_error_rate_avg'' ''Mean proxy error rate over the pool.'' ''gauge'' [([], fmt2 (sn_error_rate s))]
       @ metric ''proxybroker_pool_resp_time_avg_seconds'' ''Mean proxy response time over the pool.'' ''gauge''
           [([], fmt2 (sn_resp_time s))]
       @ metric ''proxybroker_pool_probe_latency_avg_seconds'' ''Mean judge-probe latency (check-time) over the pool.'' ''gauge''
           [([], fmt2 (sn_probe_latency s))]
       @ metric ''proxybroker_evictions_total'' ''Proxies hard-evicted from the pool.'' ''counter'' [([], show_word (evictions pl))]
       @ metric ''proxybroker_rotations_total'' ''Mid-request rotations to a different proxy.'' ''counter''
           [([], show_word (rotations pl))])"

definition metrics_response :: "pool \<Rightarrow> string" where
  "metrics_response pl =
     (let body = render_metrics pl
      in ''HTTP/1.1 200 OK'' @ crlf @ ''Content-Type: text/plain; version=0.0.4'' @ crlf
         @ ''Content-Length: '' @ show_nat (length body) @ crlf @ ''Connection: close'' @ crlf @ crlf @ body)"

text \<open>\<open>serve_metrics\<close>: the accept loop and its connections, each answered from the pool as it is at that moment;
  the pool changes in between.\<close>

datatype metrics_act = MAccept | MAcceptFailed | MAnswer nat | MShutdown | MClose | MChange pool

record metrics_server =
  ms_pool :: pool
  ms_accepting :: bool
  ms_cancelled :: bool
  ms_conns :: "string option list"

definition metrics_init :: "pool \<Rightarrow> metrics_server" where
  "metrics_init pl = \<lparr>ms_pool = pl, ms_accepting = True, ms_cancelled = False, ms_conns = []\<rparr>"

fun metrics_exec :: "metrics_act \<Rightarrow> metrics_server \<Rightarrow> metrics_server option" where
  "metrics_exec MAccept m = (if ms_accepting m then Some (m\<lparr>ms_conns := ms_conns m @ [None]\<rparr>) else None)"
| "metrics_exec MAcceptFailed m = (if ms_accepting m then Some m else None)"
| "metrics_exec (MAnswer i) m =
     (if i < length (ms_conns m) \<and> ms_conns m ! i = None
      then Some (m\<lparr>ms_conns := (ms_conns m)[i := Some (metrics_response (ms_pool m))]\<rparr>) else None)"
| "metrics_exec MShutdown m = Some (m\<lparr>ms_cancelled := True\<rparr>)"
| "metrics_exec MClose m = (if ms_cancelled m \<and> ms_accepting m then Some (m\<lparr>ms_accepting := False\<rparr>) else None)"
| "metrics_exec (MChange pl) m = Some (m\<lparr>ms_pool := pl\<rparr>)"

fun metrics_run :: "metrics_act list \<Rightarrow> metrics_server \<Rightarrow> metrics_server option" where
  "metrics_run [] m = Some m"
| "metrics_run (a # as) m = (case metrics_exec a m of None \<Rightarrow> None | Some m' \<Rightarrow> metrics_run as m')"

section \<open>The event loop\<close>

datatype dash_event = Tick pool | Press key_code | OtherEvent | StreamEnd

text \<open>A tick reads the pool as it is then; the result says whether the loop is still running.\<close>

fun run_top :: "dash_event list \<Rightarrow> dashboard \<Rightarrow> bool \<times> dashboard" where
  "run_top [] d = (True, d)"
| "run_top (ev # evs) d =
     (case ev of
        Tick pl \<Rightarrow> run_top evs (apply_proxies (pool_proxies pl) d)
      | Press k \<Rightarrow> (case on_key k d of (True, d') \<Rightarrow> run_top evs d' | (False, d') \<Rightarrow> (False, d'))
      | OtherEvent \<Rightarrow> run_top evs d
      | StreamEnd \<Rightarrow> (False, d))"

section \<open>Consistency\<close>

fun row_le :: "dash_key \<Rightarrow> row \<Rightarrow> row \<Rightarrow> bool" where
  "row_le ByAddr a b = (rw_addr a \<le> rw_addr b)"
| "row_le ByErrorRate a b = (rw_error_rate a \<le> rw_error_rate b)"
| "row_le ByRespTime a b = (rw_resp_time a \<le> rw_resp_time b)"
| "row_le ByCountry a b = (rw_country a \<le> rw_country b)"

definition ring_of :: "dashboard \<Rightarrow> row \<Rightarrow> bool" where
  "ring_of d r \<longleftrightarrow> (\<exists>ring. ds_history d (rw_key r) = Some ring \<and> ring \<noteq> [] \<and> length ring \<le> ring_cap)"

definition dash_ok :: "proxy list \<Rightarrow> dashboard \<Rightarrow> bool" where
  "dash_ok ps d \<longleftrightarrow> mset (ds_rows d) = mset (map row_of ps) \<and> sorted_wrt (row_le (ds_sort d)) (ds_rows d)
     \<and> ds_snapshot d = header_of ps \<and> (ds_rows d = [] \<and> ds_selected d = 0 \<or> ds_selected d < length (ds_rows d))
     \<and> list_all (ring_of d) (ds_rows d)"

lemma sorted_wrt_sort_key: "sorted_wrt (\<lambda>x y. f x \<le> f y) (sort_key f xs)"
  using sorted_sort_key[of f xs] by (simp add: sorted_map)

lemma row_le_eq:
  "row_le ByAddr = (\<lambda>x y. rw_addr x \<le> rw_addr y)" "row_le ByErrorRate = (\<lambda>x y. rw_error_rate x \<le> rw_error_rate y)"
  "row_le ByRespTime = (\<lambda>x y. rw_resp_time x \<le> rw_resp_time y)" "row_le ByCountry = (\<lambda>x y. rw_country x \<le> rw_country y)"
  by (auto simp: fun_eq_iff)

lemma sort_rows_simps [simp]:
  "mset (ds_rows (sort_rows d)) = mset (ds_rows d)" "ds_snapshot (sort_rows d) = ds_snapshot d"
  "ds_sort (sort_rows d) = ds_sort d" "ds_history (sort_rows d) = ds_history d" "ds_selected (sort_rows d) = ds_selected d"
  by (simp_all add: sort_rows_def split: dash_key.split)

lemma sorted_sort_rows: "ds_sort d = k \<Longrightarrow> sorted_wrt (row_le k) (ds_rows (sort_rows d))"
  by (cases k) (simp_all add: sort_rows_def row_le_eq sorted_wrt_sort_key)

lemma length_rows_sort [simp]: "length (ds_rows (sort_rows d)) = length (ds_rows d)"
  using mset_eq_length[OF sort_rows_simps(1)] .

lemma set_rows_sort [simp]: "set (ds_rows (sort_rows d)) = set (ds_rows d)"
  using mset_eq_setD[OF sort_rows_simps(1)] .

lemma rows_sort_Nil [simp]: "ds_rows (sort_rows d) = [] \<longleftrightarrow> ds_rows d = []"
  using length_rows_sort[of d] by (metis length_0_conv)

lemma push_ring_ok: "push_ring t r \<noteq> [] \<and> length (push_ring t r) \<le> ring_cap \<and> last (push_ring t r) = t"
  by (auto simp: push_ring_def Let_def ring_cap_def last_drop)

lemma history_rings:
  fixes h :: "sock_addr \<rightharpoonup> real list"
  defines "g \<equiv> \<lambda>h :: sock_addr \<rightharpoonup> real list. \<lambda>a. \<exists>r. h a = Some r \<and> r \<noteq> [] \<and> length r \<le> ring_cap"
  shows "p \<in> set ps \<or> g h (p_addr p) \<Longrightarrow> g (foldl (\<lambda>h p. push_history p h) h ps) (p_addr p)"
proof (induction ps arbitrary: h)
  case (Cons q ps)
  have "g (push_history q h) (p_addr p)" if "p_addr p = p_addr q \<or> g h (p_addr p)"
    using that push_ring_ok by (auto simp: g_def push_history_def)
  with Cons show ?case by auto
qed simp

lemma header_sums_fold:
  "foldl add_header s ps = \<lparr>hs_http = hs_http s + length (filter (\<lambda>p. SHttp \<in> set (schemes p)) ps),
     hs_https = hs_https s + length (filter (\<lambda>p. SHttps \<in> set (schemes p)) ps),
     hs_err = hs_err s + sum_list (map error_rate ps), hs_rt = hs_rt s + sum_list (map avg_resp_time ps),
     hs_probe = hs_probe s + sum_list (map probe_latency ps)\<rparr>"
  by (induction ps arbitrary: s) (simp_all add: add_header_def)

lemma header_snapshot: "header_of (pool_proxies pl) = snapshot pl"
  by (simp add: header_of_def snapshot_def header_sums_fold Let_def)

lemma dash_ok_apply: "dash_ok ps (apply_proxies ps d)"
proof -
  have "ps = [] \<or> min (ds_selected d) (length ps - Suc 0) < length ps" by (cases ps) auto
  then show ?thesis
    using history_rings[of _ ps "ds_history d"]
    by (auto simp: dash_ok_def apply_proxies_def Let_def list_all_iff ring_of_def row_of_def sorted_sort_rows)
qed

lemma dash_ok_key:
  assumes "dash_ok ps d"
  shows "dash_ok ps (snd (on_key k d))"
proof -
  have "dash_ok ps (sort_by_key b d)" for b
    using assms by (auto simp: dash_ok_def sort_by_key_def list_all_iff ring_of_def sorted_sort_rows)
  then show ?thesis using assms by (auto simp: on_key_def dash_ok_def ring_of_def list_all_iff)
qed

definition ticks :: "dash_event list \<Rightarrow> pool list" where
  "ticks evs = List.map_filter (\<lambda>ev. case ev of Tick pl \<Rightarrow> Some pl | _ \<Rightarrow> None) evs"

lemma run_top_ok:
  assumes "dash_ok (pool_proxies pl0) d0" "run_top evs d0 = (b, d)"
  shows "\<exists>n \<le> length evs. (b \<longrightarrow> n = length evs) \<and> dash_ok (pool_proxies (last (pl0 # ticks (take n evs)))) d"
  using assms
proof (induction evs arbitrary: d0 pl0)
  case Nil
  then show ?case by (simp add: ticks_def map_filter_def)
next
  case (Cons ev evs)
  have stop: ?case if "\<not> b" "d = d0 \<or> (\<exists>k. d = snd (on_key k d0))"
    using that Cons(2) dash_ok_key by (intro exI[of _ 0]) (auto simp: ticks_def map_filter_def)
  have go: ?case if r: "run_top evs d1 = (b, d)" "dash_ok (pool_proxies pl1) d1"
    and t: "\<And>m. last (pl1 # ticks (take m evs)) = last (pl0 # ticks (take (Suc m) (ev # evs)))" for d1 pl1
    using Cons(1)[OF r(2,1)] unfolding t by (metis length_Cons Suc_le_mono)
  show ?case
  proof (cases ev)
    case (Tick pl)
    then show ?thesis using Cons(3) dash_ok_apply
      by (intro go[of "apply_proxies (pool_proxies pl) d0" pl]) (simp_all add: ticks_def map_filter_def)
  next
    case (Press k)
    then show ?thesis using Cons(2,3) dash_ok_key[OF Cons(2), of k] go[of "snd (on_key k d0)" pl0] stop
      by (cases "on_key k d0"; cases "fst (on_key k d0)") (auto simp: ticks_def map_filter_def)
  next
    case OtherEvent
    then show ?thesis using Cons(2,3) by (intro go[of d0 pl0]) (simp_all add: ticks_def map_filter_def)
  next
    case StreamEnd
    then show ?thesis using Cons(3) stop by simp
  qed
qed

text \<open>C35. Whatever ticks and keys the dashboard has seen, what it shows is one reading of the pool, the last
  one it made: the header is the pool's own snapshot, the rows are exactly the pooled proxies, in the
  order of the chosen column, the selection is a row (or nothing when there is none), and the chart of
  the selected row has between one and sixty values.\<close>

theorem dashboard_consistent:
  assumes "run_top evs (apply_proxies (pool_proxies pl0) dashboard_default) = (b, d)"
  shows "\<exists>n \<le> length evs. (b \<longrightarrow> n = length evs) \<and> (let pl = last (pl0 # ticks (take n evs)) in
     ds_snapshot d = snapshot pl \<and> mset (ds_rows d) = mset (map row_of (pool_proxies pl))
     \<and> sorted_wrt (row_le (ds_sort d)) (ds_rows d)
     \<and> (ds_rows d = [] \<and> fr_spark (frame_of d) = []
        \<or> ds_selected d < length (ds_rows d) \<and> 0 < length (fr_spark (frame_of d)) \<and> length (fr_spark (frame_of d)) \<le> 60))"
proof -
  have *: "ds_snapshot d = snapshot pl \<and> mset (ds_rows d) = mset (map row_of (pool_proxies pl))
      \<and> sorted_wrt (row_le (ds_sort d)) (ds_rows d)
      \<and> (ds_rows d = [] \<and> fr_spark (frame_of d) = []
        \<or> ds_selected d < length (ds_rows d) \<and> 0 < length (fr_spark (frame_of d)) \<and> length (fr_spark (frame_of d)) \<le> 60)"
    if ok: "dash_ok (pool_proxies pl) d" for pl
  proof (cases "ds_rows d = []")
    case False
    then have s: "ds_selected d < length (ds_rows d)" using ok by (simp add: dash_ok_def)
    then obtain r where "ds_history d (rw_key (ds_rows d ! ds_selected d)) = Some r" "r \<noteq> []" "length r \<le> ring_cap"
      using ok by (auto simp: dash_ok_def list_all_length ring_of_def)
    then show ?thesis using ok s by (simp add: dash_ok_def header_snapshot frame_of_def Let_def ring_cap_def)
  qed (use ok in \<open>simp add: dash_ok_def header_snapshot frame_of_def Let_def\<close>)
  obtain n where "n \<le> length evs" "b \<longrightarrow> n = length evs" "dash_ok (pool_proxies (last (pl0 # ticks (take n evs)))) d"
    using run_top_ok[OF dash_ok_apply assms] by blast
  then show ?thesis unfolding Let_def using * by (intro exI[of _ n]) blast
qed

definition dash_events :: "dash_event list" where
  "dash_events = [Press (KChar CHR ''e''), Press KDown, OtherEvent, Press (KChar CHR ''q''), Press KUp]"

theorem dashboard_consistent_witness:
  "\<exists>d. run_top dash_events (apply_proxies (pool_proxies (spawned pool_config_default)) dashboard_default) = (False, d)
    \<and> ds_sort d = ByErrorRate \<and> ds_snapshot d = snapshot (spawned pool_config_default)"
proof -
  obtain d where r: "run_top dash_events (apply_proxies (pool_proxies (spawned pool_config_default)) dashboard_default) = (False, d)"
    and s: "ds_sort d = ByErrorRate"
    by (simp add: dash_events_def on_key_def sort_by_key_def)
  have "last (spawned pool_config_default # ticks (take n dash_events)) = spawned pool_config_default" for n
    by (cases n; cases "n - 1"; cases "n - 2"; cases "n - 3"; cases "n - 4")
      (simp_all add: dash_events_def ticks_def map_filter_def)
  with dashboard_consistent[OF r] r s show ?thesis by (auto simp: Let_def)
qed

text \<open>Every answer of the metrics endpoint is the text of one state that the pool was in during the run.\<close>

fun change_of :: "metrics_act \<Rightarrow> pool set" where
  "change_of (MChange pl) = {pl}"
| "change_of _ = {}"

lemma metrics_answers:
  "metrics_run as m = Some m' \<Longrightarrow> Some r \<in> set (ms_conns m') \<Longrightarrow> Some r \<in> set (ms_conns m)
    \<or> (\<exists>pl \<in> insert (ms_pool m) (\<Union> (change_of ` set as)). r = metrics_response pl)"
proof (induction as arbitrary: m)
  case (Cons a as)
  then obtain m1 where 1: "metrics_exec a m = Some m1" "metrics_run as m1 = Some m'" by (auto split: option.splits)
  from Cons.IH[OF 1(2) Cons.prems(2)] 1(1) show ?case
    by (cases a) (auto split: if_splits dest!: set_update_subset_insert[THEN subsetD])
qed simp

end
