(* ===== verification/Process.thy ===== *)
theory Process
  imports Commands Scheduler Watch Dashboard
begin

text \<open>
  The process of \<open>serve\<close> as a whole (\<^verbatim>\<open>src/src/bin/proxybroker.rs\<close>, \<open>serve_cmd\<close>, from the moment at which it
  serves): the pipeline of \<open>find\<close> (\<open>Check_Stream\<close>), the importer, the accept loop and the clients
  (\<open>Serving\<close>), the re-checker (\<open>Scheduler\<close>), the file watcher (\<open>Watch\<close>) and the metrics endpoint
  (\<open>Dashboard\<close>), all over one pool and one store.

  Each of these theories has the state and the steps of its task. Here the states stand side by side, and
  a step of the process is a step of one task on the shared pool. The observer of the pipeline and the
  re-checker write to the store; the file under \<open>--watch\<close> is edited by others. The watcher's reload is not
  atomic: it reads the file, then the addresses of the pool, and then removes and adds one at a time; nor
  is the end of a re-check: the outcome is stored first, and the pool changed afterwards.

  After Ctrl-C the tasks may still make steps until the process is gone.
\<close>

section \<open>State\<close>

text \<open>What the tasks were started with.\<close>

record proc_env =
  px_cmd :: cmd_env
  px_want :: "auth_expect option"
  px_min_queue :: nat
  px_find :: "cs_env option"
  px_observer :: "store_choice option"
  px_recheck :: "(sched_env \<times> store_choice) option"
  px_watch :: "string option"
  px_metrics :: bool

text \<open>\<open>pr_left\<close> is the history that the importer has not read yet, \<open>pr_loaded\<close> the file that the watcher has read,
  \<open>pr_todo\<close> what is left of its reconciliation, \<open>pr_upserted\<close> whether the outcome of the running re-check is
  stored, \<open>pr_upserts\<close> the number of writes to a store so far. The pools inside \<open>pr_sched\<close> and
  \<open>pr_metrics\<close> are overwritten by the shared one at each of their steps.\<close>

record process =
  pr_serving :: serving
  pr_left :: "proxy list"
  pr_find :: "cs_state option"
  pr_sched :: sched
  pr_upserted :: bool
  pr_pending :: "instant option"
  pr_loaded :: "proxy list option"
  pr_todo :: "sv_act list"
  pr_metrics :: metrics_server
  pr_sys :: sys
  pr_upserts :: nat

definition pool_of :: "process \<Rightarrow> pool" where
  "pool_of p = sh_pool (sv_shared (pr_serving p))"

text \<open>The network of the re-checker is one of its own, \<open>w\<close>.\<close>

definition recheck_env :: "Broker.world \<Rightarrow> checker \<Rightarrow> recheck_config \<Rightarrow> sched_env" where
  "recheck_env w ck cfg = \<lparr>se_cfg = cfg, se_check = (\<lambda>i q. Checker.check (w_codec w) (w_resolve w) ck (w_rnd w i) (w_conn w i) q)\<rparr>"

definition proc_env_of :: "cmd_env \<Rightarrow> serve_args \<Rightarrow> Broker.world \<Rightarrow> served \<Rightarrow> proc_env" where
  "proc_env_of ev a w sd = \<lparr>px_cmd = ev, px_want = sd_want sd, px_min_queue = sa_min_queue a,
     px_find = map_option fst (fl_find (sd_fill sd)), px_observer = sd_observer sd,
     px_recheck = map_option (\<lambda>(ck, c, cfg). (recheck_env w ck cfg, c)) (sd_recheck sd),
     px_watch = sd_watch sd, px_metrics = (sd_metrics sd \<noteq> None)\<rparr>"

definition proc_init :: "instant \<Rightarrow> served \<Rightarrow> sys \<Rightarrow> process" where
  "proc_init now sd y =
     (let pl = fl_pool (sd_fill sd)
      in \<lparr>pr_serving = sd_serving sd, pr_left = fl_history (sd_fill sd), pr_find = map_option snd (fl_find (sd_fill sd)),
          pr_sched = sched_init now pl, pr_upserted = False, pr_pending = None, pr_loaded = None, pr_todo = [],
          pr_metrics = metrics_init pl, pr_sys = y, pr_upserts = 0\<rparr>)"

section \<open>Steps\<close>

datatype proc_act = Search act | ReadNext | ReadEnd | Clients sv_act | Recheck sched_act | Upsert
  | Poll instant "file_event list" | ReadPool "sock_addr list" | ReconcileNext | Scrape metrics_act | Edit string "string option" | Interrupt

definition serve_act :: "proc_env \<Rightarrow> sv_act \<Rightarrow> process \<Rightarrow> process option" where
  "serve_act x a p = map_option (\<lambda>s. p\<lparr>pr_serving := s\<rparr>) (sv_exec (px_want x) (px_min_queue x) a (pr_serving p))"

definition record_checks :: "proc_env \<Rightarrow> store_choice option \<Rightarrow> proxy list \<Rightarrow> process \<Rightarrow> process" where
  "record_checks x st qs p = p\<lparr>pr_sys := (case st of None \<Rightarrow> pr_sys p | Some c \<Rightarrow> observe_from (px_cmd x) c (pr_upserts p) qs (pr_sys p)),
     pr_upserts := pr_upserts p + length qs\<rparr>"

text \<open>A step of the pipeline other than those of its reader; what its observer has seen goes to the store.\<close>

definition search_step :: "proc_env \<Rightarrow> act \<Rightarrow> process \<Rightarrow> process option" where
  "search_step x a p =
     (case (px_find x, pr_find p) of
        (Some e, Some f) \<Rightarrow>
          if a \<in> {Recv, DropRx, DropGuard} then None
          else map_option (\<lambda>f'. record_checks x (px_observer x) (drop (length (cs_seen f)) (cs_seen f')) (p\<lparr>pr_find := Some f'\<rparr>)) (cs_exec e a f)
      | _ \<Rightarrow> None)"

text \<open>The importer reads the history and then the stream.\<close>

definition read_next :: "proc_env \<Rightarrow> process \<Rightarrow> process option" where
  "read_next x p =
     (case pr_left p of
        q # qs \<Rightarrow> serve_act x (Import q) (p\<lparr>pr_left := qs\<rparr>)
      | [] \<Rightarrow>
         (case (px_find x, pr_find p) of
            (Some e, Some f) \<Rightarrow>
              (case cs_exec e Recv f of
                 None \<Rightarrow> None
               | Some f' \<Rightarrow> serve_act x (Import (cs_out f ! cs_got f)) (p\<lparr>pr_find := Some f'\<rparr>))
          | _ \<Rightarrow> None))"

definition read_end :: "proc_env \<Rightarrow> process \<Rightarrow> process option" where
  "read_end x p =
     (case pr_find p of
        Some f \<Rightarrow> if pr_left p = [] \<and> stream_over f then serve_act x ImportEnd p else None
      | None \<Rightarrow> None)"

text \<open>The steps of \<open>Serving\<close> that belong to the accept loop, the clients and the importer alone.\<close>

fun of_server :: "sv_act \<Rightarrow> bool" where
  "of_server (Import _) = False"
| "of_server ImportEnd = False"
| "of_server (Add _) = False"
| "of_server (Remove _) = False"
| "of_server Shutdown = False"
| "of_server _ = True"

text \<open>The check of the address that was popped last, and what its end does to the pool.\<close>

definition probed :: "sched_env \<Rightarrow> sched \<Rightarrow> (bool \<times> proxy) option" where
  "probed env s = map_option (\<lambda>k. se_check env (sc_probes s) (proxy_new (fst k) (snd k) {})) (sc_current s)"

definition upsert_step :: "proc_env \<Rightarrow> process \<Rightarrow> process option" where
  "upsert_step x p =
     (case px_recheck x of
        None \<Rightarrow> None
      | Some (env, c) \<Rightarrow>
         (case probed env (pr_sched p) of
            None \<Rightarrow> None
          | Some (_, q) \<Rightarrow> if pr_upserted p then None else Some (record_checks x (Some c) [q] (p\<lparr>pr_upserted := True\<rparr>))))"

definition recheck_effect :: "sched_env \<Rightarrow> sched \<Rightarrow> sv_act option" where
  "recheck_effect env s =
     (case (sc_current s, probed env s) of
        (Some k, Some (working, q)) \<Rightarrow> Some (if working then Add q else Remove k)
      | _ \<Rightarrow> None)"

text \<open>\<open>Finish\<close> is what comes after the outcome has been stored; the other steps come before the check.\<close>

definition recheck_step :: "proc_env \<Rightarrow> sched_act \<Rightarrow> process \<Rightarrow> process option" where
  "recheck_step x a p =
     (case px_recheck x of
        None \<Rightarrow> None
      | Some (env, c) \<Rightarrow>
         (case sched_exec env a ((pr_sched p)\<lparr>sc_pool := pool_of p\<rparr>) of
            None \<Rightarrow> None
          | Some s \<Rightarrow>
             (case a of
                Others _ \<Rightarrow> None
              | sched_act.Finish _ _ \<Rightarrow>
                  (case recheck_effect env (pr_sched p) of
                     Some b \<Rightarrow> if pr_upserted p then serve_act x b (p\<lparr>pr_sched := s, pr_upserted := False\<rparr>) else None
                   | None \<Rightarrow> None)
              | _ \<Rightarrow> if pr_upserted p then None else Some (p\<lparr>pr_sched := s\<rparr>))))"

text \<open>\<open>Path::file_name\<close>: the last component, unless it is the parent directory.\<close>

definition file_name :: "string \<Rightarrow> string option" where
  "file_name path =
     (case rev (filter (\<lambda>c. c \<noteq> [] \<and> c \<noteq> ''.'') (split_char (CHR ''/'') path)) of
        [] \<Rightarrow> None | c # _ \<Rightarrow> if c = ''..'' then None else Some c)"

text \<open>The calls of \<open>reconcile\<close> after it has read the addresses of the pool.\<close>

definition reconcile_acts :: "proxy list \<Rightarrow> sock_addr list \<Rightarrow> sv_act list" where
  "reconcile_acts desired current =
     map Remove (filter (\<lambda>a. a \<notin> p_addr ` set desired) current) @ map Add (filter (\<lambda>q. p_addr q \<notin> set current) desired)"

text \<open>A pass of the watcher up to the reload, and the start of the reconciliation; \<open>current\<close> is the set of the
  pooled addresses in its order.\<close>

definition poll_step :: "proc_env \<Rightarrow> instant \<Rightarrow> file_event list \<Rightarrow> process \<Rightarrow> process option" where
  "poll_step x now evs p =
     (case px_watch x of
        None \<Rightarrow> None
      | Some path \<Rightarrow>
         if pr_loaded p \<noteq> None \<or> pr_todo p \<noteq> [] then None
         else
           let pending = (if touches (file_name path) evs then Some now else pr_pending p)
           in case pending of
                None \<Rightarrow> Some p
              | Some since \<Rightarrow>
                 if debounce \<le> now - since
                 then Some (p\<lparr>pr_pending := None, pr_loaded := reload (ev_from_str (px_cmd x)) (sy_files (pr_sys p) path)\<rparr>)
                 else Some (p\<lparr>pr_pending := Some since\<rparr>))"

definition read_pool :: "sock_addr list \<Rightarrow> process \<Rightarrow> process option" where
  "read_pool current p =
     (case pr_loaded p of
        None \<Rightarrow> None
      | Some desired \<Rightarrow>
         if set current = addrs (pool_of p) \<and> distinct current
         then Some (p\<lparr>pr_loaded := None, pr_todo := reconcile_acts desired current\<rparr>) else None)"

definition reconcile_next :: "proc_env \<Rightarrow> process \<Rightarrow> process option" where
  "reconcile_next x p = (case pr_todo p of [] \<Rightarrow> None | b # bs \<Rightarrow> serve_act x b (p\<lparr>pr_todo := bs\<rparr>))"

definition scrape_step :: "proc_env \<Rightarrow> metrics_act \<Rightarrow> process \<Rightarrow> process option" where
  "scrape_step x a p =
     (case a of
        MChange _ \<Rightarrow> None
      | _ \<Rightarrow> if px_metrics x then map_option (\<lambda>m. p\<lparr>pr_metrics := m\<rparr>) (metrics_exec a ((pr_metrics p)\<lparr>ms_pool := pool_of p\<rparr>)) else None)"

fun proc_exec :: "proc_env \<Rightarrow> proc_act \<Rightarrow> process \<Rightarrow> process option" where
  "proc_exec x (Search a) p = search_step x a p"
| "proc_exec x ReadNext p = read_next x p"
| "proc_exec x ReadEnd p = read_end x p"
| "proc_exec x (Clients a) p = (if of_server a then serve_act x a p else None)"
| "proc_exec x (Recheck a) p = recheck_step x a p"
| "proc_exec x Upsert p = upsert_step x p"
| "proc_exec x (Poll now evs) p = poll_step x now evs p"
| "proc_exec x (ReadPool current) p = read_pool current p"
| "proc_exec x ReconcileNext p = reconcile_next x p"
| "proc_exec x (Scrape a) p = scrape_step x a p"
| "proc_exec x (Edit path file) p = Some (p\<lparr>pr_sys := (pr_sys p)\<lparr>sy_files := (sy_files (pr_sys p))(path := file)\<rparr>\<rparr>)"
| "proc_exec x Interrupt p =
     (if sv_cancelled (pr_serving p) then None else serve_act x Shutdown (p\<lparr>pr_sys := snd (serve_stop (pr_sys p))\<rparr>))"

fun proc_run :: "proc_env \<Rightarrow> proc_act list \<Rightarrow> process \<Rightarrow> process option" where
  "proc_run x [] p = Some p"
| "proc_run x (a # as) p = (case proc_exec x a p of None \<Rightarrow> None | Some p' \<Rightarrow> proc_run x as p')"

end
