(* ===== verification/Serving_Spec.thy ===== *)
theory Serving_Spec
  imports Serving
begin

text \<open>
  The running server as a whole, over every interleaving of its tasks: it is simulated by the operations
  of the pool with its leases outstanding (\<open>pool_step\<close>), no notification is missed by a task that sleeps,
  and no connection is accepted before the start-up gate has opened.
\<close>

section \<open>Runs\<close>

lemma sv_run_append:
  "sv_run want mq (as @ bs) s = (case sv_run want mq as s of None \<Rightarrow> None | Some s' \<Rightarrow> sv_run want mq bs s')"
  by (induction as arbitrary: s) (auto split: option.splits)

lemma sv_run_invariant:
  assumes "\<And>a s s'. I s \<Longrightarrow> sv_exec want mq a s = Some s' \<Longrightarrow> I s'" "sv_run want mq as s = Some s'" "I s"
  shows "I s'"
  using assms(2,3) by (induction as arbitrary: s) (auto split: option.splits dest: assms(1))

lemma pool_run_trans: "pool_run w1 ops2 w2 \<Longrightarrow> pool_run w0 ops1 w1 \<Longrightarrow> pool_run w0 (ops1 @ ops2) w2"
proof (induction rule: pool_run.induct)
  case (run_snoc w ops w1 op w2)
  then show ?case using pool_run.run_snoc[of w0 "ops1 @ ops" w1 op w2] by simp
qed simp

lemma pool_run_one: "pool_step w op w' \<Longrightarrow> pool_run w [op] w'"
  using run_snoc[OF run_nil] by simp

section \<open>The leases of the tasks\<close>

fun get_lease :: "get_pc \<Rightarrow> proxy multiset" where
  "get_lease (GProbe n p) = {#p#}"
| "get_lease _ = {#}"

fun pc_lease :: "task_pc \<Rightarrow> proxy multiset" where
  "pc_lease (Getting c a r g) = get_lease g"
| "pc_lease (Drawn c a r p) = {#p#}"
| "pc_lease (Relaying c a r p) = {#p#}"
| "pc_lease (Returning failed p q k) = {#p#}"
| "pc_lease _ = {#}"

definition leases :: "serving \<Rightarrow> proxy multiset" where
  "leases s = sum_list (map (\<lambda>t. pc_lease (tk_pc t)) (sv_tasks s))"

text \<open>Where a task goes on after it has returned its proxy, and that it returns the proxy it leased.\<close>

fun resumable :: "task_pc \<Rightarrow> bool" where
  "resumable (Done out) = True"
| "resumable (Getting c a r g) = (g = GWaker 0)"
| "resumable _ = False"

fun pc_ok :: "task_pc \<Rightarrow> bool" where
  "pc_ok (Returning failed p q k) = (p_addr q = p_addr p \<and> p_geo q = p_geo p \<and> resumable k)"
| "pc_ok (Notifying k) = resumable k"
| "pc_ok _ = True"

lemma resumable_simps [simp]:
  "resumable k \<Longrightarrow> pc_lease k = {#}" "resumable k \<Longrightarrow> pc_ok k"
  by (cases k; simp)+

lemma next_attempt_resumable [simp]: "resumable (next_attempt c a r)" "resumable (give_up c)"
  by (simp_all add: next_attempt_def give_up_def split: nat.split)

lemma put_back_lease: "put_back failed now q pl = lease_give (if failed then Some now else None) q pl"
  by (simp add: put_back_def lease_give_def)

text \<open>A step of a task, as the pool sees it: any state of the pool with these leases (and others) gets
  there by operations of the pool that admit only the given addresses.\<close>

definition simulates :: "sock_addr set \<Rightarrow> pool \<Rightarrow> proxy multiset \<Rightarrow> pool \<Rightarrow> proxy multiset \<Rightarrow> bool" where
  "simulates A pl L pl' L' \<longleftrightarrow> (\<forall>w rest. w_pool w = pl \<longrightarrow> w_out w = rest + L \<longrightarrow>
     (\<exists>ops w'. pool_run w ops w' \<and> w_pool w' = pl' \<and> w_out w' = rest + L'
       \<and> set_mset (w_admitted w') \<subseteq> A \<union> set_mset (w_admitted w)))"

lemma simulates_step:
  assumes "\<And>(w :: world) rest. w_pool w = pl \<Longrightarrow> w_out w = rest + L
    \<Longrightarrow> \<exists>op w'. pool_step w op w' \<and> w_pool w' = pl' \<and> w_out w' = rest + L' \<and> set_mset (w_admitted w') \<subseteq> A \<union> set_mset (w_admitted w)"
  shows "simulates A pl L pl' L'"
  unfolding simulates_def
proof (intro allI impI)
  fix w :: world and rest assume "w_pool w = pl" "w_out w = rest + L"
  from assms[OF this] show "\<exists>ops w'. pool_run w ops w' \<and> w_pool w' = pl' \<and> w_out w' = rest + L'
    \<and> set_mset (w_admitted w') \<subseteq> A \<union> set_mset (w_admitted w)" by (blast intro: pool_run_one)
qed

lemma simulates_refl [simp, intro]: "simulates A pl L pl L"
  by (auto simp: simulates_def intro: run_nil)

lemma simulatesE:
  assumes "simulates A pl L pl' L'" "w_pool w = pl" "w_out w = rest + L"
  obtains ops w' where "pool_run w ops w'" "w_pool w' = pl'" "w_out w' = rest + L'" "set_mset (w_admitted w') \<subseteq> A \<union> set_mset (w_admitted w)"
  using assms unfolding simulates_def by blast

lemma simulates_trans:
  assumes "simulates A pl1 L1 pl2 L2" "simulates A pl2 L2 pl3 L3"
  shows "simulates A pl1 L1 pl3 L3"
  unfolding simulates_def
proof (intro allI impI)
  fix w :: world and rest assume w: "w_pool w = pl1" "w_out w = rest + L1"
  obtain ops1 w1 where 1: "pool_run w ops1 w1" "w_pool w1 = pl2" "w_out w1 = rest + L2" "set_mset (w_admitted w1) \<subseteq> A \<union> set_mset (w_admitted w)"
    using simulatesE[OF assms(1) w] by blast
  obtain ops2 w2 where "pool_run w1 ops2 w2" "w_pool w2 = pl3" "w_out w2 = rest + L3"
    "set_mset (w_admitted w2) \<subseteq> A \<union> set_mset (w_admitted w1)"
    using simulatesE[OF assms(2) 1(2,3)] by blast
  then show "\<exists>ops w'. pool_run w ops w' \<and> w_pool w' = pl3 \<and> w_out w' = rest + L3 \<and> set_mset (w_admitted w') \<subseteq> A \<union> set_mset (w_admitted w)"
    using pool_run_trans[OF _ 1(1)] 1(4) by blast
qed

lemma simulates_take:
  "try_select now sc key pl = (Some p, pl') \<Longrightarrow> simulates A pl {#} pl' {#p#}"
  "try_select now sc key pl = (None, pl') \<Longrightarrow> simulates A pl {#} pl' {#}"
  by (rule simulates_step, rule exI, rule exI, rule conjI, rule take_some, simp, simp)
    (rule simulates_step, rule exI, rule exI, rule conjI, rule take_none, simp, simp)

lemma simulates_give:
  assumes "p_addr q = p_addr p" "p_geo q = p_geo p"
  shows "simulates A pl {#p#} (lease_give f q pl) {#}"
proof (rule simulates_step)
  fix w :: world and rest assume w: "w_pool w = pl" "w_out w = rest + {#p#}"
  show "\<exists>op w'. pool_step w op w' \<and> w_pool w' = lease_give f q pl \<and> w_out w' = rest + {#} \<and> set_mset (w_admitted w') \<subseteq> A \<union> set_mset (w_admitted w)"
  proof (cases "unhealthy (config pl) q")
    case True
    with w assms give_evict[of p w q f] show ?thesis by fastforce
  next
    case False
    with w assms give_back[of p w q f] show ?thesis by fastforce
  qed
qed

lemma simulates_remove: "simulates A pl L (snd (pool_remove a pl)) L"
  by (rule simulates_step, rule exI, rule exI, rule conjI, rule remove_at) simp

lemma simulates_rotate: "simulates A pl L (pl\<lparr>rotations := rotations pl + 1\<rparr>) L"
  by (rule simulates_step, rule exI, rule exI, rule conjI, rule rotate) simp

lemma simulates_end: "simulates A pl L (import_end pl) L"
  by (rule simulates_step, rule exI, rule exI, rule conjI, rule at_end) simp

lemma simulates_import:
  assumes "p_addr p \<in> A"
  shows "simulates A pl L (import_one p pl) L"
proof (cases "country_ok p (countries (config pl))")
  case True
  show ?thesis
    by (rule simulates_step, rule exI, rule exI, rule conjI, rule import_ok) (use True assms in auto)
next
  case False
  show ?thesis
    by (rule simulates_step, rule exI, rule exI, rule conjI, rule import_skip) (use False assms in auto)
qed

lemma simulates_add:
  assumes "p_addr p \<in> A"
  shows "simulates A pl L (pool_add p pl) L"
proof (cases "p_addr p \<in> addrs pl")
  case True
  show ?thesis
    by (rule simulates_step, rule exI, rule exI, rule conjI, rule add_old) (use True assms in auto)
next
  case False
  show ?thesis
    by (rule simulates_step, rule exI, rule exI, rule conjI, rule add_new) (use False assms in auto)
qed

lemma get_step_simulates:
  assumes "get_step live sc key now g pl ep = Some (r, pl', ep')"
  shows "simulates A pl (get_lease g) pl'
    (case r of GoOn g' \<Rightarrow> get_lease g' | Answer None \<Rightarrow> {#} | Answer (Some p) \<Rightarrow> {#p#})"
proof (cases g)
  case (GProbe n p)
  have "put_failed now p pl = lease_give (Some now) p pl" by (simp add: lease_give_def)
  with simulates_give[of p p A pl "Some now"] assms GProbe show ?thesis
    by (auto simp: probe_failed_def split: if_splits)
next
  case (GLook n e)
  with assms show ?thesis
    by (auto split: prod.splits option.splits if_splits dest!: simulates_take)
next
  case GLast
  with assms show ?thesis by (auto split: prod.splits option.splits dest!: simulates_take)
qed (use assms in \<open>auto simp: probe_failed_def split: if_splits\<close>)

lemma serve_control_simulates: "simulates A pl {#} (snd (serve_control rq peer h pl)) {#}"
  by (auto simp: serve_control_def Let_def split: list.splits option.splits prod.splits intro: simulates_remove)

lemma pc_step_simulates:
  assumes "pc_step want now t pc s = Some (pc', s')" "pc_ok pc"
  shows "pc_ok pc' \<and> simulates A (sh_pool s) (pc_lease pc) (sh_pool s') (pc_lease pc')"
proof (cases pc)
  case New
  then show ?thesis using assms serve_control_simulates[of A "sh_pool s" _ "tk_peer t" "sh_history s"]
    by (auto simp: open_call_def split: prod.splits option.splits if_splits) (metis snd_conv)+
next
  case (Getting c a r g)
  with assms show ?thesis
    by (auto simp: give_up_def split: option.splits get_next.splits prod.splits dest!: get_step_simulates)
next
  case (Drawn c a r p)
  then show ?thesis using assms by (auto intro: simulates_rotate)
next
  case (Relaying c a r p)
  then show ?thesis using assms by (auto simp: after_relay_def Let_def split: relay_outcome.splits)
next
  case (Returning failed p q k)
  then show ?thesis using assms by (auto simp: put_back_lease intro: simulates_give)
qed (use assms in auto)


section \<open>The server refines the pool\<close>

definition sv_ok :: "serving \<Rightarrow> bool" where
  "sv_ok s \<longleftrightarrow> (\<forall>t \<in> set (sv_tasks s). pc_ok (tk_pc t))"

lemma set_pool_simps [simp]:
  "sv_tasks (set_pool f s) = sv_tasks s" "sh_pool (sv_shared (set_pool f s)) = f (sh_pool (sv_shared s))"
  "sh_epoch (sv_shared (set_pool f s)) = sh_epoch (sv_shared s)" "sv_import (set_pool f s) = sv_import s"
  "sv_gate (set_pool f s) = sv_gate s" "leases (set_pool f s) = leases s"
  by (simp_all add: set_pool_def leases_def)

lemma notify_all_simps [simp]:
  "sv_tasks (notify_all s) = sv_tasks s" "sh_pool (sv_shared (notify_all s)) = sh_pool (sv_shared s)"
  "sh_epoch (sv_shared (notify_all s)) = sh_epoch (sv_shared s) + 1" "sv_import (notify_all s) = sv_import s"
  "sv_gate (notify_all s) = sv_gate s" "leases (notify_all s) = leases s"
  by (simp_all add: notify_all_def leases_def)

lemma leases_simps [simp]:
  "leases (s\<lparr>sv_import := i\<rparr>) = leases s" "leases (s\<lparr>sv_gate := g\<rparr>) = leases s" "leases (s\<lparr>sv_cancelled := b\<rparr>) = leases s"
  "leases (s\<lparr>sv_tasks := sv_tasks s @ [\<lparr>tk_peer = pr, tk_in = inp, tk_ow = ow, tk_pc = New\<rparr>]\<rparr>) = leases s"
  by (simp_all add: leases_def)

lemma leases_split:
  assumes "i < length (sv_tasks s)"
  obtains rest where "leases s = rest + pc_lease (tk_pc (sv_tasks s ! i))"
    "\<And>t sh. leases (s\<lparr>sv_shared := sh, sv_tasks := (sv_tasks s)[i := t]\<rparr>) = rest + pc_lease (tk_pc t)"
proof -
  let ?f = "\<lambda>t. pc_lease (tk_pc t)" and ?ts = "sv_tasks s"
  define rest where "rest = sum_list (map ?f (take i ?ts)) + sum_list (map ?f (drop (Suc i) ?ts))"
  have "sum_list (map ?f ?ts) = rest + ?f (?ts ! i)"
    using sum_list_split[OF assms, of ?f] by (simp add: rest_def ac_simps)
  moreover have "sum_list (map ?f (?ts[i := t])) = rest + ?f t" for t
    using assms by (simp add: upd_conv_take_nth_drop rest_def ac_simps)
  ultimately show thesis by (intro that[of rest]) (simp_all add: leases_def)
qed

lemma tick_elim:
  assumes "sv_exec want mq (Tick i now) s = Some s'"
  obtains pc sh where "i < length (sv_tasks s)" "pc_step want now (sv_tasks s ! i) (tk_pc (sv_tasks s ! i)) (sv_shared s) = Some (pc, sh)"
    "s' = s\<lparr>sv_shared := sh, sv_tasks := (sv_tasks s)[i := (sv_tasks s ! i)\<lparr>tk_pc := pc\<rparr>]\<rparr>"
  using assms by (auto simp: task_step_def split: if_splits option.splits prod.splits)

text \<open>The addresses that an action offers to the pool.\<close>

fun act_admits :: "sv_act \<Rightarrow> sock_addr set" where
  "act_admits (Import p) = {p_addr p}"
| "act_admits (Add p) = {p_addr p}"
| "act_admits _ = {}"

lemma sv_exec_simulates:
  assumes "sv_exec want mq a s = Some s'" "sv_ok s" "act_admits a \<subseteq> A"
  shows "sv_ok s' \<and> simulates A (sh_pool (sv_shared s)) (leases s) (sh_pool (sv_shared s')) (leases s')"
proof (cases a)
  case (Tick i now)
  obtain pc sh where t: "i < length (sv_tasks s)"
    "pc_step want now (sv_tasks s ! i) (tk_pc (sv_tasks s ! i)) (sv_shared s) = Some (pc, sh)"
    "s' = s\<lparr>sv_shared := sh, sv_tasks := (sv_tasks s)[i := (sv_tasks s ! i)\<lparr>tk_pc := pc\<rparr>]\<rparr>"
    using assms(1) Tick tick_elim by blast
  obtain rest where r: "leases s = rest + pc_lease (tk_pc (sv_tasks s ! i))"
    "\<And>t sh. leases (s\<lparr>sv_shared := sh, sv_tasks := (sv_tasks s)[i := t]\<rparr>) = rest + pc_lease (tk_pc t)"
    using leases_split[OF t(1)] by blast
  have "pc_ok (tk_pc (sv_tasks s ! i))" using assms(2) t(1) by (simp add: sv_ok_def)
  from pc_step_simulates[OF t(2) this] have p: "pc_ok pc"
    and m: "simulates A (sh_pool (sv_shared s)) (pc_lease (tk_pc (sv_tasks s ! i))) (sh_pool sh) (pc_lease pc)" by auto
  have "sv_ok s'" using assms(2) p t(1,3) by (auto simp: sv_ok_def dest!: set_update_subset_insert[THEN subsetD])
  moreover have "simulates A (sh_pool (sv_shared s)) (leases s) (sh_pool (sv_shared s')) (leases s')"
    using m unfolding r(1) t(3) r(2) by (auto simp: simulates_def add.assoc[symmetric])
  ultimately show ?thesis by simp
next
  case (Connect pr inp ow)
  with assms show ?thesis by (auto simp: sv_ok_def split: if_splits)
next
  case (Import p)
  with assms show ?thesis by (auto simp: sv_ok_def simulates_import split: if_splits)
next
  case ImportNotify
  with assms show ?thesis by (auto simp: sv_ok_def split: importer.splits)
next
  case ImportEnd
  with assms show ?thesis by (auto simp: sv_ok_def simulates_end split: if_splits)
next
  case (Add p)
  with assms show ?thesis by (auto simp: sv_ok_def simulates_add Let_def split: if_splits)
next
  case (Remove x)
  with assms show ?thesis by (auto simp: sv_ok_def simulates_remove)
qed (use assms in \<open>auto simp: sv_ok_def split: if_splits option.splits\<close>)

lemma sv_run_simulates:
  assumes "sv_run want mq acts s = Some s'" "sv_ok s" "\<Union> (act_admits ` set acts) \<subseteq> A"
  shows "sv_ok s' \<and> simulates A (sh_pool (sv_shared s)) (leases s) (sh_pool (sv_shared s')) (leases s')"
  using assms
proof (induction acts arbitrary: s)
  case (Cons a acts)
  then obtain s1 where 1: "sv_exec want mq a s = Some s1" "sv_run want mq acts s1 = Some s'"
    by (auto split: option.splits)
  have A: "act_admits a \<subseteq> A" "\<Union> (act_admits ` set acts) \<subseteq> A" using Cons.prems(3) by simp_all
  note a = sv_exec_simulates[OF 1(1) Cons.prems(2) A(1)]
  with Cons.IH[OF 1(2) _ A(2)] have b: "sv_ok s'"
    "simulates A (sh_pool (sv_shared s1)) (leases s1) (sh_pool (sv_shared s')) (leases s')" by auto
  have "simulates A (sh_pool (sv_shared s)) (leases s) (sh_pool (sv_shared s')) (leases s')"
    using simulates_trans a b(2) by blast
  with b show ?case by simp
qed simp

lemma sv_init_simps [simp]:
  "sv_ok (sv_init pl mq)" "leases (sv_init pl mq) = {#}" "sh_pool (sv_shared (sv_init pl mq)) = pl"
  by (simp_all add: sv_init_def sv_ok_def leases_def shared_init_def)

lemma serving_pool_run:
  assumes "pool_run (start cfg) ops w" "w_out w = {#}" "sv_run want mq acts (sv_init (w_pool w) mq) = Some s"
  shows "\<exists>ops' w'. pool_run (start cfg) ops' w' \<and> w_pool w' = sh_pool (sv_shared s) \<and> w_out w' = leases s
    \<and> w_admitted w' = held (sh_pool (sv_shared s)) + image_mset p_addr (leases s) + w_evicted w' + w_removed w'
    \<and> evictions (sh_pool (sv_shared s)) = of_nat (size (w_evicted w'))
    \<and> set_mset (w_admitted w') \<subseteq> set_mset (w_admitted w) \<union> \<Union> (act_admits ` set acts)"
proof -
  have "simulates (\<Union> (act_admits ` set acts)) (w_pool w) {#} (sh_pool (sv_shared s)) (leases s)"
    using sv_run_simulates[OF assms(3) _ order.refl] by simp
  from simulatesE[OF this refl, of "{#}"] assms(2) obtain ops' w' where
    r: "pool_run w ops' w'" "w_pool w' = sh_pool (sv_shared s)" "w_out w' = leases s"
    "set_mset (w_admitted w') \<subseteq> \<Union> (act_admits ` set acts) \<union> set_mset (w_admitted w)"
    by (metis add.left_neutral)
  from pool_run_trans[OF r(1) assms(1)] have "pool_run (start cfg) (ops @ ops') w'" .
  moreover from pool_inv_run[OF this pool_inv_start] have "pool_inv cfg w'" .
  ultimately show ?thesis using r by (intro exI[of _ "ops @ ops'"] exI[of _ w']) (auto simp: pool_inv_def)
qed


definition sample_auth :: "auth_expect option" where
  "sample_auth = Some (auth_expect_of ''u:pw'')"

definition sample_conn_act :: sv_act where
  "sample_conn_act = Connect (V4 9 9 9 9) (sample_get_head @ [], REof) sample_outside"

definition sample_task :: client_task where
  "sample_task = \<lparr>tk_peer = V4 9 9 9 9, tk_in = (sample_get_head @ [], REof), tk_ow = sample_outside, tk_pc = New\<rparr>"

definition sample_end :: "sv_act list" where
  "sample_end = [ImportEnd, ImportNotify, sample_conn_act]"

text \<open>The sample client is refused on a server with credentials and goes for a proxy on one without.\<close>

lemma sample_opened:
  "open_call sample_auth \<lparr>tk_peer = V4 9 9 9 9, tk_in = (sample_get_head @ [], REof), tk_ow = sample_outside, tk_pc = New\<rparr> s
    = (Done auth_required, s)"
  using sample_get_parsed[of "o_cw sample_outside" "Some (auth_expect_of ''u:pw'')" "[]" REof]
  by (simp add: open_call_def sample_auth_def auth_ok_def sample_get_request_def auth_expect_of_def split: prod.split)


section \<open>No wake-up is lost\<close>

fun pc_notifies :: "task_pc \<Rightarrow> bool" where
  "pc_notifies (Notifying k) = True"
| "pc_notifies (Getting c a r (GBenched n)) = True"
| "pc_notifies _ = False"

text \<open>Somebody has changed the pool and is about to notify.\<close>

definition notifying :: "serving \<Rightarrow> bool" where
  "notifying s \<longleftrightarrow> sv_import s = Pushed \<or> sv_import s = Ending \<or> list_ex (\<lambda>t. pc_notifies (tk_pc t)) (sv_tasks s)"

definition starved :: "scheme \<Rightarrow> pool \<Rightarrow> bool" where
  "starved sc pl \<longleftrightarrow> list_all (\<lambda>e. \<not> serves sc e) (entries pl)"

text \<open>What a task that has found nothing knows, as long as nobody has notified since it made its waker.\<close>

fun waits_ok :: "pool \<Rightarrow> nat \<Rightarrow> bool \<Rightarrow> task_pc \<Rightarrow> bool" where
  "waits_ok pl ep ntf (Getting c a r (GLook n e)) = (e \<le> ep)"
| "waits_ok pl ep ntf (Getting c a r (GFlag n e)) = (e \<le> ep \<and> (e = ep \<longrightarrow> ntf \<or> starved (rq_scheme (cl_req c)) pl))"
| "waits_ok pl ep ntf (Getting c a r (GSleep n e)) =
     (e \<le> ep \<and> (e = ep \<longrightarrow> ntf \<or> starved (rq_scheme (cl_req c)) pl \<and> \<not> exhausted pl))"
| "waits_ok pl ep ntf _ = True"

fun gate_ok :: "nat \<Rightarrow> pool \<Rightarrow> nat \<Rightarrow> bool \<Rightarrow> gate \<Rightarrow> bool" where
  "gate_ok mq pl ep ntf (GateLen e) = (e \<le> ep)"
| "gate_ok mq pl ep ntf (GateFlag e) = (e \<le> ep \<and> (e = ep \<longrightarrow> ntf \<or> pool_len pl < mq))"
| "gate_ok mq pl ep ntf (GateSleep e) = (e \<le> ep \<and> (e = ep \<longrightarrow> ntf \<or> pool_len pl < mq \<and> \<not> exhausted pl))"
| "gate_ok mq pl ep ntf _ = True"

text \<open>A pool that offers no more than another.\<close>

definition shrinks :: "pool \<Rightarrow> pool \<Rightarrow> bool" where
  "shrinks pl pl' \<longleftrightarrow> mset (entries pl') \<subseteq># mset (entries pl) \<and> (exhausted pl' \<longrightarrow> exhausted pl)"

text \<open>A step after which the waiting tasks still know what they knew: it notifies, or it announces a
  notification, or the pool has not grown.\<close>

definition calm :: "pool \<Rightarrow> nat \<Rightarrow> bool \<Rightarrow> pool \<Rightarrow> nat \<Rightarrow> bool \<Rightarrow> bool" where
  "calm pl ep ntf pl' ep' ntf' \<longleftrightarrow> ep < ep' \<or> ep' = ep \<and> (ntf \<longrightarrow> ntf') \<and> (ntf' \<or> shrinks pl pl')"

lemma shrinks_refl [simp]: "shrinks pl pl"
  by (simp add: shrinks_def)

lemma shrinks_starved: "shrinks pl pl' \<Longrightarrow> starved sc pl \<Longrightarrow> starved sc pl'"
  by (auto simp: shrinks_def starved_def list_all_iff dest: mset_subset_eqD)

lemma shrinks_len: "shrinks pl pl' \<Longrightarrow> pool_len pl' \<le> pool_len pl"
  by (auto simp: shrinks_def pool_len_def dest: size_mset_mono)

lemma shrinks_exhausted: "shrinks pl pl' \<Longrightarrow> exhausted pl' \<Longrightarrow> exhausted pl"
  by (simp add: shrinks_def)

lemma waits_ok_calm: "calm pl ep ntf pl' ep' ntf' \<Longrightarrow> waits_ok pl ep ntf pc \<Longrightarrow> waits_ok pl' ep' ntf' pc"
  by (induction pl ep ntf pc rule: waits_ok.induct)
    (auto simp: calm_def dest: shrinks_starved shrinks_exhausted)

lemma gate_ok_calm: "calm pl ep ntf pl' ep' ntf' \<Longrightarrow> gate_ok mq pl ep ntf g \<Longrightarrow> gate_ok mq pl' ep' ntf' g"
  by (induction mq pl ep ntf g rule: gate_ok.induct)
    (auto simp: calm_def dest: shrinks_len shrinks_exhausted)

lemma shrinks_select: "try_select now sc key pl = (r, pl') \<Longrightarrow> shrinks pl pl'"
proof (cases r)
  case (Some p)
  assume t: "try_select now sc key pl = (r, pl')"
  obtain i where "i < length (entries pl)" "entries pl' = swap_remove i (entries pl)"
    using try_select_Some[OF t[unfolded Some]] by metis
  moreover have "exhausted pl' = exhausted pl" using try_select_simps[of now sc key pl] t by simp
  ultimately show ?thesis by (simp add: shrinks_def mset_swap_remove)
next
  case None
  assume t: "try_select now sc key pl = (r, pl')"
  then show ?thesis using try_select_None(1)[of now sc key pl pl'] try_select_simps[of now sc key pl] None
    by (simp add: shrinks_def)
qed

lemma starved_select: "try_select now sc key pl = (None, pl') \<Longrightarrow> starved sc pl'"
  using try_select_None[of now sc key pl pl'] by (auto simp: starved_def list_all_iff)

lemma shrinks_remove: "shrinks pl (snd (pool_remove a pl))"
  by (simp add: shrinks_def pool_remove_def Let_def)

lemma get_step_calm:
  assumes "get_step live sc key now g pl ep = Some (r, pl', ep')"
  shows "(case g of GBenched n \<Rightarrow> ep' = ep + 1
    | _ \<Rightarrow> ep' = ep \<and> ((\<exists>n. r = GoOn (GBenched n)) \<or> shrinks pl pl'))"
proof (cases g)
  case (GProbe n p)
  with assms show ?thesis by (auto simp: put_failed_def put_inner_def shrinks_def split: if_splits)
qed (use assms in \<open>auto split: prod.splits option.splits if_splits dest: shrinks_select\<close>)

lemma serve_control_shrinks: "shrinks pl (snd (serve_control rq peer h pl))"
  by (auto simp: serve_control_def Let_def split: list.splits option.splits prod.splits intro: shrinks_remove)

lemma pc_step_calm:
  assumes "pc_step want now t pc s = Some (pc', s')" "pc_ok pc"
  shows "calm (sh_pool s) (sh_epoch s) (ntf \<or> pc_notifies pc) (sh_pool s') (sh_epoch s') (ntf \<or> pc_notifies pc')"
proof (cases pc)
  case New
  then show ?thesis using assms serve_control_shrinks[of "sh_pool s" _ "tk_peer t" "sh_history s"]
    by (auto simp: open_call_def calm_def split: prod.splits option.splits if_splits) (metis snd_conv)+
next
  case (Getting c a r g)
  with assms show ?thesis
    by (cases g) (auto simp: calm_def simp del: get_step.simps split: option.splits get_next.splits prod.splits dest!: get_step_calm)
next
  case (Relaying c a r p)
  then show ?thesis using assms by (auto simp: after_relay_def calm_def Let_def split: relay_outcome.splits)
next
  case (Returning failed p q k)
  then show ?thesis using assms
    by (auto simp: calm_def shrinks_def put_back_def put_ok_def put_failed_def put_inner_def split: if_splits)
qed (use assms in \<open>auto simp: calm_def shrinks_def split: if_splits\<close>)

lemma resumable_waits [simp]: "resumable k \<Longrightarrow> waits_ok pl ep ntf k"
  by (cases k) auto

lemma pc_step_waits:
  assumes "pc_step want now t pc s = Some (pc', s')" "pc_ok pc" "waits_ok (sh_pool s) (sh_epoch s) (ntf \<or> pc_notifies pc) pc"
  shows "waits_ok (sh_pool s') (sh_epoch s') (ntf \<or> pc_notifies pc') pc'"
proof (cases pc)
  case New
  then show ?thesis using assms by (auto simp: open_call_def split: prod.splits option.splits if_splits)
next
  case (Getting c a r g)
  then show ?thesis
  proof (cases g)
    case (GLook n e)
    with Getting assms show ?thesis
      by (auto split: prod.splits option.splits if_splits simp: give_up_def starved_select)
  qed (use Getting assms in \<open>auto simp: give_up_def probe_failed_def split: prod.splits option.splits if_splits\<close>)
next
  case (Relaying c a r p)
  then show ?thesis using assms by (auto simp: after_relay_def Let_def split: relay_outcome.splits)
qed (use assms in \<open>auto split: if_splits\<close>)


definition wake_inv :: "nat \<Rightarrow> serving \<Rightarrow> bool" where
  "wake_inv mq s \<longleftrightarrow> sv_ok s
     \<and> (\<forall>t \<in> set (sv_tasks s). waits_ok (sh_pool (sv_shared s)) (sh_epoch (sv_shared s)) (notifying s) (tk_pc t))
     \<and> gate_ok mq (sh_pool (sv_shared s)) (sh_epoch (sv_shared s)) (notifying s) (sv_gate s)"

text \<open>A calm step that leaves the tasks and the gate where they are.\<close>

lemma wake_inv_calm:
  assumes "wake_inv mq s" "sv_tasks s' = sv_tasks s" "sv_gate s' = sv_gate s"
    "calm (sh_pool (sv_shared s)) (sh_epoch (sv_shared s)) (notifying s) (sh_pool (sv_shared s')) (sh_epoch (sv_shared s')) (notifying s')"
  shows "wake_inv mq s'"
  using assms waits_ok_calm[OF assms(4)] gate_ok_calm[OF assms(4)] by (auto simp: wake_inv_def sv_ok_def)

lemma wake_inv_tick:
  assumes "sv_exec want mq (Tick i now) s = Some s'" "wake_inv mq s"
  shows "wake_inv mq s'"
proof -
  obtain pc sh where t: "i < length (sv_tasks s)"
    "pc_step want now (sv_tasks s ! i) (tk_pc (sv_tasks s ! i)) (sv_shared s) = Some (pc, sh)"
    "s' = s\<lparr>sv_shared := sh, sv_tasks := (sv_tasks s)[i := (sv_tasks s ! i)\<lparr>tk_pc := pc\<rparr>]\<rparr>"
    using assms(1) tick_elim by blast
  let ?pc = "tk_pc (sv_tasks s ! i)"
  define ntf where "ntf \<longleftrightarrow> sv_import s = Pushed \<or> sv_import s = Ending
    \<or> (\<exists>j < length (sv_tasks s). j \<noteq> i \<and> pc_notifies (tk_pc (sv_tasks s ! j)))"
  have n: "notifying s = (ntf \<or> pc_notifies ?pc)" "notifying s' = (ntf \<or> pc_notifies pc)"
    using t(1) by (auto simp: notifying_def ntf_def t(3) list_ex_length nth_list_update)
  have ok: "pc_ok ?pc" "waits_ok (sh_pool (sv_shared s)) (sh_epoch (sv_shared s)) (notifying s) ?pc"
    using assms(2) t(1) by (auto simp: wake_inv_def sv_ok_def)
  note c = pc_step_calm[OF t(2) ok(1), of ntf, folded n]
  have own: "waits_ok (sh_pool sh) (sh_epoch sh) (notifying s') pc"
    using pc_step_waits[OF t(2) ok(1), of ntf] ok(2) by (simp add: n)
  have "sv_ok s'" using sv_exec_simulates[OF assms(1)] assms(2) by (simp add: wake_inv_def)
  moreover have "waits_ok (sh_pool sh) (sh_epoch sh) (notifying s') (tk_pc u)" if "u \<in> set (sv_tasks s')" for u
  proof -
    have "u = (sv_tasks s ! i)\<lparr>tk_pc := pc\<rparr> \<or> u \<in> set (sv_tasks s)"
      using that t(3) set_update_subset_insert by fastforce
    then show ?thesis using own assms(2) waits_ok_calm[OF c] by (auto simp: wake_inv_def)
  qed
  moreover have "gate_ok mq (sh_pool sh) (sh_epoch sh) (notifying s') (sv_gate s')"
    using gate_ok_calm[OF c] assms(2) t(3) by (simp add: wake_inv_def)
  ultimately show ?thesis using t(3) by (simp add: wake_inv_def)
qed

lemma wake_inv_gate:
  assumes "sv_exec want mq Gate s = Some s'" "wake_inv mq s"
  shows "wake_inv mq s'"
proof -
  obtain g where g: "gate_step mq (sh_pool (sv_shared s)) (sh_epoch (sv_shared s)) (sv_gate s) = Some g" "s' = s\<lparr>sv_gate := g\<rparr>"
    using assms(1) by (auto split: option.splits)
  have "notifying s' = notifying s" by (simp add: notifying_def g(2))
  with assms(2) g show ?thesis
    by (cases "sv_gate s") (auto simp: gate_step_def wake_inv_def sv_ok_def not_le split: if_splits)
qed

lemma wake_inv_exec:
  assumes "sv_exec want mq a s = Some s'" "wake_inv mq s"
  shows "wake_inv mq s'"
proof (cases a)
  case (Tick i now)
  with assms show ?thesis using wake_inv_tick by blast
next
  case Gate
  with assms show ?thesis using wake_inv_gate by blast
next
  case (Connect pr inp ow)
  then have "notifying s' = notifying s" using assms(1) by (auto simp: notifying_def split: if_splits)
  with assms Connect show ?thesis by (auto simp: wake_inv_def sv_ok_def split: if_splits)
next
  case (Import p)
  with assms show ?thesis
    by (intro wake_inv_calm[OF assms(2)]) (auto simp: calm_def notifying_def import_one_def split: if_splits)
next
  case ImportEnd
  with assms show ?thesis
    by (intro wake_inv_calm[OF assms(2)]) (auto simp: calm_def notifying_def split: if_splits)
next
  case ImportNotify
  with assms show ?thesis
    by (intro wake_inv_calm[OF assms(2)]) (auto simp: calm_def notifying_def split: importer.splits)
next
  case (Add p)
  moreover have "pool_add p pl = pl" if "p_addr p \<in> addrs pl" for pl
    using that by (auto simp: pool_add_def addrs_iff list_ex_iff at_addr_def)
  ultimately show ?thesis using assms
    by (intro wake_inv_calm[OF assms(2)]) (auto simp: calm_def notifying_def Let_def split: if_splits)
next
  case (Remove x)
  with assms show ?thesis
    by (intro wake_inv_calm[OF assms(2)]) (auto simp: calm_def notifying_def shrinks_remove)
next
  case Shutdown
  with assms show ?thesis by (intro wake_inv_calm[OF assms(2)]) (auto simp: calm_def notifying_def)
next
  case Close
  then have "notifying s' = notifying s" using assms(1) by (auto simp: notifying_def split: if_splits)
  with assms Close show ?thesis by (auto simp: wake_inv_def sv_ok_def split: if_splits)
next
  case AcceptFailed
  with assms show ?thesis by (simp split: if_splits)
qed

lemma wake_inv_init: "wake_inv mq (sv_init pl mq)"
  by (simp add: wake_inv_def sv_init_def sv_ok_def)

lemma wake_inv_run: "sv_run want mq acts (sv_init pl mq) = Some s \<Longrightarrow> wake_inv mq s"
  using sv_run_invariant[where I = "wake_inv mq"] wake_inv_exec wake_inv_init by metis

text \<open>C3. No wake-up is lost: in every interleaving, a client that is suspended in \<open>get\<close> and has not been
  notified since it looked has nothing to take (no pooled proxy serves its scheme and the source is not
  exhausted), unless somebody is just about to notify; and the start-up gate sleeps only while there are
  fewer proxies than \<open>min_queue\<close> and more may come.\<close>

theorem no_lost_wakeup:
  assumes "sv_run want mq acts (sv_init pl mq) = Some s" "\<not> notifying s"
  shows "(\<forall>t \<in> set (sv_tasks s). \<forall>c a r n. tk_pc t = Getting c a r (GSleep n (sh_epoch (sv_shared s)))
       \<longrightarrow> \<not> exhausted (sh_pool (sv_shared s)) \<and> list_all (\<lambda>e. \<not> serves (rq_scheme (cl_req c)) e) (entries (sh_pool (sv_shared s))))
    \<and> (sv_gate s = GateSleep (sh_epoch (sv_shared s))
       \<longrightarrow> \<not> exhausted (sh_pool (sv_shared s)) \<and> pool_len (sh_pool (sv_shared s)) < mq)"
  using wake_inv_run[OF assms(1)] assms(2) by (fastforce simp: wake_inv_def starved_def)


text \<open>A client of an empty pool that is still being filled.\<close>

definition sample_wait :: "sv_act list" where
  "sample_wait = [sample_conn_act, Tick 0 1, Tick 0 2, Tick 0 3, Tick 0 4]"

lemma sample_waits:
  "\<exists>s c. sv_run None 0 sample_wait (sv_init (spawned pool_config_default) 0) = Some s \<and> \<not> notifying s
    \<and> sv_tasks s = [sample_task\<lparr>tk_pc := Getting c 0 2 (GSleep 0 (sh_epoch (sv_shared s)))\<rparr>]"
proof -
  have o: "open_call None \<lparr>tk_peer = V4 9 9 9 9, tk_in = (sample_get_head @ [], REof), tk_ow = sample_outside, tk_pc = New\<rparr> s
      = (Getting (call_of sample_outside (V4 9 9 9 9) pool_config_default sample_get_request ([], REof) []) 0 2 (GWaker 0), s)"
    if "config (sh_pool s) = pool_config_default" for s
    using sample_get_parsed[of "o_cw sample_outside" None "[]" REof] that
    by (simp add: open_call_def auth_ok_def sample_get_request_def next_attempt_def pool_config_default_def split: prod.split)
  have t: "try_select now SHttp key (spawned pool_config_default) = (None, spawned pool_config_default)" for now key
    by (simp add: try_select_def best_for_def the_tier_def tier_of_def select_ctx_of_def spawned_def)
  show ?thesis
    using o[of "shared_init (spawned pool_config_default)"] t
    by (simp add: sample_wait_def sv_init_def task_step_def sample_conn_act_def spawned_def shared_init_def sample_task_def notifying_def
       call_of_def sample_get_request_def)
qed

theorem no_lost_wakeup_witness:
  "\<exists>s. sv_run None 0 sample_wait (sv_init (spawned pool_config_default) 0) = Some s \<and> \<not> notifying s
    \<and> (\<forall>t \<in> set (sv_tasks s). \<forall>c a r n. tk_pc t = Getting c a r (GSleep n (sh_epoch (sv_shared s)))
       \<longrightarrow> \<not> exhausted (sh_pool (sv_shared s)) \<and> list_all (\<lambda>e. \<not> serves (rq_scheme (cl_req c)) e) (entries (sh_pool (sv_shared s))))"
proof -
  obtain s where s: "sv_run None 0 sample_wait (sv_init (spawned pool_config_default) 0) = Some s" "\<not> notifying s"
    using sample_waits by blast
  from no_lost_wakeup[OF this] s show ?thesis by blast
qed


section \<open>The accept loop\<close>

lemma gate_step_ready: "gate_step mq pl ep g = Some Accepting \<Longrightarrow> wait_ready_done mq pl"
  by (auto simp: gate_step_def wait_ready_done_def split: gate.splits if_splits)

text \<open>An action that opens the gate finds the pool ready; without one, no connection is accepted.\<close>

lemma sv_exec_opens:
  assumes "sv_exec want mq a s = Some s'" "sv_gate s' = Accepting \<or> sv_tasks s' \<noteq> []"
  shows "sv_gate s = Accepting \<or> sv_tasks s \<noteq> [] \<or> wait_ready_done mq (sh_pool (sv_shared s))"
proof (cases a)
  case Gate
  with assms show ?thesis by (auto split: option.splits dest: gate_step_ready)
next
  case (Add p)
  with assms show ?thesis by (auto simp: Let_def split: if_splits)
qed (use assms in \<open>auto split: if_splits importer.splits option.splits\<close>)

text \<open>C22. The server accepts nobody before its pool is ready: when a connection has been accepted, there was
  a moment before it at which the pool held \<open>min_queue\<close> proxies or its source was exhausted. (Once the
  accept loop has ended, nobody is accepted any more: \<open>closed_run\<close>.)\<close>

theorem served_after_ready:
  assumes "sv_run want mq acts (sv_init pl mq) = Some s" "sv_tasks s \<noteq> []"
  shows "\<exists>n s0. sv_run want mq (take n acts) (sv_init pl mq) = Some s0 \<and> wait_ready_done mq (sh_pool (sv_shared s0))"
proof -
  have "(sv_gate s = Accepting \<or> sv_tasks s \<noteq> []) \<Longrightarrow> ?thesis" using assms(1)
  proof (induction acts arbitrary: s rule: rev_induct)
    case Nil
    then show ?case by (intro exI[of _ 0]) (auto simp: sv_init_def wait_ready_done_def split: if_splits)
  next
    case (snoc a acts)
    then obtain s1 where 1: "sv_run want mq acts (sv_init pl mq) = Some s1" "sv_exec want mq a s1 = Some s"
      by (auto simp del: sv_exec.simps simp: sv_run_append split: option.splits)
    show ?case
    proof (cases "sv_gate s1 = Accepting \<or> sv_tasks s1 \<noteq> []")
      case True
      with snoc.IH[OF _ 1(1)] obtain n s0 where "sv_run want mq (take n acts) (sv_init pl mq) = Some s0"
        "wait_ready_done mq (sh_pool (sv_shared s0))" by blast
      then show ?thesis using 1(1) by (intro exI[of _ "min n (length acts)"]) (auto simp: min_def split: if_splits)
    next
      case False
      with sv_exec_opens[OF 1(2)] snoc.prems(1) 1(1) show ?thesis by (intro exI[of _ "length acts"]) auto
    qed
  qed
  with assms(2) show ?thesis by blast
qed

theorem served_after_ready_witness:
  "\<exists>n s0. sv_run sample_auth 3 (take n [ImportEnd, Gate, Gate, Gate, sample_conn_act]) (sv_init (spawned pool_config_default) 3) = Some s0
    \<and> wait_ready_done 3 (sh_pool (sv_shared s0))"
proof -
  obtain s where "sv_run sample_auth 3 [ImportEnd, Gate, Gate, Gate, sample_conn_act] (sv_init (spawned pool_config_default) 3) = Some s"
    "sv_tasks s \<noteq> []"
    by (simp add: sv_init_def spawned_def sample_conn_act_def set_pool_def shared_init_def gate_step_def pool_len_def import_end_def)
  then show ?thesis by (rule served_after_ready)
qed

lemma closed_exec:
  assumes "sv_exec want mq a s = Some s'" "sv_gate s = Closed"
  shows "sv_gate s' = Closed \<and> length (sv_tasks s') = length (sv_tasks s)"
proof (cases a)
  case (Add p)
  with assms show ?thesis by (auto simp: Let_def split: if_splits)
qed (use assms in \<open>auto simp: gate_step_def split: if_splits importer.splits option.splits\<close>)

lemma closed_run:
  assumes "sv_run want mq acts s = Some s'" "sv_gate s = Closed"
  shows "sv_gate s' = Closed \<and> length (sv_tasks s') = length (sv_tasks s)"
  using assms
proof (induction acts arbitrary: s)
  case (Cons a acts)
  then show ?case using closed_exec[of want mq a s] by (auto simp del: sv_exec.simps split: option.splits)
qed simp

end
