(* ===== verification/Serving_Run.thy ===== *)
theory Serving_Run
  imports Serving_Spec
begin

text \<open>
  What the clients of the running server get: that every one of them is answered once the source of the
  pool is exhausted, that an answer comes from one attempt, and that the steps of a client that runs
  alone are the handler of \<open>Server\<close>.
\<close>

section \<open>Frames\<close>

lemma get_step_frame:
  assumes "get_step live sc key now g pl ep = Some (r, pl', ep')"
  shows "config pl' = config pl" "exhausted pl' = exhausted pl"
proof -
  have t: "config pl1 = config pl" "exhausted pl1 = exhausted pl" if "try_select now sc key pl = (x, pl1)" for x pl1
    using try_select_simps(1,2)[of now sc key pl] that by simp_all
  show "config pl' = config pl" "exhausted pl' = exhausted pl"
    using assms by (cases g; auto simp: put_failed_def split: prod.splits option.splits if_splits dest: t)+
qed

lemma serve_control_frame [simp]:
  "config (snd (serve_control rq peer h pl)) = config pl" "exhausted (snd (serve_control rq peer h pl)) = exhausted pl"
  by (auto simp: serve_control_def Let_def pool_remove_def split: list.splits option.splits prod.splits)

lemma open_call_pool:
  assumes "open_call want t s = (pc, s')"
  shows "sh_pool s' = sh_pool s \<or> (\<exists>rq. sh_pool s' = snd (serve_control rq (tk_peer t) (sh_history s) (sh_pool s)))"
proof (cases "parse_client_request (o_cw (tk_ow t)) want (tk_in t)")
  case (Pair q w)
  have "\<exists>rq. sh_pool (s\<lparr>sh_pool := pl\<rparr>) = snd (serve_control rq (tk_peer t) (sh_history s) (sh_pool s))"
    if "serve_control rq (tk_peer t) (sh_history s) (sh_pool s) = (out, pl)" for rq out pl
    using that by (intro exI[of _ rq]) simp
  with Pair assms show ?thesis by (auto simp: open_call_def split: prod.splits option.splits if_splits)
qed

lemma pc_step_frame:
  assumes "pc_step want now t pc s = Some (pc', s')"
  shows "config (sh_pool s') = config (sh_pool s)" "exhausted (sh_pool s') = exhausted (sh_pool s)"
proof -
  have "config (sh_pool s') = config (sh_pool s) \<and> exhausted (sh_pool s') = exhausted (sh_pool s)"
  proof (cases pc)
    case New
    then show ?thesis using assms open_call_pool[of want t s pc' s'] by auto
  next
    case (Getting c a r g)
    then show ?thesis using assms
      by (auto split: option.splits get_next.splits prod.splits dest: get_step_frame)
  next
    case (Relaying c a r p)
    then show ?thesis using assms by (auto simp: after_relay_def Let_def split: relay_outcome.splits)
  qed (use assms in \<open>auto simp: put_back_def put_ok_def put_failed_def split: if_splits\<close>)
  then show "config (sh_pool s') = config (sh_pool s)" "exhausted (sh_pool s') = exhausted (sh_pool s)" by auto
qed

section \<open>Every client is answered\<close>

fun get_rank :: "get_pc \<Rightarrow> nat" where
  "get_rank (GSleep n e) = (verify_max_attempts - n) * 8 + 7"
| "get_rank (GWaker n) = (verify_max_attempts - n) * 8 + 6"
| "get_rank (GLook n e) = (verify_max_attempts - n) * 8 + 5"
| "get_rank (GFlag n e) = (verify_max_attempts - n) * 8 + 4"
| "get_rank (GProbe n p) = (verify_max_attempts - n) * 8 + 4"
| "get_rank (GBenched n) = (verify_max_attempts - n) * 8 + 3"
| "get_rank GLast = 1"

text \<open>A bound on the steps of a task over an exhausted pool, for a limit \<open>m\<close> of tries.\<close>

fun pc_rank :: "nat \<Rightarrow> task_pc \<Rightarrow> nat" where
  "pc_rank m New = m * 100 + 200"
| "pc_rank m (Getting c a r g) = r * 100 + 10 + get_rank g"
| "pc_rank m (Drawn c a r p) = r * 100 + 9"
| "pc_rank m (Relaying c a r p) = r * 100 + 8"
| "pc_rank m (Returning failed p q k) = pc_rank m k + 2"
| "pc_rank m (Notifying k) = pc_rank m k + 1"
| "pc_rank m (Done out) = 0"

lemma get_rank_step:
  assumes "get_step live sc key now g pl ep = Some (GoOn g', pl', ep')" "exhausted pl"
  shows "get_rank g' < get_rank g"
  using assms
  by (cases g) (auto simp: probe_failed_def verify_max_attempts_def split: prod.splits option.splits if_splits)

lemma next_attempt_rank [simp]: "pc_rank m (next_attempt c a r) \<le> r * 100" "pc_rank m (give_up c) = 0"
  by (simp_all add: next_attempt_def give_up_def verify_max_attempts_def split: nat.split)

lemma get_rank_pos: "0 < get_rank g"
  by (cases g) auto

lemma pc_rank_step:
  assumes "pc_step want now t pc s = Some (pc', s')" "exhausted (sh_pool s)" "m = max_tries (config (sh_pool s))"
  shows "pc_rank m pc' < pc_rank m pc"
proof (cases pc)
  case New
  have "pc_rank m (next_attempt c 0 m) < m * 100 + 200" for c
    using next_attempt_rank(1)[of m c 0 m] by linarith
  with New assms show ?thesis by (auto simp: open_call_def split: prod.splits option.splits if_splits)
next
  case (Getting c a r g)
  with assms get_rank_pos[of g] show ?thesis
    by (auto simp del: get_step.simps split: option.splits get_next.splits prod.splits dest!: get_rank_step)
next
  case (Relaying c a r p)
  have "pc_rank m (next_attempt c (a + 1) r) + 2 < r * 100 + 8" using next_attempt_rank(1)[of m c "a + 1" r] by linarith
  with Relaying assms show ?thesis by (auto simp: after_relay_def Let_def split: relay_outcome.splits)
qed (use assms in \<open>auto split: if_splits\<close>)

definition work :: "serving \<Rightarrow> nat" where
  "work s = sum_list (map (\<lambda>t. pc_rank (max_tries (config (sh_pool (sv_shared s)))) (tk_pc t)) (sv_tasks s))"

lemma work_tick:
  assumes "sv_exec want mq (Tick i now) s = Some s'" "exhausted (sh_pool (sv_shared s))"
  shows "work s' < work s \<and> exhausted (sh_pool (sv_shared s')) \<and> sv_import s' = sv_import s"
proof -
  obtain pc sh where t: "i < length (sv_tasks s)"
    "pc_step want now (sv_tasks s ! i) (tk_pc (sv_tasks s ! i)) (sv_shared s) = Some (pc, sh)"
    "s' = s\<lparr>sv_shared := sh, sv_tasks := (sv_tasks s)[i := (sv_tasks s ! i)\<lparr>tk_pc := pc\<rparr>]\<rparr>"
    using assms(1) tick_elim by blast
  let ?m = "max_tries (config (sh_pool (sv_shared s)))"
  have "pc_rank ?m pc < pc_rank ?m (tk_pc (sv_tasks s ! i))" using pc_rank_step[OF t(2) assms(2) refl] .
  then show ?thesis
    using t(1) pc_step_frame[OF t(2)] assms(2) unfolding work_def t(3) by (auto intro!: sum_list_update_less)
qed

lemma work_ticks:
  assumes "sv_run want mq (map (\<lambda>(i, now). Tick i now) ticks) s = Some s'" "exhausted (sh_pool (sv_shared s))"
  shows "length ticks + work s' \<le> work s \<and> exhausted (sh_pool (sv_shared s')) \<and> sv_import s' = sv_import s"
  using assms
proof (induction ticks arbitrary: s)
  case (Cons x ticks)
  then obtain s1 where 1: "sv_exec want mq (Tick (fst x) (snd x)) s = Some s1"
    "sv_run want mq (map (\<lambda>(i, now). Tick i now) ticks) s1 = Some s'"
    by (auto simp del: sv_exec.simps split: option.splits prod.splits)
  with work_tick[OF 1(1) Cons.prems(2)] Cons.IH[OF 1(2)] show ?case by auto
qed simp

lemma import_exhausted:
  assumes "sv_run want mq acts (sv_init pl mq) = Some s"
  shows "sv_import s \<in> {Ending, Finished} \<longrightarrow> exhausted (sh_pool (sv_shared s))"
proof -
  let ?I = "\<lambda>s. sv_import s \<in> {Ending, Finished} \<longrightarrow> exhausted (sh_pool (sv_shared s))"
  have "?I s'" if "sv_exec want mq a u = Some s'" "?I u" for a u s'
  proof (cases a)
    case (Tick i now)
    with that(1) obtain pc sh where
      "pc_step want now (sv_tasks u ! i) (tk_pc (sv_tasks u ! i)) (sv_shared u) = Some (pc, sh)"
      "s' = u\<lparr>sv_shared := sh, sv_tasks := (sv_tasks u)[i := (sv_tasks u ! i)\<lparr>tk_pc := pc\<rparr>]\<rparr>"
      using tick_elim by blast
    then show ?thesis using that(2) pc_step_frame(2) by auto
  next
    case (Add p)
    with that show ?thesis by (auto simp: Let_def pool_add_def split: if_splits)
  qed (use that in \<open>auto simp: import_one_def import_end_def pool_remove_def Let_def split: if_splits importer.splits option.splits\<close>)
  then show ?thesis
    using sv_run_invariant[of ?I want mq acts "sv_init pl mq" s] assms by (auto simp: sv_init_def shared_init_def)
qed

text \<open>A task that cannot step is done, or it is suspended and not yet notified.\<close>

lemma pc_step_None:
  "pc_step want now t pc s = None
    \<longleftrightarrow> (\<exists>out. pc = Done out) \<or> (\<exists>c a r n e. pc = Getting c a r (GSleep n e) \<and> \<not> e < sh_epoch s)"
proof (cases pc)
  case (Getting c a r g)
  then show ?thesis
    by (cases g) (auto split: prod.splits option.splits get_next.splits if_splits)
qed auto

lemma tick_None:
  "i < length (sv_tasks s) \<Longrightarrow> sv_exec want mq (Tick i now) s = None
    \<longleftrightarrow> pc_step want now (sv_tasks s ! i) (tk_pc (sv_tasks s ! i)) (sv_shared s) = None"
  by (simp add: task_step_def split: option.split)

lemma stuck_done:
  assumes "wake_inv mq s" "sv_import s = Finished" "exhausted (sh_pool (sv_shared s))"
    "\<And>i. i < length (sv_tasks s) \<Longrightarrow> sv_exec want mq (Tick i now) s = None"
  shows "\<forall>t \<in> set (sv_tasks s). \<exists>out. tk_pc t = Done out"
proof -
  have none: "pc_step want now t (tk_pc t) (sv_shared s) = None" if "t \<in> set (sv_tasks s)" for t
    using that assms(4) tick_None[of _ s] by (metis in_set_conv_nth)
  have "\<not> pc_notifies (tk_pc t)" if "t \<in> set (sv_tasks s)" for t
    using none[OF that] unfolding pc_step_None by auto
  then have n: "\<not> notifying s" using assms(2) by (auto simp: notifying_def list_ex_iff)
  show ?thesis
  proof
    fix t assume t: "t \<in> set (sv_tasks s)"
    have "waits_ok (sh_pool (sv_shared s)) (sh_epoch (sv_shared s)) (notifying s) (tk_pc t)"
      using assms(1) t by (simp add: wake_inv_def)
    with none[OF t, unfolded pc_step_None] n assms(3) show "\<exists>out. tk_pc t = Done out" by auto
  qed
qed




section \<open>What a client is sent\<close>

text \<open>What a connection may be sent: a refusal, an answer of the control interface (for some state of the
  pool and the history), or, after what the handshake wrote, the bytes of one attempt within the limit of
  tries or the failure reply of its protocol.\<close>

definition served_as :: "auth_expect option \<Rightarrow> pool_config \<Rightarrow> client_task \<Rightarrow> call \<Rightarrow> bool" where
  "served_as want cfg t c \<longleftrightarrow>
     (\<exists>rq ci w. parse_client_request (o_cw (tk_ow t)) want (tk_in t) = (Some (rq, ci), w) \<and> auth_ok want rq
        \<and> rq_host rq \<noteq> ''proxycontrol'' \<and> c = call_of (tk_ow t) (tk_peer t) cfg rq ci w)"

definition attempt_bytes :: "pool_config \<Rightarrow> client_task \<Rightarrow> call \<Rightarrow> string \<Rightarrow> bool" where
  "attempt_bytes cfg t c out \<longleftrightarrow> out = cl_sent c @ terminal_failure (rq_frontend (cl_req c))
     \<or> (\<exists>k < max_tries cfg. \<exists>p. out = cl_sent c @ ro_client (relay_of (tk_ow t) c k cfg p))"

definition answer_ok :: "auth_expect option \<Rightarrow> pool_config \<Rightarrow> client_task \<Rightarrow> string \<Rightarrow> bool" where
  "answer_ok want cfg t out \<longleftrightarrow>
     (case parse_client_request (o_cw (tk_ow t)) want (tk_in t) of
        (None, w) \<Rightarrow> out = w
      | (Some (rq, ci), w) \<Rightarrow>
         if \<not> auth_ok want rq then out = w @ auth_required
         else if rq_host rq = ''proxycontrol'' then \<exists>h pl. out = w @ fst (serve_control rq (tk_peer t) h pl)
         else attempt_bytes cfg t (call_of (tk_ow t) (tk_peer t) cfg rq ci w) out)"

fun pc_serves :: "auth_expect option \<Rightarrow> pool_config \<Rightarrow> client_task \<Rightarrow> task_pc \<Rightarrow> bool" where
  "pc_serves want cfg t New = True"
| "pc_serves want cfg t (Getting c a r g) = (served_as want cfg t c \<and> a + r < max_tries cfg)"
| "pc_serves want cfg t (Drawn c a r p) = (served_as want cfg t c \<and> a + r < max_tries cfg)"
| "pc_serves want cfg t (Relaying c a r p) = (served_as want cfg t c \<and> a + r < max_tries cfg)"
| "pc_serves want cfg t (Returning failed p q k) = pc_serves want cfg t k"
| "pc_serves want cfg t (Notifying k) = pc_serves want cfg t k"
| "pc_serves want cfg t (Done out) = answer_ok want cfg t out"

lemma served_answer: "served_as want cfg t c \<Longrightarrow> attempt_bytes cfg t c out \<Longrightarrow> answer_ok want cfg t out"
  by (auto simp: served_as_def answer_ok_def)

lemma serves_give_up: "served_as want cfg t c \<Longrightarrow> pc_serves want cfg t (give_up c)"
  by (auto simp: give_up_def attempt_bytes_def intro: served_answer)

lemma serves_next: "served_as want cfg t c \<Longrightarrow> a + r \<le> max_tries cfg \<Longrightarrow> pc_serves want cfg t (next_attempt c a r)"
  by (auto simp: next_attempt_def serves_give_up split: nat.split)

lemma pc_step_serves:
  assumes "pc_step want now t pc s = Some (pc', s')" "pc_serves want (config (sh_pool s)) t pc"
  shows "pc_serves want (config (sh_pool s)) t pc'"
proof (cases pc)
  case New
  show ?thesis
  proof (cases "parse_client_request (o_cw (tk_ow t)) want (tk_in t)")
    case (Pair q w)
    have "\<exists>h pl. out = fst (serve_control rq (tk_peer t) h pl)"
      if "serve_control rq (tk_peer t) (sh_history s) (sh_pool s) = (out, pl')" for rq out pl'
      using that by (metis fst_conv)
    with New assms Pair show ?thesis
      by (auto simp: open_call_def answer_ok_def served_as_def intro!: serves_next split: prod.splits option.splits if_splits)
  qed
next
  case (Getting c a r g)
  with assms show ?thesis
    by (auto simp del: get_step.simps simp: serves_give_up split: option.splits get_next.splits prod.splits)
next
  case (Relaying c a r p)
  let ?cfg = "config (sh_pool s)"
  have c: "served_as want ?cfg t c" "a + r < max_tries ?cfg" using assms(2) Relaying by auto
  have "attempt_bytes ?cfg t c (cl_sent c @ ro_client (relay_of (tk_ow t) c a ?cfg p))"
    using c(2) unfolding attempt_bytes_def by (intro disjI2 exI[of _ a] conjI exI[of _ p]) auto
  then have "answer_ok want ?cfg t (cl_sent c @ ro_client (relay_of (tk_ow t) c a ?cfg p))" using served_answer[OF c(1)] by blast
  moreover have "pc_serves want ?cfg t (next_attempt c (a + 1) r)" using serves_next[OF c(1)] c(2) by simp
  ultimately show ?thesis using assms(1) Relaying by (auto simp: after_relay_def Let_def split: relay_outcome.splits)
qed (use assms in \<open>auto split: if_splits\<close>)

lemma attempt_bytes_pc [simp]: "attempt_bytes cfg (t\<lparr>tk_pc := pc\<rparr>) c out = attempt_bytes cfg t c out"
  by (simp add: attempt_bytes_def)

lemma answer_ok_pc [simp]:
  "answer_ok want cfg (t\<lparr>tk_pc := pc\<rparr>) out = answer_ok want cfg t out"
  "served_as want cfg (t\<lparr>tk_pc := pc\<rparr>) c = served_as want cfg t c"
  by (auto simp: answer_ok_def served_as_def split: prod.splits option.splits)

lemma pc_serves_pc [simp]: "pc_serves want cfg (t\<lparr>tk_pc := pc'\<rparr>) pc = pc_serves want cfg t pc"
  by (induction pc) auto

definition serves_inv :: "auth_expect option \<Rightarrow> pool_config \<Rightarrow> serving \<Rightarrow> bool" where
  "serves_inv want cfg s \<longleftrightarrow> config (sh_pool (sv_shared s)) = cfg \<and> (\<forall>t \<in> set (sv_tasks s). pc_serves want cfg t (tk_pc t))"

lemma serves_inv_exec:
  assumes "sv_exec want mq a s = Some s'" "serves_inv want cfg s"
  shows "serves_inv want cfg s'"
proof (cases a)
  case (Tick i now)
  obtain pc sh where t: "i < length (sv_tasks s)"
    "pc_step want now (sv_tasks s ! i) (tk_pc (sv_tasks s ! i)) (sv_shared s) = Some (pc, sh)"
    "s' = s\<lparr>sv_shared := sh, sv_tasks := (sv_tasks s)[i := (sv_tasks s ! i)\<lparr>tk_pc := pc\<rparr>]\<rparr>"
    using assms(1) Tick tick_elim by blast
  have "pc_serves want cfg (sv_tasks s ! i) pc"
    using pc_step_serves[OF t(2)] assms(2) t(1) by (auto simp: serves_inv_def)
  then show ?thesis
    using assms(2) pc_step_frame(1)[OF t(2)] unfolding serves_inv_def t(3)
    by (auto dest!: set_update_subset_insert[THEN subsetD])
qed (use assms in \<open>auto simp: serves_inv_def import_one_def import_end_def pool_remove_def Let_def
      split: if_splits importer.splits option.splits\<close>)




section \<open>A client alone\<close>

declare split_paired_All [simp del] split_paired_Ex [simp del]

fun run_task :: "auth_expect option \<Rightarrow> instant list \<Rightarrow> client_task \<Rightarrow> shared \<Rightarrow> (client_task \<times> shared) option" where
  "run_task want [] t s = Some (t, s)"
| "run_task want (now # nows) t s =
     (case task_step want now t s of None \<Rightarrow> None | Some (t', s') \<Rightarrow> run_task want nows t' s')"

lemma pc_step_pc [simp]: "pc_step want now (t\<lparr>tk_pc := x\<rparr>) pc s = pc_step want now t pc s"
  by (cases pc) (auto simp: open_call_def after_relay_def Let_def split: prod.split option.split relay_outcome.split)

definition reaches :: "auth_expect option \<Rightarrow> client_task \<Rightarrow> task_pc \<times> shared \<Rightarrow> task_pc \<times> shared \<Rightarrow> bool" where
  "reaches want t x y \<longleftrightarrow> (\<exists>nows. run_task want nows (t\<lparr>tk_pc := fst x\<rparr>) (snd x) = Some (t\<lparr>tk_pc := fst y\<rparr>, snd y))"

lemma reaches_refl: "reaches want t x x"
  unfolding reaches_def by (rule exI[of _ "[]"]) simp

lemma reaches_step:
  assumes "pc_step want now t pc s = Some x" "reaches want t x y"
  shows "reaches want t (pc, s) y"
proof -
  obtain nows where "run_task want nows (t\<lparr>tk_pc := fst x\<rparr>) (snd x) = Some (t\<lparr>tk_pc := fst y\<rparr>, snd y)"
    using assms(2) by (auto simp: reaches_def)
  then show ?thesis unfolding reaches_def
    using assms(1) by (intro exI[of _ "now # nows"]) (cases x, simp add: task_step_def)
qed

lemma run_task_append:
  "run_task want (xs @ ys) t s = (case run_task want xs t s of None \<Rightarrow> None | Some (t', s') \<Rightarrow> run_task want ys t' s')"
  by (induction xs arbitrary: t s) (auto split: option.splits)

lemma reaches_trans: "reaches want t x y \<Longrightarrow> reaches want t y z \<Longrightarrow> reaches want t x z"
  unfolding reaches_def
proof (elim exE)
  fix xs ys
  assume "run_task want xs (t\<lparr>tk_pc := fst x\<rparr>) (snd x) = Some (t\<lparr>tk_pc := fst y\<rparr>, snd y)"
    "run_task want ys (t\<lparr>tk_pc := fst y\<rparr>) (snd y) = Some (t\<lparr>tk_pc := fst z\<rparr>, snd z)"
  then show "\<exists>nows. run_task want nows (t\<lparr>tk_pc := fst x\<rparr>) (snd x) = Some (t\<lparr>tk_pc := fst z\<rparr>, snd z)"
    by (intro exI[of _ "xs @ ys"]) (simp add: run_task_append)
qed

lemma reaches_config: "reaches want t x y \<Longrightarrow> config (sh_pool (snd y)) = config (sh_pool (snd x))"
proof -
  have "run_task want nows t s = Some (t', s') \<Longrightarrow> config (sh_pool s') = config (sh_pool s)" for nows t t' s s'
  proof (induction nows arbitrary: t s)
    case (Cons now nows)
    then show ?case by (auto simp: task_step_def split: option.splits dest: pc_step_frame)
  qed simp
  then show "reaches want t x y \<Longrightarrow> ?thesis" by (auto simp: reaches_def)
qed

text \<open>A call of \<open>get\<close> that nobody interferes with does what \<open>get_loop\<close> does.\<close>

definition got :: "call \<Rightarrow> nat \<Rightarrow> nat \<Rightarrow> lease \<Rightarrow> nat \<Rightarrow> task_pc" where
  "got c a r l ep = (case l of Leased p \<Rightarrow> Drawn c a r p | NoProxies \<Rightarrow> give_up c | Waiting n \<Rightarrow> Getting c a r (GSleep n ep))"

abbreviation live_of :: "client_task \<Rightarrow> nat \<Rightarrow> pool_config \<Rightarrow> nat \<Rightarrow> proxy \<Rightarrow> bool" where
  "live_of t a cfg \<equiv> (\<lambda>n p. verify_live cfg (o_probe (tk_ow t) a n p) p)"

text \<open>Nothing found: the flag, and the last look of an exhausted pool.\<close>

lemma empty_reaches:
  assumes "starved (rq_scheme (cl_req c)) (sh_pool s)"
    "(l, pl) = (if exhausted (sh_pool s) then
       (case try_select now (rq_scheme (cl_req c)) (cl_key c) (sh_pool s) of (Some p, pl) \<Rightarrow> (Leased p, pl) | (None, pl) \<Rightarrow> (NoProxies, pl))
     else (Waiting n, sh_pool s))"
  shows "reaches want t (Getting c a r (GFlag n (sh_epoch s)), s) (got c a r l (sh_epoch s), s\<lparr>sh_pool := pl\<rparr>)"
proof (cases "exhausted (sh_pool s)")
  case True
  then have "reaches want t (Getting c a r GLast, s) (got c a r l (sh_epoch s), s\<lparr>sh_pool := pl\<rparr>)"
    using assms(2) by (intro reaches_step[where now = now, OF _ reaches_refl]) (auto simp: got_def split: prod.splits option.splits)
  with True show ?thesis by (intro reaches_step[where now = 0 and pc = "Getting c a r (GFlag n (sh_epoch s))"]) simp_all
next
  case False
  then show ?thesis using assms(2) by (intro reaches_step[where now = 0, OF _ reaches_refl]) (simp_all add: got_def)
qed

text \<open>A probe that fails: the proxy goes back, benched or evicted.\<close>

lemma bench_reaches:
  assumes "\<not> live_of t a (config (sh_pool s)) n p"
  shows "\<exists>ep. \<forall>y. reaches want t (if verify_max_attempts \<le> n + 1 then give_up c else Getting c a r (GWaker (n + 1)),
      s\<lparr>sh_pool := put_failed now p (sh_pool s), sh_epoch := ep\<rparr>) y \<longrightarrow> reaches want t (Getting c a r (GProbe n p), s) y"
    (is "\<exists>ep. \<forall>y. reaches want t (?k, ?s2 ep) y \<longrightarrow> _")
proof (cases "unhealthy (config (sh_pool s)) p")
  case True
  then show ?thesis using assms
    by (intro exI[of _ "sh_epoch s"] allI impI reaches_step[where now = now and pc = "Getting c a r (GProbe n p)"])
      (auto simp: probe_failed_def)
next
  case False
  have "reaches want t (Getting c a r (GProbe n p), s) y" if "reaches want t (?k, ?s2 (sh_epoch s + 1)) y" for y
  proof -
    have "reaches want t (Getting c a r (GBenched n), ?s2 (sh_epoch s)) y"
      using that by (intro reaches_step[where now = 0 and pc = "Getting c a r (GBenched n)"]) (auto simp: probe_failed_def)
    then show ?thesis using assms False
      by (intro reaches_step[where now = now and pc = "Getting c a r (GProbe n p)"]) auto
  qed
  then show ?thesis by blast
qed

lemma look_reaches:
  assumes "pc_step want now t (Getting c a r (GLook n (sh_epoch s))) s = Some (k, s1)" "reaches want t (k, s1) y"
  shows "reaches want t (Getting c a r (GWaker n), s) y"
  by (rule reaches_step[where now = 0 and pc = "Getting c a r (GWaker n)", OF _ reaches_step[OF assms]]) simp

lemma lease_reaches:
  assumes "try_select now (rq_scheme (cl_req c)) (cl_key c) (sh_pool s) = (Some p, pl1)"
    "verify_on_lease (config pl1) = None \<or> live_of t a (config pl1) n p"
  shows "reaches want t (Getting c a r (GWaker n), s) (Drawn c a r p, s\<lparr>sh_pool := pl1\<rparr>)"
proof (cases "verify_on_lease (config pl1)")
  case None
  with assms(1) show ?thesis by (intro look_reaches[where now = now, OF _ reaches_refl]) simp
next
  case (Some d)
  let ?s1 = "s\<lparr>sh_pool := pl1\<rparr>"
  have "reaches want t (Getting c a r (GProbe n p), ?s1) (Drawn c a r p, ?s1)"
    using assms(2) Some by (intro reaches_step[where now = 0, OF _ reaches_refl]) simp
  with assms(1) Some show ?thesis by (intro look_reaches[where now = now and k = "Getting c a r (GProbe n p)"]) simp_all
qed

lemma get_reaches:
  assumes "get_loop clk (live_of t a cfg) quiet (rq_scheme (cl_req c)) (cl_key c) n (sh_pool s) = (l, pl)" "config (sh_pool s) = cfg"
  shows "\<exists>ep. reaches want t (Getting c a r (GWaker n), s) (got c a r l ep, s\<lparr>sh_pool := pl, sh_epoch := ep\<rparr>)"
  using assms
proof (induction clk "live_of t a cfg" "quiet" "rq_scheme (cl_req c)" "cl_key c" n "sh_pool s" arbitrary: s rule: get_loop.induct)
  case (1 clk n s)
  let ?sc = "rq_scheme (cl_req c)" and ?key = "cl_key c"
  obtain x pl1 where t: "try_select (clk n) ?sc ?key (sh_pool s) = (x, pl1)" by (cases "try_select (clk n) ?sc ?key (sh_pool s)")
  have cfg: "config pl1 = cfg" using try_select_simps(1)[of "clk n" ?sc ?key "sh_pool s"] t "1.prems"(2) by auto
  let ?s1 = "s\<lparr>sh_pool := pl1\<rparr>"
  note g = "1.prems"(1)[unfolded get_loop.simps[of clk _ _ _ _ n], unfolded t]
  consider "x = None" | p where "x = Some p" "verify_on_lease cfg = None \<or> live_of t a cfg n p"
    | p d where "x = Some p" "verify_on_lease cfg = Some d" "\<not> live_of t a cfg n p" by fastforce
  then show ?case
  proof cases
    case 1
    have "reaches want t (Getting c a r (GFlag n (sh_epoch s)), ?s1) (got c a r l (sh_epoch ?s1), ?s1\<lparr>sh_pool := pl\<rparr>)"
      using g 1 t starved_select empty_reaches[where now = "clk n" and s = ?s1] by (auto simp: quiet_def split: if_splits)
    then show ?thesis using 1 t
      by (intro exI[of _ "sh_epoch s"] look_reaches[where now = "clk n" and k = "Getting c a r (GFlag n (sh_epoch s))" and ?s1.0 = ?s1]) simp_all
  next
    case (2 p)
    then have "l = Leased p" "pl = pl1" using g cfg by (auto simp: quiet_def split: option.splits if_splits)
    with lease_reaches[of "clk n" c s p pl1 t a n want r] t 2 cfg show ?thesis
      by (intro exI[of _ "sh_epoch s"]) (simp add: got_def)
  next
    case (3 p d)
    then have dead: "\<not> live_of t a (config (sh_pool ?s1)) n p" using cfg by simp
    let ?s2 = "\<lambda>ep. s\<lparr>sh_pool := put_failed (clk n) p pl1, sh_epoch := ep\<rparr>"
    obtain ep where "\<forall>y. reaches want t (if verify_max_attempts \<le> n + 1 then give_up c else Getting c a r (GWaker (n + 1)), ?s2 ep) y
        \<longrightarrow> reaches want t (Getting c a r (GProbe n p), ?s1) y"
      using bench_reaches[OF dead, of want c r "clk n"] by auto
    then have b: "reaches want t (if verify_max_attempts \<le> n + 1 then give_up c else Getting c a r (GWaker (n + 1)), ?s2 ep) y
        \<Longrightarrow> reaches want t (Getting c a r (GWaker n), s) y" for y
      using t 3 cfg by (intro look_reaches[where now = "clk n" and k = "Getting c a r (GProbe n p)" and ?s1.0 = ?s1]) simp_all
    show ?thesis
    proof (cases "verify_max_attempts \<le> n + 1")
      case True
      then have "l = NoProxies" "pl = sh_pool (?s2 ep)" using g 3 cfg by (auto simp: quiet_def Let_def)
      with b True reaches_refl show ?thesis by (intro exI[of _ ep]) (simp add: got_def)
    next
      case more: False
      then have "get_loop clk (live_of t a cfg) quiet ?sc ?key (n + 1) (sh_pool (?s2 ep)) = (l, pl)" "config (sh_pool (?s2 ep)) = cfg"
        using g 3 cfg by (auto simp: quiet_def Let_def put_failed_def)
      then obtain ep' where "reaches want t (Getting c a r (GWaker (n + 1)), ?s2 ep) (got c a r l ep', (?s2 ep)\<lparr>sh_pool := pl, sh_epoch := ep'\<rparr>)"
        using "1.hyps"[OF t[symmetric], where s = "?s2 ep"] 3 cfg more by (auto simp: quiet_def)
      with b more show ?thesis by auto
    qed
  qed
qed

text \<open>The handling of one attempt after its lease.\<close>

lemma return_reaches:
  "\<exists>ep. \<forall>y. reaches want t (k, s\<lparr>sh_pool := put_back failed now q (sh_pool s), sh_epoch := ep\<rparr>) y
     \<longrightarrow> reaches want t (Returning failed p q k, s) y"
proof (cases "unhealthy (config (sh_pool s)) q")
  case True
  then show ?thesis
    by (intro exI[of _ "sh_epoch s"] allI impI reaches_step[where now = now and pc = "Returning failed p q k"]) simp_all
next
  case False
  let ?s1 = "s\<lparr>sh_pool := put_back failed now q (sh_pool s)\<rparr>"
  have "reaches want t (Returning failed p q k, s) y" if "reaches want t (k, ?s1\<lparr>sh_epoch := sh_epoch s + 1\<rparr>) y" for y
  proof -
    have "reaches want t (Notifying k, ?s1) y" using that by (intro reaches_step[where now = 0 and pc = "Notifying k"]) simp_all
    with False show ?thesis by (intro reaches_step[where now = now and pc = "Returning failed p q k"]) simp_all
  qed
  then show ?thesis by (intro exI[of _ "sh_epoch s + 1"]) simp
qed

definition rotated :: "nat \<Rightarrow> pool \<Rightarrow> pool" where
  "rotated a pl = (if 0 < a then pl\<lparr>rotations := rotations pl + 1\<rparr> else pl)"

lemma after_relay_returns: "\<exists>failed q k s2. after_relay t c a r p rl s = (Returning failed p q k, s2)"
  by (cases "ro_outcome rl") (auto simp: after_relay_def Let_def)

lemma attempt_reaches:
  assumes "after_relay t c a r p (relay_of (tk_ow t) c a (config (sh_pool s)) p) (s\<lparr>sh_pool := rotated a (sh_pool s)\<rparr>)
    = (Returning failed p q k, s2)"
  shows "\<exists>ep. \<forall>y. reaches want t (k, s2\<lparr>sh_pool := put_back failed now q (sh_pool s2), sh_epoch := ep\<rparr>) y
     \<longrightarrow> reaches want t (Drawn c a r p, s) y"
proof -
  let ?s1 = "s\<lparr>sh_pool := rotated a (sh_pool s)\<rparr>"
  have cfg: "config (rotated a (sh_pool s)) = config (sh_pool s)" by (simp add: rotated_def)
  have d: "pc_step want 0 t (Drawn c a r p) s = Some (Relaying c a r p, ?s1)" by (simp add: rotated_def)
  have w: "pc_step want 0 t (Relaying c a r p) ?s1 = Some (Returning failed p q k, s2)" using assms cfg by simp
  show ?thesis using return_reaches[where want = want and t = t and k = k and s = s2 and failed = failed and now = now and q = q and p = p] reaches_step[OF d reaches_step[OF w]] by blast
qed

text \<open>Where a run of the handler ends.\<close>

definition ends_as :: "call \<Rightarrow> handled \<Rightarrow> task_pc \<times> shared \<Rightarrow> bool" where
  "ends_as c hn x \<longleftrightarrow> sh_pool (snd x) = h_pool hn \<and> sh_history (snd x) = h_history hn
     \<and> (if h_waiting hn then h_out hn = [] \<and> (\<exists>a r n. fst x = Getting c a r (GSleep n (sh_epoch (snd x))))
        else fst x = Done (cl_sent c @ h_out hn))"

lemma drawn_reaches:
  assumes "reaches want t x (Drawn c a r p, s)" "config (sh_pool s) = cfg"
  obtains failed q k s2 ep where
    "after_relay t c a r p (relay_of (tk_ow t) c a cfg p) (s\<lparr>sh_pool := rotated a (sh_pool s)\<rparr>) = (Returning failed p q k, s2)"
    "\<forall>y. reaches want t (k, s2\<lparr>sh_pool := put_back failed now q (sh_pool s2), sh_epoch := ep\<rparr>) y \<longrightarrow> reaches want t x y"
proof -
  obtain failed q k s2 where r: "after_relay t c a r p (relay_of (tk_ow t) c a cfg p) (s\<lparr>sh_pool := rotated a (sh_pool s)\<rparr>) = (Returning failed p q k, s2)"
    using after_relay_returns by blast
  with attempt_reaches[of t c a r p s failed q k s2 want now] assms(2)
  obtain ep where "\<forall>y. reaches want t (k, s2\<lparr>sh_pool := put_back failed now q (sh_pool s2), sh_epoch := ep\<rparr>) y \<longrightarrow> reaches want t (Drawn c a r p, s) y"
    by auto
  with that r reaches_trans[OF assms(1)] show thesis by blast
qed

lemma attempts_reach:
  assumes "config (sh_pool s) = cfg"
  shows "\<exists>x. reaches want t (next_attempt c a r, s) x
    \<and> ends_as c (serve_attempts (tk_ow t) (cl_req c) (cl_rest c) (cl_target c) (cl_key c) (tk_peer t) a r (sh_pool s) (sh_history s)) x"
  using assms
proof (induction r arbitrary: a s)
  case 0
  then show ?case
    by (intro exI[of _ "(next_attempt c a 0, s)"]) (simp add: reaches_refl ends_as_def answered_def next_attempt_def give_up_def)
next
  case (Suc r)
  let ?ow = "tk_ow t" and ?rq = "cl_req c"
  obtain l pl1 where g: "get (o_clk ?ow a) (live_of t a (config (sh_pool s))) quiet (rq_scheme ?rq) (cl_key c) (sh_pool s) = (l, pl1)"
    by (cases "get (o_clk ?ow a) (live_of t a (config (sh_pool s))) quiet (rq_scheme ?rq) (cl_key c) (sh_pool s)")
  obtain ep where e: "reaches want t (next_attempt c a (Suc r), s) (got c a r l ep, s\<lparr>sh_pool := pl1, sh_epoch := ep\<rparr>)"
    using get_reaches[OF g[unfolded get_def] refl] by (auto simp: next_attempt_def)
  show ?case
  proof (cases l)
    case (Leased p)
    let ?s1 = "s\<lparr>sh_pool := pl1, sh_epoch := ep\<rparr>" and ?rl = "relay_of ?ow c a cfg p"
    have c1: "config (sh_pool ?s1) = cfg" using reaches_config[OF e] Suc.prems by simp
    have d: "reaches want t (next_attempt c a (Suc r), s) (Drawn c a r p, ?s1)" using e Leased by (simp add: got_def)
    obtain failed q k s2 ep2 where ar: "after_relay t c a r p ?rl (?s1\<lparr>sh_pool := rotated a (sh_pool ?s1)\<rparr>) = (Returning failed p q k, s2)"
      and up: "\<forall>y. reaches want t (k, s2\<lparr>sh_pool := put_back failed (o_now ?ow a) q (sh_pool s2), sh_epoch := ep2\<rparr>) y
        \<longrightarrow> reaches want t (next_attempt c a (Suc r), s) y"
      by (rule drawn_reaches[OF d c1, where now = "o_now ?ow a"])
    let ?s3 = "s2\<lparr>sh_pool := put_back failed (o_now ?ow a) q (sh_pool s2), sh_epoch := ep2\<rparr>"
    have rl: "relay (o_conn ?ow a p) p (choose_proto p (rq_scheme ?rq)) (cl_target c) ?rq (cl_rest c) (http_allowed_codes (config (sh_pool s))) = ?rl"
      using Suc.prems by (simp add: relay_of_def)
    show ?thesis
    proof (cases "\<exists>e. ro_outcome ?rl = RetryableFailure e")
      case True
      then have "k = next_attempt c (a + 1) r" "config (sh_pool ?s3) = cfg"
        using ar c1 by (auto simp: after_relay_def Let_def rotated_def put_back_def put_failed_def)
      with Suc.IH[of ?s3 "a + 1"] up obtain x where "reaches want t (next_attempt c a (Suc r), s) x"
        "ends_as c (serve_attempts ?ow ?rq (cl_rest c) (cl_target c) (cl_key c) (tk_peer t) (a + 1) r (sh_pool ?s3) (sh_history ?s3)) x"
        by blast
      with True ar g rl Leased show ?thesis
        by (intro exI[of _ x]) (auto simp: after_relay_def Let_def rotated_def put_back_def)
    next
      case False
      then show ?thesis using up[rule_format, OF reaches_refl] ar g rl Leased
        by (intro exI[of _ "(k, ?s3)"]) (auto simp: after_relay_def Let_def rotated_def put_back_def ends_as_def answered_def
            split: relay_outcome.splits)
    qed
  qed (use e g in \<open>auto intro!: exI[of _ "(got c a r l ep, s\<lparr>sh_pool := pl1, sh_epoch := ep\<rparr>)"]
      simp: got_def ends_as_def answered_def give_up_def\<close>)
qed


end
