(* ===== verification/Commands_Spec.thy ===== *)
theory Commands_Spec
  imports Commands Serving_Run
begin

text \<open>
  The commands from end to end: that \<open>find\<close> returns, and what it prints, saves, summarises and remembers;
  that a saved pool is printed alike by \<open>check --load\<close> and served by \<open>serve --load\<close>, and that what
  \<open>find --state\<close> remembers is what the next command starts from; where the proxies of the server that
  \<open>serve\<close> starts come from; and what happens to the remembered ones when countries are asked for.
\<close>

section \<open>Commands step by step\<close>

named_theorems cmd_simps

lemmas [cmd_simps] = ret_def fail_def eprint_def eprintln_def lib_def

lemma and_then_Inr:
  "and_then c f y = (Inr x, y'') \<longleftrightarrow> (\<exists>z y'. c y = (Inr z, y') \<and> f z y' = (Inr x, y''))"
  by (auto simp: and_then_def split: prod.splits sum.splits)

lemma and_then_None_Inl: "and_then c f y = (Inl e, y'') \<longleftrightarrow> c y = (Inl e, y'') \<or> (\<exists>z y'. c y = (Inr z, y') \<and> f z y' = (Inl e, y''))"
  by (auto simp: and_then_def split: prod.splits sum.splits)

lemma ret_Inr [simp]: "ret x y = (Inr z, y') \<longleftrightarrow> z = x \<and> y' = y" "fail e y \<noteq> (Inr z, y')"
  by (auto simp: ret_def fail_def)

lemma eprint_Inr [simp]:
  "eprint t y = (Inr u, y') \<longleftrightarrow> y' = y\<lparr>sy_stderr := sy_stderr y @ t\<rparr>"
  "eprintln t y = (Inr u, y') \<longleftrightarrow> y' = y\<lparr>sy_stderr := sy_stderr y @ t @ [LF]\<rparr>"
  by (auto simp: eprint_def eprintln_def)

lemma lib_Inr [simp]: "lib r y = (Inr x, y') \<longleftrightarrow> r = Inr x \<and> y' = y"
  by (auto simp: lib_def split: sum.splits)

text \<open>The store that an argument of \<open>--state\<close> opens, and the broker that observes into it.\<close>

definition store_of :: "cmd_env \<Rightarrow> string option \<Rightarrow> store_choice option" where
  "store_of ev spec = (if has_backend ev then Option.bind spec (\<lambda>s. ok_of (select_store (bd_stores (ev_build ev)) s)) else None)"

definition opened :: "cmd_env \<Rightarrow> string option \<Rightarrow> broker \<Rightarrow> broker" where
  "opened ev spec bk = (case store_of ev spec of None \<Rightarrow> bk | Some c \<Rightarrow> with_observer (Some c) bk)"

lemma opened_simps [simp]:
  "bk_geo (opened ev spec bk) = bk_geo bk" "bk_providers (opened ev spec bk) = bk_providers bk"
  "batches_of ev (opened ev spec bk) = batches_of ev bk"
  by (simp_all add: opened_def with_observer_def batches_of_def split: option.split)

text \<open>Opening a store touches neither the streams nor the files.\<close>

lemma open_store_frame:
  "open_store ev c y = (Inr u, y') \<Longrightarrow> sy_stdout y' = sy_stdout y \<and> sy_stderr y' = sy_stderr y \<and> sy_files y' = sy_files y"
  by (auto simp: open_store_def split: store_choice.splits option.splits prod.splits sum.splits)

lemma load_store_frame: "load_store ev c y = (Inr h, y') \<Longrightarrow> y' = y"
  by (auto simp: load_store_def split: store_choice.splits option.splits)

lemma open_state_Inr:
  assumes "open_state_cmd ev bk spec y = (Inr (bk', h), y1)"
  shows "bk' = opened ev spec bk" "sy_stdout y1 = sy_stdout y" "sy_files y1 = sy_files y"
    "store_of ev spec = None \<Longrightarrow> h = []"
    "store_of ev spec = Some c \<Longrightarrow> open_store ev c y = (Inr (), y1) \<and> load_store ev c y1 = (Inr h, y1)"
proof -
  have *: "if store_of ev spec = None then h = [] \<and> bk' = bk \<and> sy_stdout y1 = sy_stdout y \<and> sy_files y1 = sy_files y
    else (\<exists>c y2. store_of ev spec = Some c \<and> bk' = with_observer (Some c) bk \<and> open_store ev c y = (Inr (), y2) \<and> load_store ev c y2 = (Inr h, y1))"
    using assms by (auto simp: open_state_cmd_def and_then_Inr store_of_def ok_of_def split: if_splits option.splits sum.splits)
  then show "bk' = opened ev spec bk" "store_of ev spec = None \<Longrightarrow> h = []" by (auto simp: opened_def split: if_splits)
  from * show "sy_stdout y1 = sy_stdout y" "sy_files y1 = sy_files y"
    by (auto split: if_splits dest!: load_store_frame open_store_frame)
  from * show "store_of ev spec = Some c \<Longrightarrow> open_store ev c y = (Inr (), y1) \<and> load_store ev c y1 = (Inr h, y1)"
    using load_store_frame[of ev c _ h y1] by auto
qed

section \<open>What find leaves behind\<close>

text \<open>The state in which the pipeline of a \<open>find\<close> ends.\<close>

definition find_state :: "cmd_env \<Rightarrow> broker \<Rightarrow> find_args \<Rightarrow> act list \<Rightarrow> cs_state option" where
  "find_state ev bk a acts =
     (case broker_find ev (opened ev (fa_state a) bk) (find_cmd_query a) of
        Inl _ \<Rightarrow> None | Inr (e, s0) \<Rightarrow> cs_run e acts s0)"

lemma find_cmd_Inr:
  assumes "find_cmd ev bk a acts y = Some (Inr (), y')"
  obtains h y1 y2 y3 s where "open_state_cmd ev bk (fa_state a) y = (Inr (opened ev (fa_state a) bk, h), y1)"
    "find_state ev bk a acts = Some s" "stream_over s"
    "create_sinks ev (fa_outfile a) (fa_save a) (observe_all ev (bk_on_checked (opened ev (fa_state a) bk)) (cs_seen s) y1) = (Inr (), y2)"
    "fill_sinks ev (fa_format a) (fa_output_format a) (fa_outfile a) (fa_save a) (cs_out s) y2 = (Inr (), y3)"
    "show_stats ev (fa_show_stats a) (fa_stats_format a) (cs_stats s) y3 = (Inr (), y')"
proof -
  obtain bk' h y1 where o: "open_state_cmd ev bk (fa_state a) y = (Inr (bk', h), y1)"
    using assms by (auto simp: find_cmd_def split: prod.splits sum.splits)
  then have b: "bk' = opened ev (fa_state a) bk" by (rule open_state_Inr)
  obtain e s0 s where r: "broker_find ev bk' (find_cmd_query a) = Inr (e, s0)" "cs_run e acts s0 = Some s"
    "write_checked ev (bk_on_checked bk') (fa_format a) (fa_output_format a) (fa_outfile a) (fa_save a)
       (fa_show_stats a) (fa_stats_format a) s y1 = Some (Inr (), y')"
    using assms o by (auto simp: find_cmd_def split: prod.splits sum.splits option.splits)
  have "find_state ev bk a acts = Some s" using r(1,2) by (simp add: find_state_def b)
  with that o r(3) show ?thesis
    by (auto simp: b write_checked_def and_then_Inr split: prod.splits sum.splits if_splits)
qed

text \<open>The observer writes to the databases only, a summary to the standard error only.\<close>

lemma observe_frame [simp]:
  "sy_stdout (observe ev c i p y) = sy_stdout y" "sy_stderr (observe ev c i p y) = sy_stderr y" "sy_files (observe ev c i p y) = sy_files y"
  by (simp_all add: observe_def split: store_choice.split option.split)

lemma observe_from_frame [simp]:
  "sy_stdout (observe_from ev c i ps y) = sy_stdout y" "sy_stderr (observe_from ev c i ps y) = sy_stderr y"
  "sy_files (observe_from ev c i ps y) = sy_files y"
  by (induction ps arbitrary: i y) simp_all

lemma observe_all_frame [simp]:
  "sy_stdout (observe_all ev st ps y) = sy_stdout y" "sy_stderr (observe_all ev st ps y) = sy_stderr y"
  "sy_files (observe_all ev st ps y) = sy_files y"
  by (simp_all add: observe_all_def split: option.split)

definition same_dbs :: "sys \<Rightarrow> sys \<Rightarrow> bool" where
  "same_dbs y y' \<longleftrightarrow> sy_sqlite y' = sy_sqlite y \<and> sy_redis y' = sy_redis y"

lemma create_opt_Inr:
  "create_opt ev path y = (Inr u, y') \<longleftrightarrow>
     (case path of None \<Rightarrow> y' = y | Some f \<Rightarrow> ev_create ev f = None \<and> y' = put_file f [] y)"
  by (auto simp: create_opt_def create_file_def put_file_def split: option.splits)

lemma create_sinks_frame:
  assumes "create_sinks ev outfile save y = (Inr u, y')"
  shows "sy_stdout y' = sy_stdout y" "sy_stderr y' = sy_stderr y" "same_dbs y y'"
    "f \<notin> set_option outfile \<union> set_option save \<Longrightarrow> sy_files y' f = sy_files y f"
  using assms
  by (auto simp: create_sinks_def and_then_Inr create_opt_Inr put_file_def same_dbs_def split: option.splits if_splits)

lemma show_stats_Inr:
  "show_stats ev on f ps y = (Inr u, y') \<longleftrightarrow>
     y' = (if on then y\<lparr>sy_stderr := sy_stderr y @ stats_text ev f (the (stats_from_proxies ps))\<rparr> else y)"
  using stats_spec[of ps] by (auto simp: show_stats_def split: option.splits)

definition printed :: "string option \<Rightarrow> sys \<Rightarrow> sys \<Rightarrow> string \<Rightarrow> bool" where
  "printed outfile y y' text \<longleftrightarrow>
     (case outfile of None \<Rightarrow> sy_stdout y' = sy_stdout y @ text | Some f \<Rightarrow> sy_stdout y' = sy_stdout y \<and> sy_files y' f = Some text)"

lemma write_stream_saved:
  "sk_saved (write_stream to_string fmt tmpl save ps) = (if save then Some (write_ndjson to_string ps) else None)"
  "sk_count (write_stream to_string fmt tmpl save ps) = length ps"
  using drain_saved[of to_string ps "emitter_new fmt tmpl"] by (simp_all add: write_stream_def Let_def split_def)

lemma write_stream_out_save: "sk_out (write_stream to_string fmt tmpl save ps) = sk_out (write_stream to_string fmt tmpl False ps)"
  by (simp add: write_stream_out)

lemma fill_sinks_Inr:
  assumes "fill_sinks ev fmt tmpl outfile save ps y = (Inr u, y')" "save \<noteq> None \<Longrightarrow> save \<noteq> outfile"
  shows "printed outfile y y' (sk_out (write_stream (ev_to_string ev) fmt tmpl False ps))"
    "save = Some f \<Longrightarrow> sy_files y' f = Some (write_ndjson (ev_to_string ev) ps)"
    "sy_stderr y' = sy_stderr y @ (case outfile of None \<Rightarrow> [] | Some g \<Rightarrow> wrote_text (length ps) g @ [LF])"
    "same_dbs y y'" "g \<notin> set_option outfile \<union> set_option save \<Longrightarrow> sy_files y' g = sy_files y g"
proof -
  note w = write_stream_saved[of "ev_to_string ev" fmt tmpl "save \<noteq> None" ps] write_stream_out_save[of "ev_to_string ev" fmt tmpl "save \<noteq> None" ps]
  show "printed outfile y y' (sk_out (write_stream (ev_to_string ev) fmt tmpl False ps))"
    "save = Some f \<Longrightarrow> sy_files y' f = Some (write_ndjson (ev_to_string ev) ps)"
    "sy_stderr y' = sy_stderr y @ (case outfile of None \<Rightarrow> [] | Some g \<Rightarrow> wrote_text (length ps) g @ [LF])"
    "same_dbs y y'" "g \<notin> set_option outfile \<union> set_option save \<Longrightarrow> sy_files y' g = sy_files y g"
    using assms w by (auto simp: fill_sinks_def Let_def printed_def put_file_def same_dbs_def split: option.splits if_splits)
qed

lemma stream_over_ended: "stream_over s \<Longrightarrow> cs_phase s = Ended \<and> \<not> cs_gone s"
  by (simp add: stream_over_def)

lemma find_state_run:
  assumes "find_state ev bk a acts = Some s"
  obtains e where "find_run (ev_world ev) (bk_geo bk) (bk_on_checked (opened ev (fa_state a) bk) \<noteq> None) (find_cmd_query a) (batches_of ev bk)
      = Inr (e, cs_init (find_source (bk_geo bk) (find_cmd_query a) (batches_of ev bk)))"
    "cs_run e acts (cs_init (find_source (bk_geo bk) (find_cmd_query a) (batches_of ev bk))) = Some s"
    "ce_limit e = fq_limit (find_cmd_query a)" "ce_observer e = (bk_on_checked (opened ev (fa_state a) bk) \<noteq> None)"
    "ce_max_conn e = fa_max_conn a"
proof -
  obtain e s0 where r: "find_run (ev_world ev) (bk_geo bk) (bk_on_checked (opened ev (fa_state a) bk) \<noteq> None) (find_cmd_query a) (batches_of ev bk) = Inr (e, s0)"
    "cs_run e acts s0 = Some s"
    using assms by (auto simp: find_state_def broker_find_def split: sum.splits)
  obtain ck where "e = run_env (ev_world ev) (find_cmd_query a) (bk_on_checked (opened ev (fa_state a) bk) \<noteq> None) ck"
    "s0 = cs_init (find_source (bk_geo bk) (find_cmd_query a) (batches_of ev bk))"
    using r(1) by (rule find_run_Inr)
  then have "s0 = cs_init (find_source (bk_geo bk) (find_cmd_query a) (batches_of ev bk))"
    "ce_limit e = fq_limit (find_cmd_query a)" "ce_observer e = (bk_on_checked (opened ev (fa_state a) bk) \<noteq> None)"
    "ce_max_conn e = fa_max_conn a"
    by (simp_all add: run_env_def find_cmd_query_def builder_sets)
  with that r show ?thesis by blast
qed

lemma find_cmd_limit: "fq_limit (find_cmd_query a) = (if 0 < fa_limit a then Some (fa_limit a) else None)"
  by (simp add: find_cmd_query_def builder_sets)

text \<open>The part of \<open>find\<close> that its reader sees.\<close>

definition delivered :: "cmd_env \<Rightarrow> broker \<Rightarrow> find_args \<Rightarrow> proxy list \<Rightarrow> bool" where
  "delivered ev bk a ps \<longleftrightarrow>
     list_all (as_asked (find_cmd_query a) (batches_of ev bk)) ps \<and> distinct (map p_addr ps)
     \<and> (\<exists>e. find_run (ev_world ev) (bk_geo bk) (bk_on_checked (opened ev (fa_state a) bk) \<noteq> None) (find_cmd_query a) (batches_of ev bk)
            = Inr (e, cs_init (find_source (bk_geo bk) (find_cmd_query a) (batches_of ev bk)))
         \<and> (if 0 < fa_limit a \<and> fa_limit a \<le> length ps then length ps = fa_limit a
            else mset ps = mset (deliverable e (find_source (bk_geo bk) (find_cmd_query a) (batches_of ev bk)))))"

lemma find_delivered:
  assumes "find_state ev bk a acts = Some s" "stream_over s"
  shows "delivered ev bk a (cs_out s)"
proof -
  obtain e where e: "find_run (ev_world ev) (bk_geo bk) (bk_on_checked (opened ev (fa_state a) bk) \<noteq> None) (find_cmd_query a) (batches_of ev bk)
      = Inr (e, cs_init (find_source (bk_geo bk) (find_cmd_query a) (batches_of ev bk)))"
    "cs_run e acts (cs_init (find_source (bk_geo bk) (find_cmd_query a) (batches_of ev bk))) = Some s"
    "ce_limit e = fq_limit (find_cmd_query a)"
    using assms(1) by (rule find_state_run)
  note d = find_as_asked[OF e(1,2)]
  note c = run_complete[OF e(2)] stream_over_ended[OF assms(2)]
  show ?thesis
    using d c e(1,3) find_cmd_limit[of a] by (auto simp: delivered_def split: if_splits)
qed

text \<open>C4. \<open>find\<close> from end to end. When the command returns successfully, then whatever the interleaving of its
  checks was, it has printed (to the standard output or the output file, in the format asked for) exactly
  the proxies of its stream: working ones of scraped addresses, in the countries, with the protocols,
  levels and capabilities asked for, none twice, as many as the limit or else all that there are. The save
  file holds the same proxies, a summary, if asked for, counts every proxy that was checked, and no other
  file and nothing else on the standard output has changed.\<close>

theorem find_end_to_end:
  assumes "find_cmd ev bk a acts y = Some (Inr (), y')" "fa_save a \<noteq> None \<Longrightarrow> fa_save a \<noteq> fa_outfile a"
  shows "\<exists>s st. find_state ev bk a acts = Some s \<and> delivered ev bk a (cs_out s)
    \<and> printed (fa_outfile a) y y' (sk_out (write_stream (ev_to_string ev) (fa_format a) (fa_output_format a) False (cs_out s)))
    \<and> (\<forall>f. fa_save a = Some f \<longrightarrow> sy_files y' f = Some (write_ndjson (ev_to_string ev) (cs_out s)))
    \<and> (\<forall>f. f \<notin> set_option (fa_outfile a) \<union> set_option (fa_save a) \<longrightarrow> sy_files y' f = sy_files y f)
    \<and> mset (cs_out s) \<subseteq># mset (cs_stats s) \<and> stats_from_proxies (cs_stats s) = Some st \<and> st_total st = length (cs_stats s)
    \<and> (fa_show_stats a \<longrightarrow> (\<exists>before. sy_stderr y' = before @ stats_text ev (fa_stats_format a) st))"
proof -
  from find_cmd_Inr[OF assms(1)] obtain h y1 y2 y3 s where s:
    "open_state_cmd ev bk (fa_state a) y = (Inr (opened ev (fa_state a) bk, h), y1)"
    "find_state ev bk a acts = Some s" "stream_over s"
    "create_sinks ev (fa_outfile a) (fa_save a) (observe_all ev (bk_on_checked (opened ev (fa_state a) bk)) (cs_seen s) y1) = (Inr (), y2)"
    "fill_sinks ev (fa_format a) (fa_output_format a) (fa_outfile a) (fa_save a) (cs_out s) y2 = (Inr (), y3)"
    "show_stats ev (fa_show_stats a) (fa_stats_format a) (cs_stats s) y3 = (Inr (), y')" .
  obtain st where st: "stats_from_proxies (cs_stats s) = Some st" "st_total st = length (cs_stats s)" using stats_spec by metis
  note o = open_state_Inr[OF s(1)]
  note c = create_sinks_frame[OF s(4)]
  note f = fill_sinks_Inr[OF s(5) assms(2)]
  have y': "sy_stdout y' = sy_stdout y3" "sy_files y' = sy_files y3"
    "fa_show_stats a \<Longrightarrow> sy_stderr y' = sy_stderr y3 @ stats_text ev (fa_stats_format a) st"
    using s(6) st(1) by (auto simp: show_stats_Inr)
  obtain e where "cs_run e acts (cs_init (find_source (bk_geo bk) (find_cmd_query a) (batches_of ev bk))) = Some s"
    using s(2) by (rule find_state_run)
  then have "mset (cs_out s) \<subseteq># mset (cs_stats s)" by (rule recorded_run)
  moreover have "printed (fa_outfile a) y y' (sk_out (write_stream (ev_to_string ev) (fa_format a) (fa_output_format a) False (cs_out s)))"
    using f(1) c(1) o(2) y'(1,2) by (simp add: printed_def split: option.splits)
  moreover have "\<forall>g. g \<notin> set_option (fa_outfile a) \<union> set_option (fa_save a) \<longrightarrow> sy_files y' g = sy_files y g"
    using f(5) c(4) o(3) y'(2) by auto
  ultimately show ?thesis using s(2) find_delivered[OF s(2,3)] st f(2) y'(2,3) by (intro exI[of _ s] exI[of _ st]) auto
qed

lemma find_cmd_None:
  assumes "find_cmd ev bk a acts y = None" "find_state ev bk a acts = Some s"
  shows "\<not> stream_over s"
  using assms open_state_Inr(1)
  by (fastforce simp: find_cmd_def find_state_def write_checked_def split: prod.splits sum.splits option.splits if_splits)

lemma not_over:
  assumes "cs_run e acts (cs_init ps) = Some s" "DropRx \<notin> set acts" "\<not> stream_over s" "0 < ce_max_conn e"
  obtains x where "x \<noteq> DropRx" "cs_run e (acts @ [x]) (cs_init ps) \<noteq> None"
proof -
  have g: "\<not> cs_gone s" using gone_only_by_drops[OF assms(1,2)] by (simp add: cs_init_def)
  have "cs_got s \<le> length (cs_out s)" using cs_run_inv(1)[OF assms(1) cs_inv_init] by (simp add: cs_inv_def)
  then have "\<exists>x. x \<noteq> DropRx \<and> cs_exec e x s \<noteq> None"
    using not_stuck[OF assms(4), of s] assms(3) g by (cases "cs_phase s = Ended") (auto simp: stream_over_def intro: exI[of _ Recv])
  with that assms(1) show ?thesis by (auto simp: cs_run_append)
qed

lemma find_goes_on:
  assumes "find_state ev bk a acts = Some s" "DropRx \<notin> set acts" "0 < fa_max_conn a"
  shows "length acts \<le> 8 * length (find_source (bk_geo bk) (find_cmd_query a) (batches_of ev bk)) + 4
    \<and> (find_cmd ev bk a acts y \<noteq> None \<or> (\<exists>x. x \<noteq> DropRx \<and> find_state ev bk a (acts @ [x]) \<noteq> None))"
proof -
  let ?ps = "find_source (bk_geo bk) (find_cmd_query a) (batches_of ev bk)"
  obtain e where e: "find_run (ev_world ev) (bk_geo bk) (bk_on_checked (opened ev (fa_state a) bk) \<noteq> None) (find_cmd_query a) (batches_of ev bk)
      = Inr (e, cs_init ?ps)" "cs_run e acts (cs_init ?ps) = Some s" "ce_max_conn e = fa_max_conn a"
    using assms(1) by (rule find_state_run)
  have st: "find_state ev bk a xs = cs_run e xs (cs_init ?ps)" for xs using e(1) by (simp add: find_state_def broker_find_def)
  show ?thesis
  proof (cases "find_cmd ev bk a acts y")
    case None
    obtain x where "x \<noteq> DropRx" "cs_run e (acts @ [x]) (cs_init ?ps) \<noteq> None"
      using not_over[OF e(2) assms(2) find_cmd_None[OF None assms(1)]] e(3) assms(3) by auto
    with run_bound[OF e(2)] show ?thesis by (auto simp: st)
  qed (use run_bound[OF e(2)] in simp)
qed

lemma find_not_started: "find_state ev bk a [] = None \<Longrightarrow> find_cmd ev bk a [] y \<noteq> None"
  using open_state_Inr(1)[of ev bk "fa_state a" y] by (auto simp: find_cmd_def find_state_def split: prod.splits sum.splits)

text \<open>C5. \<open>find\<close> returns. As long as it has not, some step of its pipeline or of its reader is possible, and no
  run is longer than eight actions for each proxy of the source and four more; so whatever the scheduler
  does, and even when it fails to start or a sink cannot be created, it comes to a result. With
  \<open>--max-conn 0\<close> this is not so.\<close>

theorem find_returns:
  assumes "0 < fa_max_conn a"
  shows "(\<forall>acts s. find_state ev bk a acts = Some s \<and> DropRx \<notin> set acts \<longrightarrow>
       length acts \<le> 8 * length (find_source (bk_geo bk) (find_cmd_query a) (batches_of ev bk)) + 4
       \<and> (find_cmd ev bk a acts y \<noteq> None \<or> (\<exists>x. x \<noteq> DropRx \<and> find_state ev bk a (acts @ [x]) \<noteq> None)))
    \<and> (\<exists>acts r. DropRx \<notin> set acts \<and> find_cmd ev bk a acts y = Some r)"
proof
  define runs where "runs acts \<longleftrightarrow> find_state ev bk a acts \<noteq> None \<and> DropRx \<notin> set acts" for acts
  let ?b = "8 * length (find_source (bk_geo bk) (find_cmd_query a) (batches_of ev bk)) + 4"
  note go = find_goes_on[OF _ _ assms, of ev bk _ _ y]
  show "\<forall>acts s. find_state ev bk a acts = Some s \<and> DropRx \<notin> set acts \<longrightarrow> length acts \<le> ?b
      \<and> (find_cmd ev bk a acts y \<noteq> None \<or> (\<exists>x. x \<noteq> DropRx \<and> find_state ev bk a (acts @ [x]) \<noteq> None))"
    using go by blast
  show "\<exists>acts r. DropRx \<notin> set acts \<and> find_cmd ev bk a acts y = Some r"
  proof (cases "find_state ev bk a []")
    case None
    from find_not_started[OF this, of y] show ?thesis by (auto intro!: exI[of _ "[]"])
  next
    case (Some s)
    then have r: "runs []" by (simp add: runs_def)
    have "\<forall>acts. runs acts \<longrightarrow> length acts < Suc ?b" unfolding runs_def less_Suc_eq_le using go by blast
    from ex_has_greatest_nat[OF r this] obtain acts where m: "runs acts" "\<forall>xs. runs xs \<longrightarrow> length xs \<le> length acts" by blast
    obtain u where u: "find_state ev bk a acts = Some u" "DropRx \<notin> set acts" using m(1) by (auto simp: runs_def)
    from go[OF u] have "find_cmd ev bk a acts y \<noteq> None \<or> (\<exists>x. runs (acts @ [x]))"
      unfolding runs_def using u(2) by (metis Un_iff empty_iff empty_set insert_iff list.simps(15) set_append)
    moreover have "\<not> runs (acts @ [x])" for x using m(2)[rule_format, of "acts @ [x]"] by auto
    ultimately show ?thesis using u(2) by blast
  qed
qed

section \<open>What find remembers\<close>

text \<open>A durable store is one of the contract \<open>proxy_store\<close>, in the state of the system.\<close>

definition store_put :: "cmd_env \<Rightarrow> store_choice \<Rightarrow> int \<Rightarrow> proxy \<Rightarrow> sys \<Rightarrow> sys" where
  "store_put ev c now p y =
     (case c of
        UseMemory \<Rightarrow> y
      | UseSqlite s \<Rightarrow>
          (case db_table (sy_sqlite y s) of
             Some t \<Rightarrow> y\<lparr>sy_sqlite := (sy_sqlite y)(s := (sy_sqlite y s)\<lparr>db_table := Some (sql_exec (ev_to_string ev) now p t)\<rparr>)\<rparr>
           | None \<Rightarrow> y)
      | UseRedis s \<Rightarrow> y\<lparr>sy_redis := (sy_redis y)(s := redis_upsert (ev_to_string ev) now p (sy_redis y s))\<rparr>)"

definition store_list :: "cmd_env \<Rightarrow> store_choice \<Rightarrow> sys \<Rightarrow> proxy list" where
  "store_list ev c y =
     (case c of
        UseMemory \<Rightarrow> []
      | UseSqlite s \<Rightarrow> sql_load (ev_from_str ev) (the (db_table (sy_sqlite y s)))
      | UseRedis s \<Rightarrow> redis_load (ev_from_str ev) (sy_redis y s))"

definition store_recall :: "cmd_env \<Rightarrow> store_choice \<Rightarrow> sys \<Rightarrow> sock_addr \<Rightarrow> agg option" where
  "store_recall ev c y =
     (case c of
        UseMemory \<Rightarrow> Map.empty
      | UseSqlite s \<Rightarrow> sql_recall (ev_from_str ev) (the (db_table (sy_sqlite y s)))
      | UseRedis s \<Rightarrow> redis_recall (ev_from_str ev) (sy_redis y s))"

definition store_ok :: "store_choice \<Rightarrow> sys \<Rightarrow> bool" where
  "store_ok c y \<longleftrightarrow>
     (case c of
        UseMemory \<Rightarrow> False
      | UseSqlite s \<Rightarrow> (case db_table (sy_sqlite y s) of Some t \<Rightarrow> sql_ok t | None \<Rightarrow> False)
      | UseRedis s \<Rightarrow> redis_ok (sy_redis y s))"

interpretation state: proxy_store "store_put ev c" "store_list ev c" "store_recall ev c" "store_ok c"
  "text_fit (ev_to_string ev) (ev_from_str ev)" for ev c
proof
  fix y p t
  assume "store_ok c y" "text_fit (ev_to_string ev) (ev_from_str ev) p (store_recall ev c y)"
  then show "store_ok c (store_put ev c t p y)" "store_recall ev c (store_put ev c t p y) = agg_step p (store_recall ev c y)"
    using sql.upsert_ok sql.upsert_recall redis.upsert_ok redis.upsert_recall
    by (auto simp: store_ok_def store_put_def store_recall_def split: store_choice.splits option.splits)
next
  fix y
  assume "store_ok c y"
  then show "set (store_list ev c y) = {agg_proxy a g |a g. store_recall ev c y a = Some g}" "distinct (map p_addr (store_list ev c y))"
    using sql.load_set sql.load_distinct redis.load_set redis.load_distinct
    by (auto simp: store_ok_def store_list_def store_recall_def split: store_choice.splits option.splits)
qed

text \<open>The checks of a run with the times at which they were recorded.\<close>

definition timed :: "cmd_env \<Rightarrow> nat \<Rightarrow> proxy list \<Rightarrow> (int \<times> proxy) list" where
  "timed ev i ps = zip (map (ev_clock ev) [i ..< i + length ps]) ps"

lemma timed_simps [simp]: "timed ev i [] = []" "timed ev i (p # ps) = (ev_clock ev i, p) # timed ev (Suc i) ps"
  by (simp_all add: timed_def upt_rec)

lemma sqlite_upsert_ok:
  assumes "\<And>j. eng j = None"
  shows "snd (sqlite_upsert eng show to_string now p t) = sql_exec to_string now p t"
  using assms by (simp add: sqlite_upsert_def retry_sqlite_contention_def sqlite_retry_delays_def)

lemma observe_put: "(\<And>j. ev_engine ev i j = None) \<Longrightarrow> observe ev c i p y = store_put ev c (ev_clock ev i) p y"
  by (auto simp: observe_def store_put_def sqlite_upsert_ok split: store_choice.splits option.splits)

lemma observe_from_puts:
  assumes "\<And>i j. ev_engine ev i j = None"
  shows "observe_from ev c i ps y = state.upsert_all ev c (timed ev i ps) y"
  by (induction ps arbitrary: i y) (simp_all add: observe_put assms)

lemma load_store_list: "store_ok c y \<Longrightarrow> load_store ev c y = (Inr (store_list ev c y), y)"
  by (auto simp: store_ok_def load_store_def store_list_def split: store_choice.splits option.splits)

text \<open>A store that has been opened can be opened again, and then lists the same.\<close>

definition schema_ok :: "store_choice \<Rightarrow> sys \<Rightarrow> bool" where
  "schema_ok c y \<longleftrightarrow> (case c of UseRedis s \<Rightarrow> rd_schema (sy_redis y s) = Some ''1'' | _ \<Rightarrow> True)"

lemma schema_upsert_all: "schema_ok c (state.upsert_all ev c ps y) \<longleftrightarrow> schema_ok c y"
proof -
  have "schema_ok c (store_put ev c t p y) \<longleftrightarrow> schema_ok c y" for t p y
    by (simp add: schema_ok_def store_put_def redis_upsert_def Let_def split: store_choice.split)
  then show ?thesis by (induction ps arbitrary: y) (simp_all add: split_paired_all)
qed

lemma open_store_schema: "open_store ev c y = (Inr u, y') \<Longrightarrow> schema_ok c y'"
  by (auto simp: open_store_def schema_ok_def redis_open_def split: store_choice.splits option.splits prod.splits sum.splits if_splits)

lemma open_store_connects: "open_store ev c y = (Inr u, y') \<Longrightarrow> c = UseMemory \<or> (\<exists>s. (c = UseSqlite s \<or> c = UseRedis s) \<and> ev_connect ev s = None)"
  by (auto simp: open_store_def split: store_choice.splits option.splits)

lemma open_again:
  assumes "open_store ev c y = (Inr u, y0)" "schema_ok c y1" "store_ok c y1"
  shows "\<exists>y2. open_store ev c y1 = (Inr (), y2) \<and> store_ok c y2 \<and> store_list ev c y2 = store_list ev c y1"
proof -
  have "redis_load_one f (d\<lparr>rd_schema := x\<rparr>) = redis_load_one f d" for d x f
    by (rule ext) (simp add: redis_load_one_def cong: option.case_cong)
  then have "redis_ok (d\<lparr>rd_schema := x\<rparr>) = redis_ok d" "redis_load f (d\<lparr>rd_schema := x\<rparr>) = redis_load f d" for d x f
    by (simp_all add: redis_ok_def redis_load_def)
  then show ?thesis
    using open_store_connects[OF assms(1)] assms(2,3)
    by (auto simp: open_store_def schema_ok_def store_ok_def store_list_def redis_open_def migrate_def split: option.splits)
qed

lemma same_dbs_store:
  assumes "same_dbs y y'"
  shows "store_ok c y' = store_ok c y" "schema_ok c y' = schema_ok c y" "store_list ev c y' = store_list ev c y"
  using assms by (simp_all add: same_dbs_def store_ok_def schema_ok_def store_list_def split: store_choice.split)

lemma same_dbs_trans: "same_dbs y1 y2 \<Longrightarrow> same_dbs y2 y3 \<Longrightarrow> same_dbs y1 y3"
  by (simp add: same_dbs_def)

lemma find_cmd_store:
  assumes "find_cmd ev bk a acts y = Some (Inr (), y')" "find_state ev bk a acts = Some s"
    "store_of ev (fa_state a) = Some c" "open_store ev c y = (Inr (), y1)" "\<forall>i j. ev_engine ev i j = None"
  shows "stream_over s" "same_dbs (state.upsert_all ev c (timed ev 0 (cs_seen s)) y1) y'"
proof -
  from find_cmd_Inr[OF assms(1)] obtain h z1 y2 y3 s' where s:
    "open_state_cmd ev bk (fa_state a) y = (Inr (opened ev (fa_state a) bk, h), z1)"
    "find_state ev bk a acts = Some s'" "stream_over s'"
    "create_sinks ev (fa_outfile a) (fa_save a) (observe_all ev (bk_on_checked (opened ev (fa_state a) bk)) (cs_seen s') z1) = (Inr (), y2)"
    "fill_sinks ev (fa_format a) (fa_output_format a) (fa_outfile a) (fa_save a) (cs_out s') y2 = (Inr (), y3)"
    "show_stats ev (fa_show_stats a) (fa_stats_format a) (cs_stats s') y3 = (Inr (), y')" .
  have e: "s' = s" "z1 = y1" using s(2) assms(2,4) open_state_Inr(5)[OF s(1) assms(3)] by simp_all
  show "stream_over s" using s(3) e by simp
  have "bk_on_checked (opened ev (fa_state a) bk) = Some c" using assms(3) by (simp add: opened_def with_observer_def)
  then have "observe_all ev (bk_on_checked (opened ev (fa_state a) bk)) (cs_seen s') z1 = state.upsert_all ev c (timed ev 0 (cs_seen s)) y1"
    using observe_from_puts[of ev c 0 "cs_seen s" y1] assms(5) by (simp add: observe_all_def e)
  moreover have "same_dbs y2 y3" using s(5) by (auto simp: fill_sinks_def Let_def same_dbs_def put_file_def split: option.splits if_splits)
  moreover have "same_dbs y3 y'" using s(6) by (auto simp: show_stats_Inr same_dbs_def)
  ultimately show "same_dbs (state.upsert_all ev c (timed ev 0 (cs_seen s)) y1) y'"
    using create_sinks_frame(3)[OF s(4)] by (auto intro: same_dbs_trans)
qed

lemma open_state_listed:
  assumes "store_of ev spec = Some c" "open_store ev c y = (Inr (), y2)" "store_ok c y2"
  shows "open_state_cmd ev bk spec y = (Inr (opened ev spec bk, store_list ev c y2), y2)"
  using assms(1,2) load_store_list[OF assms(3), of ev]
  by (auto simp: open_state_cmd_def store_of_def opened_def ok_of_def and_then_def ret_def split: if_splits option.splits sum.splits Option.bind_splits)

lemma find_remembers:
  assumes "find_cmd ev bk a acts y = Some (Inr (), y')" "find_state ev bk a acts = Some s"
    "store_of ev (fa_state a) = Some c" "open_store ev c y = (Inr (), y1)" "store_ok c y1"
    "\<forall>i j. ev_engine ev i j = None"
    "fit_all (text_fit (ev_to_string ev) (ev_from_str ev)) (timed ev 0 (cs_seen s)) (store_recall ev c y1)"
  shows "mset (cs_seen s) = mset (cs_stats s)
    \<and> (\<exists>h y2. open_state_cmd ev bk' (fa_state a) y' = (Inr (opened ev (fa_state a) bk', h), y2) \<and> distinct (map p_addr h)
        \<and> set h = {agg_proxy ad g | ad g. recall_all (timed ev 0 (cs_seen s)) (store_recall ev c y1) ad = Some g})"
proof
  obtain e where r: "cs_run e acts (cs_init (find_source (bk_geo bk) (find_cmd_query a) (batches_of ev bk))) = Some s"
    "ce_observer e = (bk_on_checked (opened ev (fa_state a) bk) \<noteq> None)"
    using assms(2) by (rule find_state_run)
  note f = find_cmd_store[OF assms(1-4,6)]
  have "cs_tasks s = []" using ended_no_tasks(2)[OF r(1)] f(1) by (simp add: stream_over_def)
  moreover have "ce_observer e" using r(2) assms(3) by (simp add: opened_def with_observer_def)
  ultimately show "mset (cs_seen s) = mset (cs_stats s)" using recorded_run(2)[OF r(1)] by blast
  let ?u = "state.upsert_all ev c (timed ev 0 (cs_seen s)) y1"
  have u: "store_ok c ?u" "store_recall ev c ?u = recall_all (timed ev 0 (cs_seen s)) (store_recall ev c y1)"
    using state.upsert_all_recall[OF assms(5,7)] by simp_all
  have "schema_ok c ?u" using open_store_schema[OF assms(4)] by (simp add: schema_upsert_all)
  then obtain y2 where y2: "open_store ev c y' = (Inr (), y2)" "store_ok c y2" "store_list ev c y2 = store_list ev c ?u"
    using open_again[OF assms(4), of y'] u(1) same_dbs_store[OF f(2)] by metis
  from open_state_listed[OF assms(3) y2(1,2)]
  show "\<exists>h y2. open_state_cmd ev bk' (fa_state a) y' = (Inr (opened ev (fa_state a) bk', h), y2) \<and> distinct (map p_addr h)
        \<and> set h = {agg_proxy ad g | ad g. recall_all (timed ev 0 (cs_seen s)) (store_recall ev c y1) ad = Some g}"
    using state.load_set[OF u(1), of ev] state.load_distinct[OF u(1), of ev] y2(3) u(2) by auto
qed

text \<open>C12. What \<open>find --state\<close> has checked is what the next command with the same \<open>--state\<close> starts from. The
  observer has seen every proxy that the run checked, working or not, exactly once; opening the store
  again, by whatever command, gives one proxy for each address that the store knew before or the run
  checked, with the history of all its checks folded in their order. This holds of both durable stores,
  as long as the engine refuses nothing and the counters stay within 32 bits.\<close>

theorem state_remembered:
  assumes "find_cmd ev bk a acts y = Some (Inr (), y')" "find_state ev bk a acts = Some s"
    "store_of ev (fa_state a) = Some c" "open_store ev c y = (Inr (), y1)" "store_ok c y1"
    "\<forall>i j. ev_engine ev i j = None"
    "fit_all (text_fit (ev_to_string ev) (ev_from_str ev)) (timed ev 0 (cs_seen s)) (store_recall ev c y1)"
  shows "mset (cs_seen s) = mset (cs_stats s)
    \<and> (\<exists>h y2. open_state_cmd ev bk' (fa_state a) y' = (Inr (opened ev (fa_state a) bk', h), y2) \<and> distinct (map p_addr h)
        \<and> set h = {agg_proxy ad g | ad g. recall_all (timed ev 0 (cs_seen s)) (store_recall ev c y1) ad = Some g})"
  using find_remembers[OF assms] .

section \<open>What was saved\<close>

lemma load_saved:
  assumes "find_cmd ev bk a acts y = Some (Inr (), y')" "fa_save a = Some f" "fa_outfile a \<noteq> Some f" "find_state ev bk a acts = Some s"
    "\<forall>p \<in> set (cs_out s). json_text_ok (ev_to_string ev) (ev_from_str ev) (serialize p)"
  shows "load_ndjson ev f y' = (Inr (map kept (cs_out s)), y')"
proof -
  from find_cmd_Inr[OF assms(1)] obtain h y1 y2 y3 where
    f: "fill_sinks ev (fa_format a) (fa_output_format a) (fa_outfile a) (fa_save a) (cs_out s) y2 = (Inr (), y3)"
    and st: "show_stats ev (fa_show_stats a) (fa_stats_format a) (cs_stats s) y3 = (Inr (), y')"
    using assms(4) by (metis option.inject)
  have "sy_files y3 f = Some (write_ndjson (ev_to_string ev) (cs_out s))"
    using fill_sinks_Inr(2)[OF f] assms(2,3) by simp
  then have "sy_files y' f = Some (write_ndjson (ev_to_string ev) (cs_out s))" using st by (auto simp: show_stats_Inr)
  then show ?thesis using ndjson_back[OF assms(5)] by (simp add: load_ndjson_def and_then_def read_file_def ret_def)
qed

text \<open>The formats that show a proxy by its address only.\<close>

definition address_format :: "out_format \<Rightarrow> bool" where
  "address_format fmt \<longleftrightarrow> fmt = FDefault \<or> fmt = FTxt \<or> fmt = FUrl"

lemma kept_item: "address_format fmt \<Longrightarrow> nth_item to_string fmt None b (kept p) = nth_item to_string fmt None b p"
proof -
  have "addr (kept p) = addr p" "scheme_str (kept p) = scheme_str p"
    by (simp_all add: addr_def scheme_str_def kept_def split: ip_addr.split)
  then show "address_format fmt \<Longrightarrow> ?thesis" by (auto simp: address_format_def nth_item_def em_item_def)
qed

lemma kept_output:
  assumes "address_format fmt"
  shows "sk_out (write_stream to_string fmt None save (map kept ps)) = sk_out (write_stream to_string fmt None save ps)"
proof -
  have "map (nth_item to_string fmt None True) (map kept qs) = map (nth_item to_string fmt None True) qs" for qs
    using kept_item[OF assms] by simp
  then show ?thesis using kept_item[OF assms] by (cases ps) (simp_all add: write_stream_out del: map_map)
qed

text \<open>C29. A saved pool prints alike: after \<open>find --save f\<close>, \<open>check --load f\<close> needs no broker and no network and
  prints, in the formats that show addresses, the very text that \<open>find\<close> prints in that format for its
  proxies; the summary it can show counts them, and no file changes.\<close>

theorem saved_then_checked:
  assumes "find_cmd ev bk a acts y = Some (Inr (), y')" "fa_save a = Some f" "fa_outfile a \<noteq> Some f" "find_state ev bk a acts = Some s"
    "\<forall>p \<in> set (cs_out s). json_text_ok (ev_to_string ev) (ev_from_str ev) (serialize p)"
    "ca_load c = Some f" "ca_outfile c = None" "ca_save c = None" "ca_output_format c = None" "address_format (ca_format c)"
  shows "\<exists>y''. check_cmd ev bk' c acts' y' = Some (Inr (), y'')
    \<and> sy_stdout y'' = sy_stdout y' @ sk_out (write_stream (ev_to_string ev) (ca_format c) None False (cs_out s))
    \<and> sy_stderr y'' = sy_stderr y' @ (if ca_show_stats c then stats_text ev (ca_stats_format c) (the (stats_from_proxies (map kept (cs_out s)))) else [])
    \<and> sy_files y'' = sy_files y'"
proof -
  note l = load_saved[OF assms(1-5)]
  obtain st where st: "stats_from_proxies (map kept (cs_out s)) = Some st" using stats_spec by metis
  show ?thesis
    using l assms(6-9) st kept_output[OF assms(10), of "ev_to_string ev" False "cs_out s"]
    by (simp add: check_cmd_def check_loaded_def emit_def create_sinks_def create_opt_def fill_sinks_def and_then_def cmd_simps
        show_stats_def Let_def)
qed

section \<open>The server that serve starts\<close>

lemma serve_cmd_Inr:
  assumes "serve_cmd ev bk a y = (Inr sd, y')"
  obtains h y1 y2 where "open_state_cmd ev bk (sa_state a) y = (Inr (opened ev (sa_state a) bk, h), y1)"
    "serve_fill ev (opened ev (sa_state a) bk) a h y1 = (Inr (sd_fill sd), y2)"
    "sd_want sd = map_option auth_expect_of (sa_auth a)" "sd_serving sd = sv_init (fl_pool (sd_fill sd)) (sa_min_queue a)"
proof -
  obtain bk' h y1 y2 where o: "open_state_cmd ev bk (sa_state a) y = (Inr (bk', h), y1)"
    "serve_fill ev bk' a h y1 = (Inr (sd_fill sd), y2)"
    "sd_want sd = map_option auth_expect_of (sa_auth a)" "sd_serving sd = sv_init (fl_pool (sd_fill sd)) (sa_min_queue a)"
    using assms by (auto simp: serve_cmd_def and_then_Inr start_server_def serve_def split: option.splits sum.splits)
  with that open_state_Inr(1)[OF o(1)] show ?thesis by blast
qed

lemma serve_fill_pool:
  assumes "serve_fill ev bk a h y = (Inr fl, y')"
  shows "case sa_load a of
      None \<Rightarrow> fl_pool fl = spawned (pool_config_of a) \<and> fl_history fl = h \<and> (\<exists>run. broker_find ev bk (serve_fill_query a) = Inr run \<and> fl_find fl = Some run)
    | Some path \<Rightarrow> \<exists>ps. load_ndjson ev path y = (Inr ps, y) \<and> fl_pool fl = from_proxies (union_dedup h ps) (pool_config_of a)
        \<and> fl_history fl = [] \<and> fl_find fl = None"
proof (cases "sa_load a")
  case None
  with assms show ?thesis by (auto simp: serve_fill_def spawn_fill_def and_then_Inr)
next
  case (Some path)
  have "load_ndjson ev path y = (Inr ps, y1) \<Longrightarrow> y1 = y" for ps y1
    by (auto simp: load_ndjson_def read_file_def and_then_Inr split: option.splits)
  with Some assms show ?thesis by (auto simp: serve_fill_def and_then_Inr)
qed

text \<open>A pool made of a list is the pool of an importer that has read the list.\<close>

lemma from_proxies_imported: "from_proxies ps cfg = import_end (foldl (\<lambda>pl p. import_one p pl) (spawned cfg) ps)"
proof -
  have "foldl (\<lambda>pl p. import_one p pl) pl ps = pl\<lparr>entries := entries pl @ map ready_entry (filter (\<lambda>p. country_ok p (countries (config pl))) ps)\<rparr>" for pl
    by (induction ps arbitrary: pl) (simp_all add: import_one_def)
  then show ?thesis by (simp add: from_proxies_def spawned_def import_end_def)
qed

lemma import_all_run:
  "\<exists>ops w. pool_run w0 ops w \<and> w_pool w = foldl (\<lambda>pl p. import_one p pl) (w_pool w0) ps \<and> w_out w = w_out w0
    \<and> set_mset (w_admitted w) \<subseteq> set_mset (w_admitted w0) \<union> p_addr ` set ps"
proof (induction ps rule: rev_induct)
  case Nil
  then show ?case using run_nil by auto
next
  case (snoc p ps)
  then obtain ops w where w: "pool_run w0 ops w" "w_pool w = foldl (\<lambda>pl p. import_one p pl) (w_pool w0) ps" "w_out w = w_out w0"
    "set_mset (w_admitted w) \<subseteq> set_mset (w_admitted w0) \<union> p_addr ` set ps" by blast
  obtain w' where "pool_step w (OImport p) w'" "w_pool w' = import_one p (w_pool w)" "w_out w' = w_out w"
    "set_mset (w_admitted w') \<subseteq> insert (p_addr p) (set_mset (w_admitted w))"
    using import_ok[of p w] import_skip[of p w] by (cases "country_ok p (countries (config (w_pool w)))") fastforce+
  with w show ?case using run_snoc[OF w(1)] by (intro exI[of _ "ops @ [OImport p]"] exI[of _ w']) auto
qed

lemma load_ndjson_files:
  "load_ndjson ev path y = (Inr ps, y) \<Longrightarrow> sy_files y1 = sy_files y \<Longrightarrow> load_ndjson ev path y1 = (Inr qs, y1) \<Longrightarrow> qs = ps"
  by (auto simp: load_ndjson_def read_file_def and_then_Inr split: option.splits)

text \<open>C14. What \<open>find --save f\<close> has found is what \<open>serve --load f\<close> serves: the server starts with a complete pool
  that holds, in order and ready, the history of the store (if a state is given) and the proxies of the
  stream of \<open>find\<close> that the history does not know, each with its address, location and confirmed types,
  as far as they lie in the countries asked for; and \<open>find\<close> had delivered them as asked.\<close>

theorem found_then_served:
  assumes "find_cmd ev bk a acts y = Some (Inr (), y')" "fa_save a = Some f" "fa_outfile a \<noteq> Some f" "find_state ev bk a acts = Some s"
    "\<forall>p \<in> set (cs_out s). json_text_ok (ev_to_string ev) (ev_from_str ev) (serialize p)"
    "serve_cmd ev bk' b y' = (Inr sd, y'')" "sa_load b = Some f" "open_state_cmd ev bk' (sa_state b) y' = (Inr (bk1, h), y1)"
  shows "delivered ev bk a (cs_out s) \<and> exhausted (sh_pool (sv_shared (sd_serving sd)))
    \<and> pool_proxies (sh_pool (sv_shared (sd_serving sd))) = filter (\<lambda>p. country_ok p (allow_list (sa_countries b)))
        (h @ filter (\<lambda>p. p_addr p \<notin> p_addr ` set h) (map kept (cs_out s)))
    \<and> list_all (\<lambda>e. blocked_until e = None) (entries (sh_pool (sv_shared (sd_serving sd))))"
proof -
  from find_cmd_Inr[OF assms(1)] assms(4) have "stream_over s" by (metis option.inject)
  with find_delivered[OF assms(4)] have d: "delivered ev bk a (cs_out s)" .
  note l = load_saved[OF assms(1-5)]
  from serve_cmd_Inr[OF assms(6)] obtain h' z1 z2 where o: "open_state_cmd ev bk' (sa_state b) y' = (Inr (opened ev (sa_state b) bk', h'), z1)"
    "serve_fill ev (opened ev (sa_state b) bk') b h' z1 = (Inr (sd_fill sd), z2)"
    "sd_serving sd = sv_init (fl_pool (sd_fill sd)) (sa_min_queue b)" .
  have h: "h' = h" "z1 = y1" using o(1) assms(8) by simp_all
  obtain ps where ps: "load_ndjson ev f z1 = (Inr ps, z1)" "fl_pool (sd_fill sd) = from_proxies (union_dedup h ps) (pool_config_of b)"
    using serve_fill_pool[OF o(2)] assms(7) by (auto simp: h)
  have "ps = map kept (cs_out s)" using load_ndjson_files[OF l _ ps(1)] open_state_Inr(3)[OF o(1)] by simp
  with d ps(2) show ?thesis
    by (auto simp: o(3) from_proxies_def union_dedup_def Let_def pool_proxies_def ready_entry_def comp_def pool_config_of_def list_all_iff)
qed

section \<open>Remembered proxies and countries\<close>

text \<open>No store keeps a location.\<close>

lemma in_map_filter: "x \<in> set (List.map_filter f xs) \<longleftrightarrow> (\<exists>y \<in> set xs. f y = Some x)"
  by (induction xs) (auto simp: map_filter_simps split: option.splits)

lemma loaded_no_geo: "load_store ev c y = (Inr h, y') \<Longrightarrow> p \<in> set h \<Longrightarrow> p_geo p = None"
proof -
  have s: "p_geo p = None" if p: "p \<in> set (sql_load f t)" for f t p
  proof -
    obtain host port row where "(case parse_ip host of None \<Rightarrow> None
      | Some h \<Rightarrow> Some (row_proxy f h port row)) = Some p"
      using p unfolding sql_load_def in_map_filter row_proxy_def by fastforce
    then show ?thesis by (auto simp: row_proxy_def with_ewma_def restored_def split: option.splits)
  qed
  have r: "p_geo p = None" if p: "p \<in> set (redis_load f db)" for f db p
  proof -
    obtain m where "redis_load_one f db m = Some p" using p unfolding redis_load_def in_map_filter by blast
    then show ?thesis by (auto simp: redis_load_one_def with_ewma_def restored_def split: option.splits prod.splits)
  qed
  show "load_store ev c y = (Inr h, y') \<Longrightarrow> p \<in> set h \<Longrightarrow> p_geo p = None"
    by (auto simp: load_store_def dest: s r split: store_choice.splits option.splits)
qed

lemma history_no_geo:
  assumes "open_state_cmd ev bk spec y = (Inr (bk', h), y')" "p \<in> set h"
  shows "p_geo p = None"
proof (cases "store_of ev spec")
  case None
  with open_state_Inr(4)[OF assms(1)] assms(2) show ?thesis by simp
next
  case (Some c)
  with open_state_Inr(5)[OF assms(1)] loaded_no_geo assms(2) show ?thesis by blast
qed

text \<open>C39. With \<open>--countries\<close> the history is of no use, and worse. A store keeps no location, so the screening of
  admissions refuses every remembered proxy: the importer skips it, and with \<open>--load\<close> no address that the
  store remembers is in the pool, even when the file lists it with an allowed country.\<close>

theorem history_screened_out:
  assumes "open_state_cmd ev bk (sa_state a) y = (Inr (bk1, h), y1)" "p \<in> set h" "sa_countries a \<noteq> []" "serve_cmd ev bk a y = (Inr sd, y')"
  shows "(\<forall>pl. config pl = pool_config_of a \<longrightarrow> import_one p pl = pl)
    \<and> (sa_load a \<noteq> None \<longrightarrow> p_addr p \<notin> addrs (sh_pool (sv_shared (sd_serving sd))))"
proof -
  have c: "\<not> country_ok x (countries (pool_config_of a))" if "p_geo x = None" for x
    using that assms(3) by (simp add: country_ok_def pool_config_of_def allow_list_def)
  have g: "p_geo x = None" if "x \<in> set h" for x using history_no_geo[OF assms(1) that] .
  have "p_addr p \<notin> addrs (sh_pool (sv_shared (sd_serving sd)))" if l: "sa_load a \<noteq> None"
  proof
    from serve_cmd_Inr[OF assms(4)] obtain h' z1 z2 where o: "open_state_cmd ev bk (sa_state a) y = (Inr (opened ev (sa_state a) bk, h'), z1)"
      "serve_fill ev (opened ev (sa_state a) bk) a h' z1 = (Inr (sd_fill sd), z2)"
      "sd_serving sd = sv_init (fl_pool (sd_fill sd)) (sa_min_queue a)" .
    have "h' = h" using o(1) assms(1) by simp
    then obtain ps where ps: "fl_pool (sd_fill sd) = from_proxies (union_dedup h ps) (pool_config_of a)"
      using serve_fill_pool[OF o(2)] l by (auto split: option.splits)
    assume "p_addr p \<in> addrs (sh_pool (sv_shared (sd_serving sd)))"
    then obtain q where q: "q \<in> set (union_dedup h ps)" "p_addr q = p_addr p" "country_ok q (countries (pool_config_of a))"
      by (auto simp: o(3) ps addrs_def from_proxies_def ready_entry_def)
    have "q \<in> set h" by (rule union_dedup_spec(2)[OF q(1)]) (use q(2) assms(2) in simp)
    with c g q(3) show False by blast
  qed
  moreover have "import_one p pl = pl" if "config pl = pool_config_of a" for pl
    using c[OF g[OF assms(2)]] that by (simp add: import_one_def)
  ultimately show ?thesis by blast
qed

section \<open>A sample\<close>

text \<open>One provider with one address, checked against the liveness target; a build with SQLite and without
  geographic data. The text of a value is unique for the values of this run.\<close>

definition sample_checked :: proxy where
  "sample_checked = snd (Checker.check sample_codec (\<lambda>_. Some (V4 1 1 1 1)) sample_run_ck (\<lambda>_. 0) (\<lambda>_ _. sample_check_net [])
     (proxy_new (V4 9 9 9 9) 80 {}))"

definition sample_text :: "json \<Rightarrow> string" where
  "sample_text j = (case j of JArr vs \<Rightarrow> (if vs = [] then ''[]'' else ''x'') | _ \<Rightarrow> ''{}'')"

definition sample_value :: "string \<Rightarrow> json option" where
  "sample_value s = (if s = ''x'' then Some (JArr (map type_json (type_entries (p_types sample_checked))))
     else if s = ''{}'' then Some (serialize sample_checked) else None)"

definition sample_ev :: cmd_env where
  "sample_ev = \<lparr>ev_build = \<lparr>bd_stores = \<lparr>ft_sqlite = True, ft_redis = False\<rparr>, bd_persist = True, bd_watch = False, bd_metrics = False,
       bd_geo = False, bd_geo_bundled = False\<rparr>,
     ev_to_string = sample_text, ev_from_str = sample_value, ev_stats_json = (\<lambda>_. ''{}''), ev_show_f64 = (\<lambda>_. ''5''),
     ev_debug = (\<lambda>s. s), ev_yaml = (\<lambda>_. None), ev_stdin = Inr [], ev_no_file = (\<lambda>_. ''no file''), ev_bad_lines = (\<lambda>_. ''bad''),
     ev_bad_addr = (\<lambda>_. ''bad''), ev_create = (\<lambda>_. None), ev_clash = (\<lambda>a b. a), ev_connect = (\<lambda>_. None), ev_no_table = ''no table'',
     ev_engine = (\<lambda>_ _. None), ev_engine_text = (\<lambda>_. []), ev_clock = (\<lambda>_. 7), ev_dirs = (\<lambda>_. None), ev_mmdb = (\<lambda>_. Inl []),
     ev_bundled_geo = Inl [], ev_registry = [], ev_captures = (\<lambda>_ _. Some [([], Some (show_v4 9 9 9 9), Some (show_word (80 :: u16)))]),
     ev_get = (\<lambda>_ _. Some []), ev_order = (\<lambda>ps. ps), ev_world = Broker.sample_world, ev_dns_init = None, ev_dns_build = None, ev_socket = (\<lambda>_. None),
     ev_local = (\<lambda>a. a), ev_metrics_bind = (\<lambda>_. None), ev_watch_init = (\<lambda>_. None)\<rparr>"

definition sample_bk :: broker where
  "sample_bk = \<lparr>bk_providers = [\<lparr>pv_url = ''u'', pv_protocols = [], pv_pattern = Some ''p'', pv_timeout = 20, pv_kind = None\<rparr>],
     bk_geo = no_geo, bk_on_checked = None\<rparr>"

definition sample_find :: find_args where
  "sample_find = \<lparr>fa_types = [Http], fa_lvl = [], fa_limit = 1, fa_countries = [], fa_judges = [], fa_dnsbl = [], fa_timeout = 8,
     fa_max_conn = 200, fa_max_tries = 3, fa_post = False, fa_strict = True, fa_liveness_url = Some ''http://h/'', fa_retry_on = OnTimeout,
     fa_backoff_ms = 0, fa_relaxed_validity = False, fa_require_cookie = False, fa_require_referer = False, fa_require_connect25 = False,
     fa_trust_check = False, fa_require_trusted = False, fa_show_stats = True, fa_stats_format = StText, fa_format = FUrl,
     fa_output_format = None, fa_outfile = None, fa_save = Some ''f'', fa_progress = False, fa_state = Some ''s.db''\<rparr>"

definition sample_sys :: sys where
  "sample_sys = \<lparr>sy_stdout = [], sy_stderr = [], sy_files = Map.empty, sy_sqlite = (\<lambda>_. \<lparr>db_version = 0, db_table = None\<rparr>),
     sy_redis = (\<lambda>_. redis_empty)\<rparr>"

definition sample_facts :: "act list" where
  "sample_facts = find_acts @ [Recv]"

lemma sample_find_query: "find_cmd_query sample_find = sample_query"
  by (simp add: find_cmd_query_def sample_find_def builder_sets sample_query_def types_from_def ts_any_def secs_def
      retry_policy_of_def retry_tries_def retry_default_def millis_def)

lemma sample_scraped: "batches_of sample_ev sample_bk = [[\<lparr>cd_host = show_v4 9 9 9 9, cd_port = 80, cd_protocols = {}\<rparr>]]"
proof -
  have "CHR ''%'' \<notin> set (show_v4 9 9 9 9)" using show_v4_chars[of "CHR ''%''" 9 9 9 9] by (auto simp: is_digit_def between_def)
  moreover have "c \<notin> set t \<Longrightarrow> find_sub [c] t = None" for c t by (induction t) (auto simp: starts_with_def)
  ultimately have "split_once ''%'' (show_v4 9 9 9 9) = None" by (simp add: split_once_def)
  then have "canonicalize_ip (show_v4 9 9 9 9) = Some (show_v4 9 9 9 9)" by (simp add: canonicalize_ip_no_zone parse_ip_show_v4)
  then show ?thesis
    by (simp add: batches_of_def sample_ev_def sample_bk_def fetch_def extract_candidates_def extract_with_pattern_def map_filter_simps
        candidate_of_def parse_u16_show parse_ip_show_v4 push_candidate_def)
qed

lemma sample_ev_simps [simp]:
  "ev_world sample_ev = Broker.sample_world" "ev_to_string sample_ev = sample_text" "ev_from_str sample_ev = sample_value"
  "ev_engine sample_ev i j = None" "ev_create sample_ev p = None" "ev_connect sample_ev p = None" "ev_clock sample_ev i = 7"
  "ev_dns_init sample_ev = None" "ev_dns_build sample_ev = None" "ev_socket sample_ev = (\<lambda>_. None)"
  "\<not> bd_metrics (ev_build sample_ev)" "bd_persist (ev_build sample_ev)"
  by (simp_all add: sample_ev_def)

lemma sample_store: "store_of sample_ev (Some ''s.db'') = Some (UseSqlite ''s.db'')" "has_backend sample_ev"
  "select_store (bd_stores (ev_build sample_ev)) ''s.db'' = Inr (UseSqlite ''s.db'')"
  by (simp_all add: store_of_def has_backend_def sample_ev_def select_store_def starts_with_def ok_of_def)

lemma sample_found:
  obtains s where "find_state sample_ev sample_bk sample_find sample_facts = Some s" "stream_over s"
    "cs_out s = [sample_checked]" "cs_seen s = [sample_checked]"
proof -
  define e where "e = run_env Broker.sample_world sample_query True sample_run_ck"
  let ?p = "proxy_new (V4 9 9 9 9) 80 {}"
  have q: "ce_check e 0 ?p = (True, sample_checked)"
    using sample_find_check[of "w_resolve Broker.sample_world"]
    by (cases "ce_check e 0 ?p") (simp add: e_def run_env_def Broker.sample_world_def sample_checked_def)
  have e: "ce_max_conn e = 200" "ce_limit e = Some 1" "ce_observer e" "passes (ce_caps e) x" for x
    by (simp_all add: e_def run_env_def from_query_def sample_query_def find_query_default_def passes_def)
  have src: "find_source no_geo sample_query [[\<lparr>cd_host = show_v4 9 9 9 9, cd_port = 80, cd_protocols = {}\<rparr>]] = [?p]"
    by (simp add: find_source_def sample_query_def find_query_default_def uppercase_set_def parse_ip_show_v4 country_ok_def attach_geo_def no_geo_def)
  have b: "bk_on_checked (opened sample_ev (Some ''s.db'') sample_bk) \<noteq> None" "bk_geo sample_bk = no_geo" "fa_state sample_find = Some ''s.db''"
    by (simp_all add: opened_def sample_store with_observer_def sample_bk_def sample_find_def)
  have "broker_find sample_ev (opened sample_ev (Some ''s.db'') sample_bk) sample_query = Inr (e, cs_init [?p])"
    using b by (simp add: broker_find_def find_run_def sample_build sample_scraped src e_def) (simp add: sample_query_def)
  then have f: "find_state sample_ev sample_bk sample_find sample_facts = cs_run e sample_facts (cs_init [?p])"
    by (simp add: find_state_def sample_find_query b(3))
  obtain s where "cs_run e sample_facts (cs_init [?p]) = Some s" "stream_over s" "cs_out s = [sample_checked]" "cs_seen s = [sample_checked]"
    by (simp add: q e sample_facts_def find_acts_def cs_init_def is_limit_reached_def channel_capacity_def stream_over_def)
  with that f show thesis by simp
qed

definition sample_state :: sys where
  "sample_state = snd (open_store sample_ev (UseSqlite ''s.db'') sample_sys)"

lemma sample_opens: "open_store sample_ev (UseSqlite ''s.db'') sample_sys = (Inr (), sample_state)" "store_ok (UseSqlite ''s.db'') sample_state"
  "store_recall sample_ev (UseSqlite ''s.db'') sample_state = Map.empty" "load_store sample_ev (UseSqlite ''s.db'') sample_state = (Inr [], sample_state)"
  by (simp_all add: sample_state_def open_store_def sample_sys_def migrate_def store_ok_def sql_ok_def store_recall_def sql_recall_def
      load_store_def sql_load_def map_filter_simps fun_eq_iff)

lemma sample_find_returns: "\<exists>y'. find_cmd sample_ev sample_bk sample_find sample_facts sample_sys = Some (Inr (), y')"
proof -
  obtain s where s: "find_state sample_ev sample_bk sample_find sample_facts = Some s" "stream_over s" using sample_found by blast
  obtain e s0 where r: "broker_find sample_ev (opened sample_ev (Some ''s.db'') sample_bk) (find_cmd_query sample_find) = Inr (e, s0)" "cs_run e sample_facts s0 = Some s"
    using s(1) by (auto simp: find_state_def sample_find_def split: sum.splits)
  have o: "open_state_cmd sample_ev sample_bk (Some ''s.db'') sample_sys = (Inr (opened sample_ev (Some ''s.db'') sample_bk, []), sample_state)"
    by (simp add: open_state_cmd_def sample_store sample_opens and_then_def ret_def opened_def)
  obtain st where "stats_from_proxies (cs_stats s) = Some st" using stats_spec by metis
  with r s(2) o show ?thesis
    by (simp add: find_cmd_def sample_find_def write_checked_def create_sinks_def create_opt_def create_file_def and_then_def fill_sinks_def Let_def
        show_stats_def cmd_simps)
qed

text \<open>The text of the checked proxy reads back.\<close>

lemma sample_texts_ok: "json_text_ok sample_text sample_value (serialize sample_checked)" "types_text_ok sample_text sample_value (p_types sample_checked)"
proof -
  show "json_text_ok sample_text sample_value (serialize sample_checked)"
    by (simp add: json_text_ok_def sample_text_def sample_value_def serialize_def trim_def trim_start_def trim_end_def is_ws_def LF_def CR_def)
  have "is_working sample_checked"
    using check_true[of sample_codec "\<lambda>_. Some (V4 1 1 1 1)" sample_run_ck "\<lambda>_. 0" "\<lambda>_ _. sample_check_net []" "proxy_new (V4 9 9 9 9) 80 {}"]
      sample_find_check sample_build(3) by (simp add: sample_checked_def Let_def)
  then show "types_text_ok sample_text sample_value (p_types sample_checked)"
    by (simp add: types_text_ok_def types_to_json_def sample_text_def sample_value_def type_entries_empty)
qed

theorem find_end_to_end_witness:
  "\<exists>y' s. find_cmd sample_ev sample_bk sample_find sample_facts sample_sys = Some (Inr (), y')
    \<and> find_state sample_ev sample_bk sample_find sample_facts = Some s \<and> delivered sample_ev sample_bk sample_find (cs_out s)
    \<and> sy_files y' ''f'' = Some (write_ndjson sample_text (cs_out s)) \<and> cs_out s = [sample_checked]"
proof -
  obtain y' where y: "find_cmd sample_ev sample_bk sample_find sample_facts sample_sys = Some (Inr (), y')" using sample_find_returns by blast
  obtain s where s: "find_state sample_ev sample_bk sample_find sample_facts = Some s" "cs_out s = [sample_checked]" using sample_found by blast
  have a: "fa_save sample_find = Some ''f''" "fa_outfile sample_find = None" by (simp_all add: sample_find_def)
  from find_end_to_end[OF y] a s y show ?thesis by auto
qed

theorem find_returns_witness: "\<exists>acts r. find_cmd sample_ev sample_bk sample_find acts sample_sys = Some r"
  using find_returns[of sample_find sample_ev sample_bk sample_sys] by (auto simp: sample_find_def)

lemma sample_fit:
  assumes "cs_seen s = [sample_checked]"
  shows "fit_all (text_fit (ev_to_string sample_ev) (ev_from_str sample_ev)) (timed sample_ev 0 (cs_seen s)) (store_recall sample_ev (UseSqlite ''s.db'') sample_state)"
  by (simp add: assms sample_opens text_fit_def sample_texts_ok counts_fit_def)

theorem state_remembered_witness:
  "\<exists>y' h y2. find_cmd sample_ev sample_bk sample_find sample_facts sample_sys = Some (Inr (), y')
    \<and> open_state_cmd sample_ev sample_bk (Some ''s.db'') y' = (Inr (opened sample_ev (Some ''s.db'') sample_bk, h), y2)
    \<and> set h = {agg_proxy ad g | ad g. recall_all [(7, sample_checked)] Map.empty ad = Some g}"
proof -
  obtain y' where y: "find_cmd sample_ev sample_bk sample_find sample_facts sample_sys = Some (Inr (), y')" using sample_find_returns by blast
  obtain s where s: "find_state sample_ev sample_bk sample_find sample_facts = Some s" "cs_seen s = [sample_checked]" using sample_found by blast
  have a: "fa_state sample_find = Some ''s.db''" by (simp add: sample_find_def)
  from state_remembered[OF y s(1) _ sample_opens(1,2) _ sample_fit[OF s(2)], of sample_bk] y show ?thesis
    by (auto simp: a sample_store s(2) sample_opens(3))
qed

lemma sample_find_remembers:
  "\<exists>y' h y2. find_cmd sample_ev sample_bk sample_find sample_facts sample_sys = Some (Inr (), y')
    \<and> open_state_cmd sample_ev sample_bk (Some ''s.db'') y' = (Inr (opened sample_ev (Some ''s.db'') sample_bk, h), y2)
    \<and> set h = {agg_proxy ad g | ad g. recall_all [(7, sample_checked)] Map.empty ad = Some g}"
proof -
  obtain y' where y: "find_cmd sample_ev sample_bk sample_find sample_facts sample_sys = Some (Inr (), y')" using sample_find_returns by blast
  obtain s where s: "find_state sample_ev sample_bk sample_find sample_facts = Some s" "cs_seen s = [sample_checked]" using sample_found by blast
  have a: "fa_state sample_find = Some ''s.db''" by (simp add: sample_find_def)
  from find_remembers[OF y s(1) _ sample_opens(1,2) _ sample_fit[OF s(2)], of sample_bk] y show ?thesis
    by (auto simp: a sample_store s(2) sample_opens(3))
qed

definition sample_check :: check_args where
  "sample_check = \<lparr>ca_types = [], ca_infile = None, ca_load = Some ''f'', ca_lvl = [], ca_limit = 0, ca_countries = [], ca_judges = [], ca_dnsbl = [],
     ca_timeout = 8, ca_max_conn = 200, ca_max_tries = 3, ca_post = False, ca_strict = False, ca_show_stats = False, ca_stats_format = StText,
     ca_format = FUrl, ca_output_format = None, ca_outfile = None, ca_save = None\<rparr>"

theorem saved_then_checked_witness:
  "\<exists>y' y''. find_cmd sample_ev sample_bk sample_find sample_facts sample_sys = Some (Inr (), y')
    \<and> check_cmd sample_ev sample_bk sample_check [] y' = Some (Inr (), y'')
    \<and> sy_stdout y'' = sy_stdout y' @ sk_out (write_stream sample_text FUrl None False [sample_checked])"
proof -
  obtain y' where y: "find_cmd sample_ev sample_bk sample_find sample_facts sample_sys = Some (Inr (), y')" using sample_find_returns by blast
  obtain s where s: "find_state sample_ev sample_bk sample_find sample_facts = Some s" "cs_out s = [sample_checked]" using sample_found by blast
  from saved_then_checked[OF y _ _ s(1), of "''f''" sample_check sample_bk "[]"] y show ?thesis
    by (auto simp: s(2) sample_texts_ok sample_find_def sample_check_def address_format_def)
qed

definition sample_serving :: "string list \<Rightarrow> serve_args" where
  "sample_serving cs = sample_serve\<lparr>sa_host := show_sock_addr (V4 127 0 0 1, 8888), sa_load := Some ''f'', sa_countries := cs, sa_state := Some ''s.db''\<rparr>"

lemma sample_host: "parse_sock_addr (show_sock_addr (V4 127 0 0 1, 8888)) = Some (V4 127 0 0 1, 8888)"
  using addr_text_back[of "proxy_new (V4 127 0 0 1) 8888 {}"] by (simp add: show_sock_addr_def addr_def proxy_new_def)

text \<open>The store after the run remembers the checked proxy.\<close>

lemma sample_served:
  obtains y' h y1 sd y'' s where "find_cmd sample_ev sample_bk sample_find sample_facts sample_sys = Some (Inr (), y')"
    "find_state sample_ev sample_bk sample_find sample_facts = Some s" "cs_out s = [sample_checked]"
    "open_state_cmd sample_ev sample_bk (Some ''s.db'') y' = (Inr (opened sample_ev (Some ''s.db'') sample_bk, h), y1)"
    "agg_proxy (p_addr sample_checked) (agg_fold sample_checked None) \<in> set h"
    "serve_cmd sample_ev sample_bk (sample_serving cs) y' = (Inr sd, y'')"
proof -
  obtain y' h y1 where y: "find_cmd sample_ev sample_bk sample_find sample_facts sample_sys = Some (Inr (), y')"
    "open_state_cmd sample_ev sample_bk (Some ''s.db'') y' = (Inr (opened sample_ev (Some ''s.db'') sample_bk, h), y1)"
    "set h = {agg_proxy ad g | ad g. recall_all [(7, sample_checked)] Map.empty ad = Some g}"
    using sample_find_remembers by blast
  obtain s where s: "find_state sample_ev sample_bk sample_find sample_facts = Some s" "cs_out s = [sample_checked]" using sample_found by blast
  have "load_ndjson sample_ev ''f'' y' = (Inr [kept sample_checked], y')"
    using load_saved[OF y(1) _ _ s(1), of "''f''"] by (simp add: s(2) sample_texts_ok sample_find_def)
  then have l: "load_ndjson sample_ev ''f'' y1 = (Inr [kept sample_checked], y1)"
    using open_state_Inr(3)[OF y(2)] by (auto simp: load_ndjson_def read_file_def and_then_def ret_def fail_def split: option.splits prod.splits)
  have "agg_proxy (p_addr sample_checked) (agg_fold sample_checked None) \<in> set h"
    unfolding y(3) by (auto simp: agg_step_def)
  moreover obtain sd y'' where "serve_cmd sample_ev sample_bk (sample_serving cs) y' = (Inr sd, y'')"
    using l y(2)
    by (simp add: serve_cmd_def sample_serving_def sample_serve_def sample_host and_then_def serve_fill_def cmd_simps start_metrics_def
        start_recheck_def start_watch_def warn_features_def start_server_def serve_def serve_calls_def resolver_new_def)
  ultimately show thesis using that y(1,2) s by blast
qed

theorem found_then_served_witness:
  "\<exists>y' s h sd y''. find_cmd sample_ev sample_bk sample_find sample_facts sample_sys = Some (Inr (), y')
    \<and> find_state sample_ev sample_bk sample_find sample_facts = Some s
    \<and> serve_cmd sample_ev sample_bk (sample_serving []) y' = (Inr sd, y'') \<and> delivered sample_ev sample_bk sample_find (cs_out s)
    \<and> pool_proxies (sh_pool (sv_shared (sd_serving sd))) = filter (\<lambda>p. country_ok p (allow_list []))
        (h @ filter (\<lambda>p. p_addr p \<notin> p_addr ` set h) (map kept (cs_out s)))"
proof -
  obtain y' h y1 sd y'' s where w: "find_cmd sample_ev sample_bk sample_find sample_facts sample_sys = Some (Inr (), y')"
    "find_state sample_ev sample_bk sample_find sample_facts = Some s" "cs_out s = [sample_checked]"
    "open_state_cmd sample_ev sample_bk (Some ''s.db'') y' = (Inr (opened sample_ev (Some ''s.db'') sample_bk, h), y1)"
    "serve_cmd sample_ev sample_bk (sample_serving []) y' = (Inr sd, y'')"
    by (rule sample_served)
  have a: "fa_save sample_find = Some ''f''" "fa_outfile sample_find \<noteq> Some ''f''" "sa_load (sample_serving []) = Some ''f''"
    "sa_state (sample_serving []) = Some ''s.db''" "sa_countries (sample_serving []) = []"
    by (simp_all add: sample_find_def sample_serving_def)
  have "\<forall>p \<in> set (cs_out s). json_text_ok (ev_to_string sample_ev) (ev_from_str sample_ev) (serialize p)"
    by (simp add: w(3) sample_texts_ok)
  from found_then_served[OF w(1) a(1,2) w(2) this w(5) a(3), unfolded a(4,5), OF w(4)] w(1,2,5) show ?thesis by blast
qed

theorem history_screened_out_witness:
  "\<exists>y' sd y''. serve_cmd sample_ev sample_bk (sample_serving [''DE'']) y' = (Inr sd, y'')
    \<and> p_addr sample_checked \<notin> addrs (sh_pool (sv_shared (sd_serving sd)))"
proof -
  obtain y' h y1 sd y'' where w:
    "open_state_cmd sample_ev sample_bk (Some ''s.db'') y' = (Inr (opened sample_ev (Some ''s.db'') sample_bk, h), y1)"
    "agg_proxy (p_addr sample_checked) (agg_fold sample_checked None) \<in> set h"
    "serve_cmd sample_ev sample_bk (sample_serving [''DE'']) y' = (Inr sd, y'')"
    by (rule sample_served)
  have a: "sa_state (sample_serving [''DE'']) = Some ''s.db''" "sa_countries (sample_serving [''DE'']) \<noteq> []" "sa_load (sample_serving [''DE'']) \<noteq> None"
    "p_addr (agg_proxy (p_addr sample_checked) g) = p_addr sample_checked" for g
    by (simp_all add: sample_serving_def agg_proxy_def with_ewma_def restored_def)
  from history_screened_out[OF w(1)[folded a(1)] w(2) a(2) w(3)] a(3,4) w(3) show ?thesis by metis
qed

text \<open>A server without a file: its judges answer, its importer has read nothing yet, and a client is refused.\<close>

definition sample_finding :: serve_args where
  "sample_finding = sample_serve\<lparr>sa_host := show_sock_addr (V4 127 0 0 1, 8888), sa_types := [Http], sa_load := None, sa_countries := [],
     sa_auth := Some ''u:pw''\<rparr>"

definition sample_judged :: cmd_env where
  "sample_judged = sample_ev\<lparr>ev_world := Broker.sample_world\<lparr>w_probe := Some\<rparr>\<rparr>"

end
