(* ===== verification/Process_Spec.thy ===== *)
theory Process_Spec
  imports Process Commands_Spec "HOL-Library.Sublist"
begin

text \<open>
  What the whole process of \<open>serve\<close> guarantees. Every run of the process is, seen from one of its tasks, a
  run of that task: of the server, of the pipeline of \<open>find\<close>, of the re-checker. The theorems about the
  tasks alone therefore hold in the process.
\<close>

section \<open>Steps of the server\<close>

lemma serve_actE:
  assumes "serve_act x b p = Some p'"
  obtains s where "sv_exec (px_want x) (px_min_queue x) b (pr_serving p) = Some s" "p' = p\<lparr>pr_serving := s\<rparr>"
  using assms by (auto simp: serve_act_def)

lemma record_checks_frame [simp]:
  "pr_serving (record_checks x st qs p) = pr_serving p" "pr_left (record_checks x st qs p) = pr_left p"
  "pr_find (record_checks x st qs p) = pr_find p" "pr_sched (record_checks x st qs p) = pr_sched p"
  "pr_todo (record_checks x st qs p) = pr_todo p" "pr_loaded (record_checks x st qs p) = pr_loaded p"
  "pr_upserted (record_checks x st qs p) = pr_upserted p" "sy_files (pr_sys (record_checks x st qs p)) = sy_files (pr_sys p)"
  by (simp_all add: record_checks_def split: option.split)

text \<open>The server has come from \<open>s0\<close> to \<open>s\<close>, and what was added to the pool on the way has an address of \<open>K\<close>.\<close>

definition served_by :: "proc_env \<Rightarrow> serving \<Rightarrow> sock_addr set \<Rightarrow> serving \<Rightarrow> bool" where
  "served_by x s0 K s \<longleftrightarrow> (\<exists>acts. sv_run (px_want x) (px_min_queue x) acts s0 = Some s \<and> \<Union> (act_admits ` set acts) \<subseteq> K)"

lemma served_by_refl: "served_by x s0 K s0"
  unfolding served_by_def by (rule exI[of _ "[]"]) simp

lemma served_by_step:
  assumes "served_by x s0 K s" "sv_exec (px_want x) (px_min_queue x) b s = Some s'" "act_admits b \<subseteq> K"
  shows "served_by x s0 K s'"
proof -
  from assms(1) obtain acts where "sv_run (px_want x) (px_min_queue x) acts s0 = Some s" "\<Union> (act_admits ` set acts) \<subseteq> K"
    unfolding served_by_def by blast
  with assms(2,3) show ?thesis unfolding served_by_def by (intro exI[of _ "acts @ [b]"]) (simp add: sv_run_append)
qed

lemma of_server_admits: "of_server b \<Longrightarrow> act_admits b = {}"
  by (cases b) simp_all

section \<open>Steps of the pipeline\<close>

definition piped :: "proc_env \<Rightarrow> cs_state \<Rightarrow> process \<Rightarrow> bool" where
  "piped x f0 p \<longleftrightarrow> (\<forall>e f. px_find x = Some e \<longrightarrow> pr_find p = Some f \<longrightarrow> (\<exists>facts. cs_run e facts f0 = Some f))"

lemma piped_step:
  assumes "piped x f0 p" "px_find x = Some e" "pr_find p = Some f" "cs_exec e a f = Some f'" "pr_find p' = Some f'"
  shows "piped x f0 p'"
proof -
  obtain facts where "cs_run e facts f0 = Some f" using assms(1-3) unfolding piped_def by blast
  with assms(4) have "cs_run e (facts @ [a]) f0 = Some f'" by (simp add: cs_run_append)
  with assms(2,5) show ?thesis by (auto simp: piped_def)
qed

lemma piped_frame: "piped x f0 p \<Longrightarrow> pr_find p' = pr_find p \<Longrightarrow> piped x f0 p'"
  by (simp add: piped_def)

section \<open>Steps of the re-checker\<close>

lemma sched_inv_pool [simp]: "sched_inv (s\<lparr>sc_pool := pl\<rparr>) = sched_inv s" "tracked (s\<lparr>sc_pool := pl\<rparr>) = tracked s"
  by (simp_all add: sched_inv_def tracked_def)

lemma sched_inv_exec: "sched_exec env a s = Some s' \<Longrightarrow> sched_inv s \<Longrightarrow> sched_inv s'"
  using sched_inv_run[of env "[a]" s s'] by simp

lemma tracked_exec:
  assumes "sched_exec env a s = Some s'" "sched_inv s"
  shows "tracked s' \<subseteq> tracked s \<union> addrs (sc_pool s)"
proof (cases a)
  case (Enroll now as rnd)
  with assms(1) have e: "enroll (se_cfg env) now rnd as s = Some s'" "set as = addrs (sc_pool s)" by (auto split: if_splits)
  from enroll_spec[OF e(1)] assms(2) have "sched_inv s'" "dom (sc_ewma s') = dom (sc_ewma s) \<union> set as" by simp_all
  with assms(2) e(2) show ?thesis by (simp add: sched_inv_def)
next
  case (Start now k)
  with assms(1) have st: "Scheduler.start (se_cfg env) now k s = Some s'" by simp
  have d: "distinct (map snd (sc_heap s))" using assms(2) by (simp add: sched_inv_def)
  from st show ?thesis
  proof (cases rule: start_cases)
    case (1 gap)
    with snd_vec_remove[OF 1(3) d] show ?thesis by (auto simp: tracked_def forget_def)
  next
    case (2 gap)
    have "snd (sc_heap s ! k) \<in> snd ` set (sc_heap s)" using 2(3) by simp
    with 2 snd_vec_remove[OF 2(3) d] show ?thesis by (auto simp: tracked_def)
  qed
next
  case (Finish now rnd)
  with assms(1) have "finish env now rnd s = Some s'" by simp
  then show ?thesis
    by (cases rule: finish_cases) (auto simp: tracked_def settle_def Let_def forget_def)
next
  case (Others f)
  with assms(1) have "s' = s\<lparr>sc_pool := f (sc_pool s)\<rparr>" by simp
  then show ?thesis by simp
qed

lemma probed_pool [simp]:
  "probed env (s\<lparr>sc_pool := pl\<rparr>) = probed env s" "recheck_effect env (s\<lparr>sc_pool := pl\<rparr>) = recheck_effect env s"
  by (simp_all add: probed_def recheck_effect_def)

lemma recheck_stepE:
  assumes "recheck_step x a p = Some p'"
  obtains env c s where "px_recheck x = Some (env, c)" "sched_exec env a ((pr_sched p)\<lparr>sc_pool := pool_of p\<rparr>) = Some s"
    "\<nexists>now rnd. a = sched_act.Finish now rnd" "\<not> pr_upserted p" "p' = p\<lparr>pr_sched := s\<rparr>"
  | env c s b t now rnd where "px_recheck x = Some (env, c)" "sched_exec env a ((pr_sched p)\<lparr>sc_pool := pool_of p\<rparr>) = Some s" "a = sched_act.Finish now rnd"
    "recheck_effect env (pr_sched p) = Some b" "pr_upserted p" "sv_exec (px_want x) (px_min_queue x) b (pr_serving p) = Some t"
    "p' = p\<lparr>pr_sched := s, pr_upserted := False, pr_serving := t\<rparr>"
proof -
  from assms obtain env c s where s: "px_recheck x = Some (env, c)" "sched_exec env a ((pr_sched p)\<lparr>sc_pool := pool_of p\<rparr>) = Some s"
    by (auto simp: recheck_step_def simp del: sched_exec.simps split: option.splits)
  show thesis
  proof (cases "\<exists>now rnd. a = sched_act.Finish now rnd")
    case True
    then obtain now rnd where a: "a = sched_act.Finish now rnd" by blast
    with assms s obtain b where b: "recheck_effect env (pr_sched p) = Some b" "pr_upserted p"
      "serve_act x b (p\<lparr>pr_sched := s, pr_upserted := False\<rparr>) = Some p'"
      by (auto simp: recheck_step_def simp del: sched_exec.simps split: option.splits if_splits)
    from b(3) obtain t where "sv_exec (px_want x) (px_min_queue x) b (pr_serving p) = Some t"
      "p' = p\<lparr>pr_sched := s, pr_upserted := False, pr_serving := t\<rparr>" by (rule serve_actE) simp
    with s a b(1,2) show thesis by (intro that(2)) simp_all
  next
    case False
    with assms s have "\<not> pr_upserted p \<and> p' = p\<lparr>pr_sched := s\<rparr>"
      by (cases a) (auto simp: recheck_step_def simp del: sched_exec.simps split: if_splits)
    with s False show thesis by (intro that(1)) simp_all
  qed
qed

lemma recheck_effect_Some:
  assumes "recheck_effect env s = Some b"
  obtains k q where "sc_current s = Some k" "se_check env (sc_probes s) (proxy_new (fst k) (snd k) {}) = (True, q)" "b = Add q"
  | k q where "sc_current s = Some k" "se_check env (sc_probes s) (proxy_new (fst k) (snd k) {}) = (False, q)" "b = Remove k"
  using assms by (auto simp: recheck_effect_def probed_def split: option.splits prod.splits if_splits)

lemma upsert_stepE:
  assumes "upsert_step x p = Some p'"
  obtains env c w q where "px_recheck x = Some (env, c)" "probed env (pr_sched p) = Some (w, q)" "\<not> pr_upserted p"
    "p' = record_checks x (Some c) [q] (p\<lparr>pr_upserted := True\<rparr>)"
  using assms by (auto simp: upsert_step_def split: option.splits prod.splits if_splits)

text \<open>A re-check that ends changes the shared pool exactly as the re-checker's own model of it does.\<close>

lemma recheck_coherent:
  assumes "recheck_step x (sched_act.Finish now rnd) p = Some p'"
  shows "pool_of p' = sc_pool (pr_sched p')"
  using assms
proof (cases rule: recheck_stepE)
  case (2 env c s b t)
  from 2(2) have "finish env now rnd ((pr_sched p)\<lparr>sc_pool := pool_of p\<rparr>) = Some s" by simp
  then show ?thesis
  proof (cases rule: finish_cases)
    case (1 k w q i j)
    with 2(4,6,7) show ?thesis
      by (auto simp: recheck_effect_def probed_def settle_def Let_def pool_of_def set_pool_def notify_all_def forget_def split: if_splits)
  qed
qed simp

section \<open>Where the addresses come from\<close>

text \<open>A set of addresses that none of the tasks leaves.\<close>

definition addr_closed :: "proc_env \<Rightarrow> serving \<Rightarrow> cs_state \<Rightarrow> sock_addr set \<Rightarrow> bool" where
  "addr_closed x s0 f0 K \<longleftrightarrow>
     (\<forall>s. served_by x s0 K s \<longrightarrow> addrs (sh_pool (sv_shared s)) \<subseteq> K)
     \<and> (\<forall>e facts f. px_find x = Some e \<longrightarrow> cs_run e facts f0 = Some f \<longrightarrow> p_addr ` set (cs_out f) \<subseteq> K)
     \<and> (\<forall>env c i q. px_recheck x = Some (env, c) \<longrightarrow> p_addr (snd (se_check env i q)) = p_addr q)"

definition lists_only :: "proc_env \<Rightarrow> sock_addr set \<Rightarrow> string option \<Rightarrow> bool" where
  "lists_only x K file \<longleftrightarrow> (\<forall>ps. reload (ev_from_str (px_cmd x)) file = Some ps \<longrightarrow> p_addr ` set ps \<subseteq> K)"

definition proc_inv :: "proc_env \<Rightarrow> serving \<Rightarrow> cs_state \<Rightarrow> sock_addr set \<Rightarrow> process \<Rightarrow> bool" where
  "proc_inv x s0 f0 K p \<longleftrightarrow> served_by x s0 K (pr_serving p) \<and> piped x f0 p \<and> p_addr ` set (pr_left p) \<subseteq> K
     \<and> tracked (pr_sched p) \<subseteq> K \<and> sched_inv (pr_sched p) \<and> \<Union> (act_admits ` set (pr_todo p)) \<subseteq> K
     \<and> (\<forall>desired. pr_loaded p = Some desired \<longrightarrow> p_addr ` set desired \<subseteq> K)
     \<and> (\<forall>path. px_watch x = Some path \<longrightarrow> lists_only x K (sy_files (pr_sys p) path))"

lemma inv_serve:
  assumes "proc_inv x s0 f0 K p" "serve_act x b p = Some p'" "act_admits b \<subseteq> K"
  shows "proc_inv x s0 f0 K p'"
  using assms(2)
proof (rule serve_actE)
  fix s assume "sv_exec (px_want x) (px_min_queue x) b (pr_serving p) = Some s" "p' = p\<lparr>pr_serving := s\<rparr>"
  with assms(1,3) show ?thesis by (auto simp: proc_inv_def piped_def intro: served_by_step)
qed

lemma inv_search:
  assumes "proc_inv x s0 f0 K p" "search_step x a p = Some p'"
  shows "proc_inv x s0 f0 K p'"
proof -
  from assms(2) obtain e f f' where f: "px_find x = Some e" "pr_find p = Some f" "cs_exec e a f = Some f'"
    "p' = record_checks x (px_observer x) (drop (length (cs_seen f)) (cs_seen f')) (p\<lparr>pr_find := Some f'\<rparr>)"
    by (auto simp: search_step_def simp del: cs_exec.simps split: option.splits if_splits)
  have "piped x f0 p" using assms(1) by (simp add: proc_inv_def)
  from piped_step[OF this f(1-3)] f(4) have "piped x f0 p'" by simp
  with assms(1) f(4) show ?thesis by (simp add: proc_inv_def)
qed

lemma out_received:
  assumes "cs_exec e Recv f = Some f'"
  shows "cs_out f ! cs_got f \<in> set (cs_out f')"
  using assms by (auto split: if_splits)

lemma inv_read:
  assumes "proc_inv x s0 f0 K p" "addr_closed x s0 f0 K" "read_next x p = Some p'"
  shows "proc_inv x s0 f0 K p'"
proof (cases "pr_left p")
  case (Cons q qs)
  with assms(3) have "serve_act x (Import q) (p\<lparr>pr_left := qs\<rparr>) = Some p'" by (simp add: read_next_def)
  moreover have "proc_inv x s0 f0 K (p\<lparr>pr_left := qs\<rparr>)" using assms(1) Cons by (simp add: proc_inv_def piped_def)
  moreover have "act_admits (Import q) \<subseteq> K" using assms(1) Cons by (simp add: proc_inv_def)
  ultimately show ?thesis using inv_serve by blast
next
  case Nil
  with assms(3) obtain e f f' where f: "px_find x = Some e" "pr_find p = Some f" "cs_exec e Recv f = Some f'"
    "serve_act x (Import (cs_out f ! cs_got f)) (p\<lparr>pr_find := Some f'\<rparr>) = Some p'"
    by (auto simp: read_next_def simp del: cs_exec.simps split: option.splits)
  have "piped x f0 p" using assms(1) by (simp add: proc_inv_def)
  from piped_step[OF this f(1-3)] have pi: "piped x f0 (p\<lparr>pr_find := Some f'\<rparr>)" by simp
  then obtain facts where "cs_run e facts f0 = Some f'" using f(1) by (auto simp: piped_def)
  with assms(2) f(1) have "p_addr ` set (cs_out f') \<subseteq> K" unfolding addr_closed_def by blast
  with out_received[OF f(3)] have "act_admits (Import (cs_out f ! cs_got f)) \<subseteq> K" by auto
  moreover have "proc_inv x s0 f0 K (p\<lparr>pr_find := Some f'\<rparr>)" using assms(1) pi by (simp add: proc_inv_def)
  ultimately show ?thesis using inv_serve f(4) by blast
qed

lemma inv_recheck:
  assumes "proc_inv x s0 f0 K p" "addr_closed x s0 f0 K" "recheck_step x a p = Some p'"
  shows "proc_inv x s0 f0 K p'"
proof -
  have i: "served_by x s0 K (pr_serving p)" "sched_inv (pr_sched p)" "tracked (pr_sched p) \<subseteq> K"
    using assms(1) by (simp_all add: proc_inv_def)
  with assms(2) have pool: "addrs (pool_of p) \<subseteq> K" by (simp add: addr_closed_def pool_of_def)
  have sched: "sched_inv s \<and> tracked s \<subseteq> K" if "sched_exec env a ((pr_sched p)\<lparr>sc_pool := pool_of p\<rparr>) = Some s" for env s
    using sched_inv_exec[OF that] tracked_exec[OF that] i(2,3) pool by auto
  from assms(3) show ?thesis
  proof (cases rule: recheck_stepE)
    case (1 env c s)
    with sched assms(1) show ?thesis by (simp add: proc_inv_def piped_def)
  next
    case (2 env c s b t now rnd)
    from 2(4) have "act_admits b \<subseteq> K"
    proof (cases rule: recheck_effect_Some)
      case (1 k q)
      then have "p_addr q = p_addr (proxy_new (fst k) (snd k) {})" using assms(2) 2(1) unfolding addr_closed_def by (metis snd_conv)
      with 1(1,3) i(3) show ?thesis by (auto simp: proxy_new_def tracked_def)
    qed simp
    from served_by_step[OF i(1) 2(6) this] sched[OF 2(2)] 2(7) assms(1) show ?thesis by (simp add: proc_inv_def piped_def)
  qed
qed

lemma inv_poll:
  assumes "proc_inv x s0 f0 K p" "poll_step x now evs p = Some p'"
  shows "proc_inv x s0 f0 K p'"
proof -
  from assms(2) obtain path where path: "px_watch x = Some path" by (auto simp: poll_step_def split: option.splits)
  define new where "new = reload (ev_from_str (px_cmd x)) (sy_files (pr_sys p) path)"
  have ok: "p_addr ` set desired \<subseteq> K" if "new = Some desired" for desired
    using assms(1) path that by (simp add: new_def proc_inv_def lists_only_def)
  from assms(2) path consider "p' = p\<lparr>pr_pending := pr_pending p'\<rparr>" | "p' = p\<lparr>pr_pending := None, pr_loaded := new\<rparr>"
    by (auto simp: poll_step_def Let_def new_def split: option.splits if_splits)
  then show ?thesis
  proof cases
    case 1
    have "proc_inv x s0 f0 K (p\<lparr>pr_pending := pr_pending p'\<rparr>)" using assms(1) by (simp add: proc_inv_def piped_def)
    with 1 show ?thesis by simp
  next
    case 2
    with ok assms(1) show ?thesis by (simp add: proc_inv_def piped_def)
  qed
qed

lemma inv_read_pool:
  assumes "proc_inv x s0 f0 K p" "read_pool current p = Some p'"
  shows "proc_inv x s0 f0 K p'"
proof -
  from assms(2) obtain desired where d: "pr_loaded p = Some desired" "p' = p\<lparr>pr_loaded := None, pr_todo := reconcile_acts desired current\<rparr>"
    by (auto simp: read_pool_def split: option.splits if_splits)
  have "\<Union> (act_admits ` set (reconcile_acts desired current)) \<subseteq> p_addr ` set desired" by (auto simp: reconcile_acts_def)
  also have "\<dots> \<subseteq> K" using assms(1) d(1) by (simp add: proc_inv_def)
  finally show ?thesis using assms(1) d(2) by (simp add: proc_inv_def piped_def)
qed

lemma inv_upsert:
  assumes "proc_inv x s0 f0 K p" "upsert_step x p = Some p'"
  shows "proc_inv x s0 f0 K p'"
  using assms(2) by (rule upsert_stepE) (use assms(1) in \<open>simp add: proc_inv_def piped_def\<close>)

definition edits_only :: "proc_env \<Rightarrow> sock_addr set \<Rightarrow> proc_act \<Rightarrow> bool" where
  "edits_only x K a \<longleftrightarrow> (\<forall>path file. px_watch x = Some path \<longrightarrow> a = Edit path file \<longrightarrow> lists_only x K file)"

lemma inv_exec:
  assumes "proc_inv x s0 f0 K p" "addr_closed x s0 f0 K" "edits_only x K a" "proc_exec x a p = Some p'"
  shows "proc_inv x s0 f0 K p'"
proof (cases a)
  case ReadEnd
  with assms(4) have "serve_act x ImportEnd p = Some p'" by (auto simp: read_end_def split: option.splits if_splits)
  with inv_serve[OF assms(1)] show ?thesis by simp
next
  case (Clients b)
  with assms(4) have "serve_act x b p = Some p'" "act_admits b = {}" by (auto simp: of_server_admits split: if_splits)
  with inv_serve[OF assms(1)] show ?thesis by simp
next
  case ReconcileNext
  with assms(4) obtain b bs where b: "pr_todo p = b # bs" "serve_act x b (p\<lparr>pr_todo := bs\<rparr>) = Some p'"
    by (auto simp: reconcile_next_def split: list.splits)
  with assms(1) have "proc_inv x s0 f0 K (p\<lparr>pr_todo := bs\<rparr>)" "act_admits b \<subseteq> K" by (simp_all add: proc_inv_def piped_def)
  with inv_serve b(2) show ?thesis by blast
next
  case (Scrape m)
  with assms(4) obtain ms where "p' = p\<lparr>pr_metrics := ms\<rparr>"
    by (auto simp: scrape_step_def split: metrics_act.splits if_splits)
  with assms(1) show ?thesis by (simp add: proc_inv_def piped_def)
next
  case (Edit path new)
  with assms(4) have "p' = p\<lparr>pr_sys := (pr_sys p)\<lparr>sy_files := (sy_files (pr_sys p))(path := new)\<rparr>\<rparr>" by simp
  with Edit assms(1,3) show ?thesis by (simp add: proc_inv_def piped_def edits_only_def)
next
  case Interrupt
  with assms(4) obtain y where y: "serve_act x Shutdown (p\<lparr>pr_sys := y\<rparr>) = Some p'" "sy_files y = sy_files (pr_sys p)"
    by (auto simp: serve_stop_def cmd_simps split: if_splits)
  have "proc_inv x s0 f0 K (p\<lparr>pr_sys := y\<rparr>)" using assms(1) y(2) by (simp add: proc_inv_def piped_def)
  with inv_serve y(1) show ?thesis by fastforce
next
  case (Search b)
  with assms(4) show ?thesis by (intro inv_search[OF assms(1)]) simp
next
  case ReadNext
  with assms(4) show ?thesis by (intro inv_read[OF assms(1,2)]) simp
next
  case (Recheck b)
  with assms(4) show ?thesis by (intro inv_recheck[OF assms(1,2)]) simp
next
  case (Poll now evs)
  with assms(4) show ?thesis by (intro inv_poll[OF assms(1)]) simp
next
  case (ReadPool current)
  with assms(4) show ?thesis by (intro inv_read_pool[OF assms(1)]) simp
next
  case Upsert
  with assms(4) show ?thesis by (intro inv_upsert[OF assms(1)]) simp
qed

lemma inv_run:
  "proc_run x acts p = Some p' \<Longrightarrow> proc_inv x s0 f0 K p \<Longrightarrow> addr_closed x s0 f0 K \<Longrightarrow> \<forall>a \<in> set acts. edits_only x K a
    \<Longrightarrow> proc_inv x s0 f0 K p'"
proof (induction acts arbitrary: p)
  case (Cons a acts)
  then obtain q where "proc_exec x a p = Some q" "proc_run x acts q = Some p'" by (auto simp del: proc_exec.simps split: option.splits)
  with Cons.IH[of q] Cons.prems inv_exec show ?case by fastforce
qed simp

lemma proc_run_append: "proc_run x (as @ bs) p = (case proc_run x as p of None \<Rightarrow> None | Some q \<Rightarrow> proc_run x bs q)"
  by (induction as arbitrary: p) (simp_all del: proc_exec.simps split: option.split)

section \<open>The start of the process\<close>

lemma serve_cmd_stages:
  assumes "serve_cmd ev bk a y = (Inr sd, y')"
  obtains h y1 y2 y3 y4 y5 where "open_state_cmd ev bk (sa_state a) y = (Inr (opened ev (sa_state a) bk, h), y1)"
    "serve_fill ev (opened ev (sa_state a) bk) a h y1 = (Inr (sd_fill sd), y2)" "start_metrics ev (sa_metrics a) y2 = (Inr (sd_metrics sd), y3)"
    "start_recheck ev a y3 = (Inr (sd_recheck sd), y4)" "start_watch ev a y4 = (Inr (sd_watch sd), y5)"
    "sy_files y' = sy_files y5" "same_dbs y5 y'" "sd_observer sd = bk_on_checked (opened ev (sa_state a) bk)"
proof -
  obtain bk' h y1 y2 y3 y4 y5 where o: "open_state_cmd ev bk (sa_state a) y = (Inr (bk', h), y1)"
    "serve_fill ev bk' a h y1 = (Inr (sd_fill sd), y2)" "start_metrics ev (sa_metrics a) y2 = (Inr (sd_metrics sd), y3)"
    "start_recheck ev a y3 = (Inr (sd_recheck sd), y4)" "start_watch ev a y4 = (Inr (sd_watch sd), y5)"
    "sy_files y' = sy_files y5" "same_dbs y5 y'" "sd_observer sd = bk_on_checked bk'"
    using assms by (auto simp: serve_cmd_def and_then_Inr start_server_def serve_def warn_features_def cmd_simps same_dbs_def split: option.splits sum.splits if_splits)
  with that open_state_Inr(1)[OF o(1)] show ?thesis by blast
qed

lemma start_frames:
  "serve_fill ev bk a h y = (Inr fl, y') \<Longrightarrow> sy_files y' = sy_files y \<and> same_dbs y y'"
  "start_metrics ev m y = (Inr r, y') \<Longrightarrow> sy_files y' = sy_files y \<and> same_dbs y y'"
  "start_watch ev a y = (Inr w, y') \<Longrightarrow> sy_files y' = sy_files y \<and> same_dbs y y' \<and> (w = None \<or> w = sa_load a)"
  by (auto simp: serve_fill_def spawn_fill_def load_ndjson_def read_file_def start_metrics_def start_watch_def and_then_Inr cmd_simps same_dbs_def
      split: option.splits if_splits bool.splits sum.splits)

lemma start_recheck_files: "start_recheck ev a y = (Inr r, y') \<Longrightarrow> sy_files y' = sy_files y"
  by (auto simp: start_recheck_def recheck_store_cmd_def and_then_Inr cmd_simps dest!: open_store_frame split: sum.splits store_choice.splits if_splits)

definition remembered :: "cmd_env \<Rightarrow> broker \<Rightarrow> serve_args \<Rightarrow> sys \<Rightarrow> proxy list" where
  "remembered ev bk a y = (case fst (open_state_cmd ev bk (sa_state a) y) of Inl _ \<Rightarrow> [] | Inr (_, h) \<Rightarrow> h)"

text \<open>The contents that the file under \<open>--load\<close> has when the server starts and while it runs.\<close>

definition file_versions :: "serve_args \<Rightarrow> sys \<Rightarrow> proc_act list \<Rightarrow> string option set" where
  "file_versions a y acts = (case sa_load a of None \<Rightarrow> {} | Some path \<Rightarrow> insert (sy_files y path) {file. Edit path file \<in> set acts})"

definition listed_in :: "cmd_env \<Rightarrow> string option set \<Rightarrow> sock_addr set" where
  "listed_in ev files = {ad. \<exists>file ps. file \<in> files \<and> reload (ev_from_str ev) file = Some ps \<and> ad \<in> p_addr ` set ps}"

lemma serve_started:
  assumes "serve_cmd ev bk a y = (Inr sd, y')"
  shows "\<exists>ops w. pool_run (start (pool_config_of a)) ops w \<and> w_pool w = fl_pool (sd_fill sd) \<and> w_out w = {#}
      \<and> set_mset (w_admitted w) \<subseteq> p_addr ` set (remembered ev bk a y) \<union> listed_in ev (file_versions a y' [])"
    and "set (fl_history (sd_fill sd)) \<subseteq> set (remembered ev bk a y)" "sd_watch sd = Some path \<Longrightarrow> sa_load a = Some path"
    and "fl_find (sd_fill sd) = Some run \<Longrightarrow> sa_load a = None \<and> broker_find ev (opened ev (sa_state a) bk) (serve_fill_query a) = Inr run"
proof -
  from serve_cmd_stages[OF assms] obtain h y1 y2 y3 y4 y5 where o: "open_state_cmd ev bk (sa_state a) y = (Inr (opened ev (sa_state a) bk, h), y1)"
    "serve_fill ev (opened ev (sa_state a) bk) a h y1 = (Inr (sd_fill sd), y2)" "start_metrics ev (sa_metrics a) y2 = (Inr (sd_metrics sd), y3)"
    "start_recheck ev a y3 = (Inr (sd_recheck sd), y4)" "start_watch ev a y4 = (Inr (sd_watch sd), y5)" "sy_files y' = sy_files y5" .
  have h: "remembered ev bk a y = h" by (simp add: remembered_def o(1))
  have files: "sy_files y' = sy_files y1"
    using start_frames(1)[OF o(2)] start_frames(2)[OF o(3)] start_recheck_files[OF o(4)] start_frames(3)[OF o(5)] o(6) by simp
  note f = serve_fill_pool[OF o(2)]
  show "sd_watch sd = Some path \<Longrightarrow> sa_load a = Some path" using start_frames(3)[OF o(5)] by auto
  show "set (fl_history (sd_fill sd)) \<subseteq> set (remembered ev bk a y)" using f h by (auto split: option.splits)
  show "fl_find (sd_fill sd) = Some run \<Longrightarrow> sa_load a = None \<and> broker_find ev (opened ev (sa_state a) bk) (serve_fill_query a) = Inr run"
    using f by (auto split: option.splits)
  have st: "w_pool (start (pool_config_of a)) = spawned (pool_config_of a)" "w_out (start (pool_config_of a)) = {#}"
    "w_admitted (start (pool_config_of a)) = {#}" by (simp_all add: start_def)
  show "\<exists>ops w. pool_run (start (pool_config_of a)) ops w \<and> w_pool w = fl_pool (sd_fill sd) \<and> w_out w = {#}
      \<and> set_mset (w_admitted w) \<subseteq> p_addr ` set (remembered ev bk a y) \<union> listed_in ev (file_versions a y' [])"
  proof (cases "sa_load a")
    case None
    with f st show ?thesis by (intro exI[of _ "[]"] exI[of _ "start (pool_config_of a)"]) (simp add: run_nil)
  next
    case (Some path)
    with f obtain ps where ps: "load_ndjson ev path y1 = (Inr ps, y1)" "fl_pool (sd_fill sd) = from_proxies (union_dedup h ps) (pool_config_of a)" by auto
    then have "reload (ev_from_str ev) (sy_files y1 path) = Some ps"
      by (auto simp: load_ndjson_def read_file_def and_then_Inr reload_def split: option.splits)
    then have "p_addr ` set ps \<subseteq> listed_in ev (file_versions a y' [])" using Some files by (auto simp: listed_in_def file_versions_def)
    moreover have "set (union_dedup h ps) \<subseteq> set h \<union> set ps" by (auto simp: union_dedup_def)
    ultimately have k: "p_addr ` set (union_dedup h ps) \<subseteq> p_addr ` set (remembered ev bk a y) \<union> listed_in ev (file_versions a y' [])"
      unfolding h by blast
    obtain ops w where w: "pool_run (start (pool_config_of a)) ops w"
      "w_pool w = foldl (\<lambda>pl p. import_one p pl) (spawned (pool_config_of a)) (union_dedup h ps)" "w_out w = {#}"
      "set_mset (w_admitted w) \<subseteq> p_addr ` set (union_dedup h ps)"
      using import_all_run[of "start (pool_config_of a)" "union_dedup h ps"] st by auto
    from w(4) k have "set_mset (w_admitted w) \<subseteq> p_addr ` set (remembered ev bk a y) \<union> listed_in ev (file_versions a y' [])"
      by (rule order_trans)
    with run_snoc[OF w(1) at_end] w(2,3) show ?thesis
      by (intro exI[of _ "ops @ [OEnd]"] exI[of _ "w\<lparr>w_pool := import_end (w_pool w)\<rparr>"]) (simp add: ps(2) from_proxies_imported)
  qed
qed

text \<open>The addresses that the process may know after the steps \<open>acts\<close>.\<close>

definition sources :: "cmd_env \<Rightarrow> broker \<Rightarrow> serve_args \<Rightarrow> sys \<Rightarrow> sys \<Rightarrow> proc_act list \<Rightarrow> sock_addr set" where
  "sources ev bk a y y' acts = p_addr ` set (remembered ev bk a y)
     \<union> {ad. sa_load a = None \<and> (\<exists>q. p_addr q = ad \<and> as_asked (serve_fill_query a) (batches_of ev bk) q)}
     \<union> listed_in ev (file_versions a y' acts)"

lemma listed_mono: "listed_in ev (file_versions a y []) \<subseteq> listed_in ev (file_versions a y acts)"
  by (auto simp: listed_in_def file_versions_def split: option.splits)

text \<open>The account of the pool at any state that the server reaches.\<close>

lemma started_account:
  assumes "serve_cmd ev bk a y = (Inr sd, y')" "served_by (proc_env_of ev a w sd) (sd_serving sd) (sources ev bk a y y' acts) s"
  shows "\<exists>ops v. pool_run (start (pool_config_of a)) ops v \<and> w_pool v = sh_pool (sv_shared s) \<and> w_out v = leases s
    \<and> w_admitted v = held (sh_pool (sv_shared s)) + image_mset p_addr (leases s) + w_evicted v + w_removed v
    \<and> set_mset (w_admitted v) \<subseteq> sources ev bk a y y' acts"
proof -
  from serve_started(1)[OF assms(1)] obtain ops v where v: "pool_run (start (pool_config_of a)) ops v" "w_pool v = fl_pool (sd_fill sd)" "w_out v = {#}"
    "set_mset (w_admitted v) \<subseteq> p_addr ` set (remembered ev bk a y) \<union> listed_in ev (file_versions a y' [])" by blast
  from v(4) listed_mono[of ev a y' acts] have k: "set_mset (w_admitted v) \<subseteq> sources ev bk a y y' acts" unfolding sources_def by blast
  from serve_cmd_Inr[OF assms(1)] have "sd_serving sd = sv_init (fl_pool (sd_fill sd)) (sa_min_queue a)" .
  with assms(2) v(2) obtain sacts where r: "sv_run (sd_want sd) (sa_min_queue a) sacts (sv_init (w_pool v) (sa_min_queue a)) = Some s"
    "\<Union> (act_admits ` set sacts) \<subseteq> sources ev bk a y y' acts"
    by (auto simp: served_by_def proc_env_of_def)
  from serving_pool_run[OF v(1,3) r(1)] k r(2) show ?thesis by (meson Un_least order_trans)
qed

lemma pooled_admitted:
  assumes "w_admitted v = held pl + image_mset p_addr ls + w_evicted v + w_removed v"
  shows "addrs pl \<union> p_addr ` set_mset ls \<subseteq> set_mset (w_admitted v)"
  by (subst assms) (auto simp: addrs_def held_def)

lemma started_closed:
  assumes "serve_cmd ev bk a y = (Inr sd, y')" "f0 = the (map_option snd (fl_find (sd_fill sd)))"
  shows "addr_closed (proc_env_of ev a w sd) (sd_serving sd) f0 (sources ev bk a y y' acts)"
proof -
  let ?x = "proc_env_of ev a w sd" and ?K = "sources ev bk a y y' acts"
  have "addrs (sh_pool (sv_shared s)) \<subseteq> ?K" if "served_by ?x (sd_serving sd) ?K s" for s
    using started_account[OF assms(1) that] pooled_admitted by blast
  moreover have "p_addr ` set (cs_out f) \<subseteq> ?K" if "px_find ?x = Some e" "cs_run e facts f0 = Some f" for e facts f
  proof -
    from that(1) assms(2) have fl: "fl_find (sd_fill sd) = Some (e, f0)" by (auto simp: proc_env_of_def)
    note b = serve_started(4)[OF assms(1) fl]
    from find_as_asked[OF b[THEN conjunct2, unfolded broker_find_def] that(2)]
    have "list_all (as_asked (serve_fill_query a) (batches_of ev bk)) (cs_out f)" by simp
    with b show ?thesis by (auto simp: sources_def list_all_iff)
  qed
  moreover have "p_addr (snd (se_check env i q)) = p_addr q" if "px_recheck ?x = Some (env, c)" for env c i q
    using that check_keeps by (auto simp: proc_env_of_def recheck_env_def)
  ultimately show ?thesis unfolding addr_closed_def by blast
qed

lemma process_inv:
  assumes "serve_cmd ev bk a y = (Inr sd, y')" "proc_run (proc_env_of ev a w sd) acts (proc_init now sd y') = Some p"
  shows "proc_inv (proc_env_of ev a w sd) (sd_serving sd) (the (map_option snd (fl_find (sd_fill sd)))) (sources ev bk a y y' acts) p"
proof (rule inv_run[OF assms(2) _ started_closed[OF assms(1) refl]])
  let ?x = "proc_env_of ev a w sd" and ?K = "sources ev bk a y y' acts"
  have ok: "lists_only ?x ?K new" if "px_watch ?x = Some path" "new = sy_files y' path \<or> Edit path new \<in> set acts" for path new
  proof -
    from that(1) serve_started(3)[OF assms(1)] have "sa_load a = Some path" by (simp add: proc_env_of_def)
    with that(2) show ?thesis by (auto simp: lists_only_def sources_def listed_in_def file_versions_def proc_env_of_def)
  qed
  then show "\<forall>b \<in> set acts. edits_only ?x ?K b" by (auto simp: edits_only_def)
  have "p_addr ` set (fl_history (sd_fill sd)) \<subseteq> ?K" using serve_started(2)[OF assms(1)] by (auto simp: sources_def)
  moreover have "piped ?x (the (map_option snd (fl_find (sd_fill sd)))) (proc_init now sd y')"
    unfolding piped_def by (auto simp: proc_init_def proc_env_of_def Let_def intro: exI[of _ "[]"])
  moreover have "tracked (sched_init now (fl_pool (sd_fill sd))) = {}" by (simp add: sched_init_def tracked_def)
  ultimately show "proc_inv ?x (sd_serving sd) (the (map_option snd (fl_find (sd_fill sd)))) ?K (proc_init now sd y')"
    using ok served_by_refl by (simp add: proc_inv_def proc_init_def Let_def sched_inv_init)
qed


text \<open>Seen from the server, a run of the process is a run of the server; so no wake-up is lost in the process
  either.\<close>

lemma process_serving_run:
  assumes "serve_cmd ev bk a y = (Inr sd, y')" "proc_run (proc_env_of ev a w sd) acts (proc_init now sd y') = Some p"
  obtains sacts where "sv_run (sd_want sd) (sa_min_queue a) sacts (sv_init (fl_pool (sd_fill sd)) (sa_min_queue a)) = Some (pr_serving p)"
proof -
  from serve_cmd_Inr[OF assms(1)] have "sd_serving sd = sv_init (fl_pool (sd_fill sd)) (sa_min_queue a)" .
  with process_inv[OF assms] that show thesis by (auto simp: proc_inv_def served_by_def proc_env_of_def)
qed

theorem process_wakes:
  assumes "serve_cmd ev bk a y = (Inr sd, y')" "proc_run (proc_env_of ev a w sd) acts (proc_init now sd y') = Some p"
  shows "wake_inv (sa_min_queue a) (pr_serving p) \<and> sched_inv (pr_sched p)"
proof -
  from process_serving_run[OF assms] obtain sacts where
    "sv_run (sd_want sd) (sa_min_queue a) sacts (sv_init (fl_pool (sd_fill sd)) (sa_min_queue a)) = Some (pr_serving p)" .
  with wake_inv_run process_inv[OF assms] show ?thesis by (simp add: proc_inv_def)
qed

section \<open>What the process remembers\<close>

definition seen :: "process \<Rightarrow> proxy list" where
  "seen p = (case pr_find p of None \<Rightarrow> [] | Some f \<Rightarrow> cs_seen f)"

text \<open>The outcomes of the re-checker that have been handed to the store.\<close>

definition rechecked :: "proc_env \<Rightarrow> process \<Rightarrow> proxy list" where
  "rechecked x p = sc_stored (pr_sched p) @
     (case px_recheck x of
        Some (env, _) \<Rightarrow> (if pr_upserted p then map snd (case probed env (pr_sched p) of None \<Rightarrow> [] | Some r \<Rightarrow> [r]) else [])
      | None \<Rightarrow> [])"

text \<open>The proxies that a run hands to the store, in this order.\<close>

definition written :: "proc_env \<Rightarrow> process \<Rightarrow> process \<Rightarrow> proxy list" where
  "written x p p' = drop (length (seen p)) (seen p') @ drop (length (rechecked x p)) (rechecked x p')"

fun writes :: "proc_env \<Rightarrow> proc_act list \<Rightarrow> process \<Rightarrow> proxy list" where
  "writes x [] p = []"
| "writes x (a # as) p = (case proc_exec x a p of None \<Rightarrow> [] | Some p' \<Rightarrow> written x p p' @ writes x as p')"

lemma cs_seen_exec:
  assumes "cs_exec e a f = Some f'"
  shows "prefix (cs_seen f) (cs_seen f') \<and> (a = Recv \<longrightarrow> cs_seen f' = cs_seen f)"
proof (cases a)
  case (Task k)
  with assms have "cs_exec e (Task k) f = Some f'" by simp
  then obtain ts s where "task_next e (cs_tasks f ! k) f = Some (ts, s)" "cs_seen f' = cs_seen s" by (rule exec_Task) simp
  with Task show ?thesis by (cases "cs_tasks f ! k") (auto split: if_splits prod.splits)
qed (use assms in \<open>auto split: if_splits list.splits phase.splits task.splits\<close>)

lemma sched_stored_exec:
  assumes "sched_exec env a s = Some s'" "\<nexists>now rnd. a = sched_act.Finish now rnd"
  shows "sc_stored s' = sc_stored s"
proof (cases a)
  case (Enroll now as rnd)
  have "enroll cfg now rnd as s = Some s' \<Longrightarrow> sc_stored s' = sc_stored s" for cfg
  proof (induction cfg now rnd as s rule: enroll.induct)
    case (2 cfg now rnd b bs s)
    then obtain t where "enroll_one cfg now rnd b s = Some t" "enroll cfg now rnd bs t = Some s'" by (auto split: option.splits)
    with 2(1)[of t] show ?case by (auto elim!: enroll_one_cases)
  qed simp
  with assms(1) Enroll show ?thesis by (auto split: if_splits)
next
  case (Start now k)
  with assms(1) have "Scheduler.start (se_cfg env) now k s = Some s'" by simp
  then show ?thesis by (cases rule: start_cases) (simp_all add: forget_def)
qed (use assms in auto)

lemma sched_stored_finish:
  assumes "finish env now rnd s = Some s'" "probed env s = Some (w, q)"
  shows "sc_stored s' = sc_stored s @ [q]"
  using assms(1) by (rule finish_cases) (use assms(2) in \<open>auto simp: probed_def settle_def Let_def forget_def\<close>)

text \<open>A step hands to the store what its task has checked, and nothing else changes the databases.\<close>

definition logged :: "proc_env \<Rightarrow> store_choice \<Rightarrow> process \<Rightarrow> process \<Rightarrow> bool" where
  "logged x c p p' \<longleftrightarrow> prefix (seen p) (seen p') \<and> prefix (rechecked x p) (rechecked x p') \<and> pr_upserts p' = pr_upserts p + length (written x p p')
     \<and> same_dbs (observe_from (px_cmd x) c (pr_upserts p) (written x p p') (pr_sys p)) (pr_sys p')"

definition one_store :: "proc_env \<Rightarrow> store_choice \<Rightarrow> bool" where
  "one_store x c \<longleftrightarrow> px_observer x = Some c \<and> (\<forall>env c'. px_recheck x = Some (env, c') \<longrightarrow> c' = c)"

lemma logged_quiet:
  "seen p' = seen p \<Longrightarrow> rechecked x p' = rechecked x p \<Longrightarrow> pr_upserts p' = pr_upserts p \<Longrightarrow> same_dbs (pr_sys p) (pr_sys p') \<Longrightarrow> logged x c p p'"
  by (simp add: logged_def written_def)

lemma rechecked_plain: "\<not> pr_upserted p \<Longrightarrow> rechecked x p = sc_stored (pr_sched p)"
  by (simp add: rechecked_def split: option.split)

lemma rechecked_frame: "pr_sched p' = pr_sched p \<Longrightarrow> pr_upserted p' = pr_upserted p \<Longrightarrow> rechecked x p' = rechecked x p"
  unfolding rechecked_def by presburger

lemma logged_frame:
  assumes "seen p' = seen p" "pr_sched p' = pr_sched p" "pr_upserted p' = pr_upserted p" "pr_upserts p' = pr_upserts p" "same_dbs (pr_sys p) (pr_sys p')"
  shows "logged x c p p'"
  using assms by (intro logged_quiet rechecked_frame)

lemma same_dbs_refl [simp]: "same_dbs y y"
  by (simp add: same_dbs_def)

lemma logged_serve: "serve_act x b p = Some p' \<Longrightarrow> logged x c p p'"
  by (elim serve_actE) (auto intro!: logged_frame simp: seen_def)

lemma logged_search:
  assumes "search_step x a p = Some p'" "one_store x c"
  shows "logged x c p p'"
proof -
  from assms(1) obtain e f f' where f: "pr_find p = Some f" "cs_exec e a f = Some f'"
    "p' = record_checks x (px_observer x) (drop (length (cs_seen f)) (cs_seen f')) (p\<lparr>pr_find := Some f'\<rparr>)"
    by (auto simp: search_step_def simp del: cs_exec.simps split: option.splits if_splits)
  then have "rechecked x p' = rechecked x p" by (intro rechecked_frame) simp_all
  with cs_seen_exec[OF f(2)] f assms(2) show ?thesis
    by (simp add: logged_def written_def seen_def one_store_def record_checks_def)
qed

lemma logged_read:
  assumes "read_next x p = Some p'"
  shows "logged x c p p'"
proof (cases "pr_left p")
  case (Cons q qs)
  with assms have "serve_act x (Import q) (p\<lparr>pr_left := qs\<rparr>) = Some p'" by (simp add: read_next_def)
  then show ?thesis by (elim serve_actE) (auto intro!: logged_frame simp: seen_def)
next
  case Nil
  with assms obtain e f f' where f: "pr_find p = Some f" "cs_exec e Recv f = Some f'"
    "serve_act x (Import (cs_out f ! cs_got f)) (p\<lparr>pr_find := Some f'\<rparr>) = Some p'"
    by (auto simp: read_next_def simp del: cs_exec.simps split: option.splits)
  from f(3) cs_seen_exec[OF f(2)] f(1) show ?thesis by (elim serve_actE) (auto intro!: logged_frame simp: seen_def)
qed

lemma logged_recheck:
  assumes "recheck_step x a p = Some p'"
  shows "logged x c p p'"
  using assms
proof (cases rule: recheck_stepE)
  case (1 env d s)
  from sched_stored_exec[OF 1(2,3)] 1(1,4,5) show ?thesis by (intro logged_quiet) (simp_all add: seen_def rechecked_def)
next
  case (2 env d s b t now rnd)
  from 2(4) obtain w q where q: "probed env (pr_sched p) = Some (w, q)" by (auto simp: recheck_effect_def split: option.splits)
  with sched_stored_finish[of env now rnd "(pr_sched p)\<lparr>sc_pool := pool_of p\<rparr>" s] 2(2,3) have "sc_stored s = sc_stored (pr_sched p) @ [q]" by simp
  with 2(1,5,7) q show ?thesis by (intro logged_quiet) (simp_all add: seen_def rechecked_def)
qed

lemma logged_upsert:
  assumes "upsert_step x p = Some p'" "one_store x c"
  shows "logged x c p p'"
  using assms(1)
proof (rule upsert_stepE)
  fix env d w q
  assume u: "px_recheck x = Some (env, d)" "probed env (pr_sched p) = Some (w, q)" "\<not> pr_upserted p"
    "p' = record_checks x (Some d) [q] (p\<lparr>pr_upserted := True\<rparr>)"
  moreover have "d = c" using assms(2) u(1) by (simp add: one_store_def)
  ultimately show ?thesis by (simp add: logged_def written_def seen_def rechecked_def record_checks_def)
qed

lemma logged_poll:
  assumes "poll_step x now evs p = Some p' \<or> read_pool current p = Some p'"
  shows "logged x c p p'"
  using assms by (auto simp: poll_step_def read_pool_def Let_def seen_def intro!: logged_frame split: option.splits if_splits)

lemma logged_exec:
  assumes "proc_exec x a p = Some p'" "one_store x c"
  shows "logged x c p p'"
proof (cases a)
  case (Search b)
  with assms show ?thesis by (intro logged_search[of x b]) simp_all
next
  case ReadNext
  with assms show ?thesis by (intro logged_read) simp
next
  case ReadEnd
  with assms show ?thesis by (intro logged_serve[of x ImportEnd]) (auto simp: read_end_def split: option.splits if_splits)
next
  case (Clients b)
  with assms show ?thesis by (intro logged_serve[of x b]) (auto split: if_splits)
next
  case (Recheck b)
  with assms show ?thesis by (intro logged_recheck[of x b]) simp_all
next
  case Upsert
  with assms show ?thesis by (intro logged_upsert) simp_all
next
  case (Poll now evs)
  with assms show ?thesis by (intro logged_poll[of x now evs]) simp
next
  case (ReadPool current)
  with assms show ?thesis by (intro logged_poll[of _ _ _ _ _ current]) simp
next
  case ReconcileNext
  with assms obtain b bs where "serve_act x b (p\<lparr>pr_todo := bs\<rparr>) = Some p'" by (auto simp: reconcile_next_def split: list.splits)
  then show ?thesis by (elim serve_actE) (auto intro!: logged_frame simp: seen_def)
next
  case (Scrape m)
  with assms obtain ms where "p' = p\<lparr>pr_metrics := ms\<rparr>" by (auto simp: scrape_step_def split: metrics_act.splits if_splits)
  then show ?thesis by (intro logged_frame) (simp_all add: seen_def)
next
  case (Edit path new)
  with assms have "p' = p\<lparr>pr_sys := (pr_sys p)\<lparr>sy_files := (sy_files (pr_sys p))(path := new)\<rparr>\<rparr>" by simp
  then show ?thesis by (intro logged_frame) (simp_all add: seen_def same_dbs_def)
next
  case Interrupt
  with assms obtain y where "serve_act x Shutdown (p\<lparr>pr_sys := y\<rparr>) = Some p'" "same_dbs (pr_sys p) y"
    by (auto simp: serve_stop_def cmd_simps same_dbs_def split: if_splits)
  then show ?thesis by (elim serve_actE) (auto intro!: logged_frame simp: seen_def)
qed

lemma observe_same_dbs: "same_dbs y z \<Longrightarrow> same_dbs (observe ev c i p y) (observe ev c i p z)"
  by (auto simp: observe_def same_dbs_def split: store_choice.split option.split)

lemma observe_from_same_dbs: "same_dbs y z \<Longrightarrow> same_dbs (observe_from ev c i ps y) (observe_from ev c i ps z)"
  by (induction ps arbitrary: i y z) (simp_all add: observe_same_dbs)

lemma observe_from_append: "observe_from ev c i (ps @ qs) y = observe_from ev c (i + length ps) qs (observe_from ev c i ps y)"
  by (induction ps arbitrary: i y) simp_all

lemma append_in_shuffles:
  assumes "zs \<in> shuffles xs ys"
  shows "us @ vs @ zs \<in> shuffles (us @ xs) (vs @ ys)"
proof -
  have "vs @ zs \<in> shuffles xs (vs @ ys)" using assms by (induction vs) (auto intro: Cons_in_shuffles_rightI)
  then show ?thesis by (induction us) (auto intro: Cons_in_shuffles_leftI)
qed

lemma prefix_drop_drop: "prefix xs ys \<Longrightarrow> prefix ys zs \<Longrightarrow> drop (length xs) zs = drop (length xs) ys @ drop (length ys) zs"
  by (auto simp: prefix_def)

lemma run_writes:
  assumes "proc_run x acts p = Some p'" "one_store x c"
  shows "same_dbs (observe_from (px_cmd x) c (pr_upserts p) (writes x acts p) (pr_sys p)) (pr_sys p')
    \<and> prefix (seen p) (seen p') \<and> prefix (rechecked x p) (rechecked x p')
    \<and> writes x acts p \<in> shuffles (drop (length (seen p)) (seen p')) (drop (length (rechecked x p)) (rechecked x p'))"
  using assms(1)
proof (induction acts arbitrary: p)
  case (Cons a acts)
  then obtain q where q: "proc_exec x a p = Some q" "proc_run x acts q = Some p'" by (auto simp del: proc_exec.simps split: option.splits)
  note l = logged_exec[OF q(1) assms(2), unfolded logged_def]
  note ih = Cons.IH[OF q(2)]
  have w: "writes x (a # acts) p = written x p q @ writes x acts q" using q(1) by (simp del: proc_exec.simps)
  have "same_dbs (observe_from (px_cmd x) c (pr_upserts q) (writes x acts q) (observe_from (px_cmd x) c (pr_upserts p) (written x p q) (pr_sys p)))
      (observe_from (px_cmd x) c (pr_upserts q) (writes x acts q) (pr_sys q))"
    using l by (intro observe_from_same_dbs) blast
  then have "same_dbs (observe_from (px_cmd x) c (pr_upserts p) (writes x (a # acts) p) (pr_sys p)) (pr_sys p')"
    using ih l unfolding w observe_from_append by (metis same_dbs_trans)
  moreover have "prefix (seen p) (seen p')" "prefix (rechecked x p) (rechecked x p')" using l ih prefix_order.order_trans by blast+
  moreover have "writes x (a # acts) p \<in> shuffles (drop (length (seen p)) (seen p')) (drop (length (rechecked x p)) (rechecked x p'))"
  proof -
    have d: "drop (length (seen p)) (seen p') = drop (length (seen p)) (seen q) @ drop (length (seen q)) (seen p')"
      "drop (length (rechecked x p)) (rechecked x p') = drop (length (rechecked x p)) (rechecked x q) @ drop (length (rechecked x q)) (rechecked x p')"
      using l ih by (simp_all add: prefix_drop_drop)
    show ?thesis unfolding w written_def d append_assoc using ih by (intro append_in_shuffles) blast
  qed
  ultimately show ?case by blast
qed simp

text \<open>The re-checker opens the store that the observer writes to.\<close>

lemma recheck_same_store:
  assumes "start_recheck ev a y = (Inr r, y')" "store_of ev (sa_state a) = Some c"
  shows "(\<forall>ck c' cfg. r = Some (ck, c', cfg) \<longrightarrow> c' = c) \<and> (same_dbs y y' \<or> (\<exists>z. open_store ev c y = (Inr (), z) \<and> same_dbs z y'))"
proof (cases r)
  case None
  with assms(1) show ?thesis by (auto simp: start_recheck_def recheck_store_cmd_def and_then_Inr same_dbs_def split: if_splits)
next
  case (Some t)
  obtain ck c' cfg where t: "t = (ck, c', cfg)" by (cases t) auto
  from assms(2) have "recheck_store (bd_stores (ev_build ev)) (sa_state a) = Inr c"
    by (auto simp: store_of_def recheck_store_def has_backend_def ok_of_def split: if_splits Option.bind_splits sum.splits)
  with assms(1) Some t show ?thesis
    by (cases c) (auto simp: start_recheck_def recheck_store_cmd_def and_then_Inr same_dbs_def split: if_splits)
qed

lemma reopened:
  assumes "open_store ev c y = (Inr u, z)" "store_ok c y"
  shows "store_ok c z" "store_recall ev c z = store_recall ev c y"
proof -
  have "redis_ok (d\<lparr>rd_schema := v\<rparr>) = redis_ok d" "redis_recall f (d\<lparr>rd_schema := v\<rparr>) = redis_recall f d" for d v f
    by (simp_all add: redis_ok_def redis_recall_def fun_eq_iff)
  then show "store_ok c z" "store_recall ev c z = store_recall ev c y"
    using assms by (auto simp: open_store_def store_ok_def store_recall_def redis_open_def migrate_def
        split: store_choice.splits option.splits prod.splits sum.splits if_splits)
qed

lemma same_dbs_recall: "same_dbs y y' \<Longrightarrow> store_recall ev c y' = store_recall ev c y"
  by (simp add: same_dbs_def store_recall_def split: store_choice.split)

lemma started_store:
  assumes "serve_cmd ev bk a y = (Inr sd, y')" "store_of ev (sa_state a) = Some c" "open_store ev c y = (Inr (), y1)" "store_ok c y1"
  shows "one_store (proc_env_of ev a w sd) c" "store_ok c y'" "schema_ok c y'" "store_recall ev c y' = store_recall ev c y1"
proof -
  from serve_cmd_stages[OF assms(1)] obtain h z1 y2 y3 y4 y5 where o: "open_state_cmd ev bk (sa_state a) y = (Inr (opened ev (sa_state a) bk, h), z1)"
    "serve_fill ev (opened ev (sa_state a) bk) a h z1 = (Inr (sd_fill sd), y2)" "start_metrics ev (sa_metrics a) y2 = (Inr (sd_metrics sd), y3)"
    "start_recheck ev a y3 = (Inr (sd_recheck sd), y4)" "start_watch ev a y4 = (Inr (sd_watch sd), y5)" "same_dbs y5 y'"
    "sd_observer sd = bk_on_checked (opened ev (sa_state a) bk)" .
  have "z1 = y1" using open_state_Inr(5)[OF o(1) assms(2)] assms(3) by simp
  then have s3: "same_dbs y1 y3" and s5: "same_dbs y4 y'"
    using start_frames(1)[OF o(2)] start_frames(2)[OF o(3)] start_frames(3)[OF o(5)] o(6) same_dbs_trans by blast+
  note r = recheck_same_store[OF o(4) assms(2)]
  show "one_store (proc_env_of ev a w sd) c"
    using r o(7) assms(2) by (auto simp: one_store_def proc_env_of_def opened_def with_observer_def)
  have ok3: "store_ok c y3" "schema_ok c y3" "store_recall ev c y3 = store_recall ev c y1"
    using same_dbs_store[OF s3] same_dbs_recall[OF s3] assms(4) open_store_schema[OF assms(3)] by simp_all
  have "store_ok c y4 \<and> schema_ok c y4 \<and> store_recall ev c y4 = store_recall ev c y1"
    using r[THEN conjunct2]
  proof
    assume "same_dbs y3 y4"
    with ok3 same_dbs_store same_dbs_recall show ?thesis by metis
  next
    assume "\<exists>z. open_store ev c y3 = (Inr (), z) \<and> same_dbs z y4"
    then obtain z where z: "open_store ev c y3 = (Inr (), z)" "same_dbs z y4" by blast
    with reopened[OF z(1) ok3(1)] ok3(3) open_store_schema[OF z(1)] show ?thesis using same_dbs_store same_dbs_recall by metis
  qed
  with same_dbs_store[OF s5] same_dbs_recall[OF s5] show "store_ok c y'" "schema_ok c y'" "store_recall ev c y' = store_recall ev c y1"
    by simp_all
qed

lemma started_unseen:
  assumes "serve_cmd ev bk a y = (Inr sd, y')"
  shows "seen (proc_init now sd y') = []"
proof (cases "fl_find (sd_fill sd)")
  case (Some run)
  from serve_started(4)[OF assms Some] have "cs_seen (snd run) = []"
    by (auto simp: broker_find_def find_run_def cs_init_def split: if_splits sum.splits)
  with Some show ?thesis by (simp add: seen_def proc_init_def Let_def)
qed (simp add: seen_def proc_init_def Let_def)

text \<open>C11. What the process has checked is what the next command with the same \<open>--state\<close> starts from. The store has
  been handed the checks of the pipeline and those of the re-checker, each of the two in its order and
  nothing else; opening it again after any number of steps, by whatever command, gives one proxy for each
  address that it knew before or that was checked, with the history of all its checks folded in the order
  of the writes. This holds of both durable stores, as long as the engine refuses nothing and the counters
  stay within 32 bits.\<close>

theorem process_remembers:
  assumes "serve_cmd ev bk a y = (Inr sd, y')" "x = proc_env_of ev a w sd" "proc_run x acts (proc_init now sd y') = Some p"
    "store_of ev (sa_state a) = Some c" "open_store ev c y = (Inr (), y1)" "store_ok c y1" "\<forall>i j. ev_engine ev i j = None"
    "fit_all (text_fit (ev_to_string ev) (ev_from_str ev)) (timed ev 0 (writes x acts (proc_init now sd y'))) (store_recall ev c y1)"
  shows "writes x acts (proc_init now sd y') \<in> shuffles (seen p) (rechecked x p)
    \<and> (\<exists>h y2. open_state_cmd ev bk' (sa_state a) (pr_sys p) = (Inr (opened ev (sa_state a) bk', h), y2) \<and> distinct (map p_addr h)
        \<and> set h = {agg_proxy ad g | ad g. recall_all (timed ev 0 (writes x acts (proc_init now sd y'))) (store_recall ev c y1) ad = Some g})"
proof
  let ?p0 = "proc_init now sd y'" and ?ws = "writes x acts (proc_init now sd y')"
  note st = started_store[OF assms(1,4-6)]
  note r = run_writes[OF assms(3) st(1)[of w, folded assms(2)]]
  have p0: "pr_upserts ?p0 = 0" "pr_sys ?p0 = y'" "rechecked x ?p0 = []" "seen ?p0 = []"
    using started_unseen[OF assms(1)] by (simp_all add: rechecked_plain proc_init_def Let_def sched_init_def)
  show "?ws \<in> shuffles (seen p) (rechecked x p)" using r p0(3,4) by simp
  have "px_cmd x = ev" by (simp add: assms(2) proc_env_of_def)
  then have dbs: "same_dbs (state.upsert_all ev c (timed ev 0 ?ws) y') (pr_sys p)"
    using r observe_from_puts[of ev c 0 ?ws y'] assms(7) by (simp add: p0)
  have u: "store_ok c (state.upsert_all ev c (timed ev 0 ?ws) y')"
    "store_recall ev c (state.upsert_all ev c (timed ev 0 ?ws) y') = recall_all (timed ev 0 ?ws) (store_recall ev c y1)"
    using state.upsert_all_recall[OF st(2), of ev "timed ev 0 ?ws"] assms(8) st(4) by simp_all
  have "schema_ok c (state.upsert_all ev c (timed ev 0 ?ws) y')" using st(3) by (simp add: schema_upsert_all)
  then obtain y2 where y2: "open_store ev c (pr_sys p) = (Inr (), y2)" "store_ok c y2"
      "store_list ev c y2 = store_list ev c (state.upsert_all ev c (timed ev 0 ?ws) y')"
    using open_again[OF assms(5), of "pr_sys p"] u(1) same_dbs_store[OF dbs] by metis
  from open_state_listed[OF assms(4) y2(1,2)]
  show "\<exists>h y2. open_state_cmd ev bk' (sa_state a) (pr_sys p) = (Inr (opened ev (sa_state a) bk', h), y2) \<and> distinct (map p_addr h)
      \<and> set h = {agg_proxy ad g | ad g. recall_all (timed ev 0 ?ws) (store_recall ev c y1) ad = Some g}"
    using state.load_set[OF u(1), of ev] state.load_distinct[OF u(1), of ev] y2(3) u(2) by auto
qed

section \<open>A reload in steps\<close>

fun act_pool :: "sv_act \<Rightarrow> pool \<Rightarrow> pool" where
  "act_pool (Add q) pl = pool_add q pl"
| "act_pool (Remove ad) pl = snd (pool_remove ad pl)"
| "act_pool _ pl = pl"

lemma reconcile_step:
  assumes "pr_todo p = b # bs" "b \<in> range Add \<union> range Remove"
  obtains p' where "reconcile_next x p = Some p'" "pool_of p' = act_pool b (pool_of p)" "pr_todo p' = bs"
  using assms by (auto simp: reconcile_next_def serve_act_def Let_def pool_of_def set_pool_def notify_all_def split: if_splits)

lemma reconcile_steps:
  assumes "set (pr_todo p) \<subseteq> range Add \<union> range Remove"
  shows "\<exists>p'. proc_run x (replicate (length (pr_todo p)) ReconcileNext) p = Some p'
    \<and> pool_of p' = foldl (\<lambda>pl b. act_pool b pl) (pool_of p) (pr_todo p) \<and> pr_todo p' = []"
  using assms
proof (induction "pr_todo p" arbitrary: p)
  case (Cons b bs)
  then have "b \<in> range Add \<union> range Remove" by (metis list.set_intros(1) subsetD)
  with Cons(2) obtain q where q: "reconcile_next x p = Some q" "pool_of q = act_pool b (pool_of p)" "pr_todo q = bs"
    by (metis reconcile_step)
  with Cons(1)[of q] Cons(2,3) show ?case by (auto simp flip: Cons(2))
qed simp

lemma foldl_entries_only:
  assumes "\<And>pl a. \<exists>es. f pl a = pl\<lparr>entries := es\<rparr>"
  shows "\<exists>es. foldl f pl as = (pl :: pool)\<lparr>entries := es\<rparr>"
proof (induction as arbitrary: pl)
  case Nil
  show ?case by (rule exI[of _ "entries pl"]) simp
next
  case (Cons a as)
  obtain e1 where "f pl a = pl\<lparr>entries := e1\<rparr>" using assms by blast
  with Cons[of "f pl a"] show ?case by auto
qed

lemma foldl_entries:
  "foldl (\<lambda>pl a. snd (pool_remove a pl)) pl as = pl\<lparr>entries := filter (\<lambda>e. p_addr (pl_proxy e) \<notin> set as) (entries pl)\<rparr>"
  "foldl (\<lambda>pl q. pool_add q pl) pl qs = pl\<lparr>entries := entries pl @ map ready_entry (firsts (addrs pl) qs)\<rparr>"
proof -
  have "\<exists>es. foldl (\<lambda>pl a. snd (pool_remove a pl)) pl as = pl\<lparr>entries := es\<rparr>"
    by (rule foldl_entries_only) (auto simp: pool_remove_def Let_def)
  then obtain es where "foldl (\<lambda>pl a. snd (pool_remove a pl)) pl as = pl\<lparr>entries := es\<rparr>" by blast
  with entries_remove_all[of pl as] show "foldl (\<lambda>pl a. snd (pool_remove a pl)) pl as = pl\<lparr>entries := filter (\<lambda>e. p_addr (pl_proxy e) \<notin> set as) (entries pl)\<rparr>"
    by simp
  have "\<exists>es. foldl (\<lambda>pl q. pool_add q pl) pl qs = pl\<lparr>entries := es\<rparr>"
  proof (rule foldl_entries_only)
    show "\<exists>es. pool_add q pl = pl\<lparr>entries := es\<rparr>" for q pl
      by (rule exI[of _ "entries (pool_add q pl)"]) (simp add: pool_add_def)
  qed
  then obtain es where "foldl (\<lambda>pl q. pool_add q pl) pl qs = pl\<lparr>entries := es\<rparr>" by blast
  with entries_add_all[of pl qs] show "foldl (\<lambda>pl q. pool_add q pl) pl qs = pl\<lparr>entries := entries pl @ map ready_entry (firsts (addrs pl) qs)\<rparr>"
    by simp
qed

lemma foldl_acts: "foldl (\<lambda>pl b. act_pool b pl) pl (reconcile_acts desired current)
    = foldl (\<lambda>pl q. pool_add q pl) (foldl (\<lambda>pl a. snd (pool_remove a pl)) pl (filter (\<lambda>a. a \<notin> p_addr ` set desired) current))
        (filter (\<lambda>q. p_addr q \<notin> set current) desired)"
  by (simp add: reconcile_acts_def foldl_map)

text \<open>The order in which the watcher has read the addresses does not matter.\<close>

lemma reconcile_any_order:
  assumes "set current = addrs pl"
  shows "foldl (\<lambda>pl b. act_pool b pl) pl (reconcile_acts desired current) = reconcile desired pl"
proof -
  let ?cur = "remdups (map p_addr (pool_proxies pl))"
  have "set ?cur = addrs pl" by (simp add: addrs_eq)
  then have "foldl (\<lambda>pl b. act_pool b pl) pl (reconcile_acts desired current) = foldl (\<lambda>pl b. act_pool b pl) pl (reconcile_acts desired ?cur)"
    unfolding foldl_acts foldl_entries using assms by simp
  then show ?thesis by (simp add: foldl_acts reconcile_def Let_def)
qed

text \<open>C31. A reload that is not interrupted. When the debounce is over and the file reads, the pass of the watcher
  and then one step for each address that it removes or adds lead, in whatever order it has read the
  addresses of the pool, to the pool that the atomic reconciliation gives: exactly the addresses of the
  file. A file that cannot be read or parsed leaves the pool as it is, and nothing is left to do.\<close>

theorem reload_steps:
  assumes "px_watch x = Some path" "pr_loaded p = None" "pr_todo p = []" "set current = addrs (pool_of p)" "distinct current"
    "pr_pending p = Some since" "\<not> touches (file_name path) evs" "debounce \<le> now - since"
  shows "case reload (ev_from_str (px_cmd x)) (sy_files (pr_sys p) path) of
      None \<Rightarrow> \<exists>p'. proc_exec x (Poll now evs) p = Some p' \<and> pool_of p' = pool_of p \<and> pr_loaded p' = None \<and> pr_todo p' = [] \<and> pr_pending p' = None
    | Some desired \<Rightarrow>
        \<exists>p'. proc_run x ([Poll now evs, ReadPool current] @ replicate (length (reconcile_acts desired current)) ReconcileNext) p = Some p'
          \<and> pool_of p' = reconcile desired (pool_of p) \<and> addrs (pool_of p') = p_addr ` set desired \<and> pr_todo p' = []"
proof (cases "reload (ev_from_str (px_cmd x)) (sy_files (pr_sys p) path)")
  case None
  with assms show ?thesis by (simp add: poll_step_def pool_of_def)
next
  case (Some desired)
  let ?q = "p\<lparr>pr_pending := None, pr_loaded := None, pr_todo := reconcile_acts desired current\<rparr>"
  have pool: "pool_of ?q = pool_of p" by (simp add: pool_of_def)
  have q: "proc_run x [Poll now evs, ReadPool current] p = Some ?q" using assms Some by (simp add: poll_step_def read_pool_def pool_of_def)
  have "set (pr_todo ?q) \<subseteq> range Add \<union> range Remove" by (auto simp: reconcile_acts_def)
  from reconcile_steps[OF this, of x] obtain p' where "proc_run x (replicate (length (reconcile_acts desired current)) ReconcileNext) ?q = Some p'"
    "pool_of p' = foldl (\<lambda>pl b. act_pool b pl) (pool_of p) (reconcile_acts desired current)" "pr_todo p' = []"
    unfolding pool by auto
  with reconcile_any_order[OF assms(4)] q reconcile_addrs Some show ?thesis
    unfolding proc_run_append by (simp del: proc_exec.simps proc_run.simps)
qed

section \<open>A sample process\<close>

text \<open>An empty file under \<open>--load\<close> with \<open>--watch\<close>, \<open>--recheck\<close>, \<open>--state\<close> and a block list that lists everything.\<close>

definition sample_live_value :: "string \<Rightarrow> json option" where
  "sample_live_value s = (if s = ''[]'' then Some (JArr []) else sample_value s)"

definition sample_live_ev :: cmd_env where
  "sample_live_ev = sample_judged\<lparr>ev_build := (ev_build sample_ev)\<lparr>bd_watch := True\<rparr>, ev_from_str := sample_live_value\<rparr>"

definition sample_live :: serve_args where
  "sample_live = sample_finding\<lparr>sa_load := Some ''g'', sa_watch := True, sa_recheck := True, sa_state := Some ''s.db'', sa_dnsbl := [''z'']\<rparr>"

definition sample_live_sys :: sys where
  "sample_live_sys = sample_sys\<lparr>sy_files := [''g'' \<mapsto> []]\<rparr>"

text \<open>The file is written, the watcher reloads it, and the re-checker schedules what it has found; then a
  re-check finds it on the block list and drops it.\<close>

definition sample_live_acts :: "proc_act list" where
  "sample_live_acts = [Edit ''g'' (Some (write_ndjson sample_text [sample_checked])), Poll 0 [Inr [Some ''g'']], Poll 250000000 [], ReadPool [],
     ReconcileNext, Recheck (Enroll 300000000 [p_addr sample_checked] (\<lambda>_. 0))]"

definition sample_drop_acts :: "proc_act list" where
  "sample_drop_acts = [Recheck (Start 60300000000 0), Upsert, Recheck (sched_act.Finish 60400000000 0)]"

lemma sample_live_simps [simp]:
  "sa_host sample_live = show_sock_addr (V4 127 0 0 1, 8888)" "sa_load sample_live = Some ''g''" "sa_state sample_live = Some ''s.db''" "sa_metrics sample_live = None"
  "sa_watch sample_live" "sa_recheck sample_live" "sa_min_queue sample_live = 0" "sa_recheck_min sample_live = 60" "sa_countries sample_live = []"
  "sa_recheck_max sample_live = 3600" "sa_recheck_rate sample_live = 5" "sa_auth sample_live = Some ''u:pw''"
  by (simp_all add: sample_live_def sample_finding_def sample_serve_def)

lemma sample_live_ev_simps [simp]:
  "ev_from_str sample_live_ev = sample_live_value" "\<not> bd_metrics (ev_build sample_live_ev)" "bd_watch (ev_build sample_live_ev)"
  "bd_persist (ev_build sample_live_ev)" "has_backend sample_live_ev" "ev_connect sample_live_ev f = None" "ev_to_string sample_live_ev = sample_text"
  "bd_stores (ev_build sample_live_ev) = \<lparr>ft_sqlite = True, ft_redis = False\<rparr>" "ev_watch_init sample_live_ev f = None" "ev_socket sample_live_ev = (\<lambda>_. None)"
  "ev_dns_init sample_live_ev = None" "ev_dns_build sample_live_ev = None" "ev_world sample_live_ev = Broker.sample_world\<lparr>w_probe := Some\<rparr>"
  "ev_engine sample_live_ev i j = None"
  by (simp_all add: sample_live_ev_def sample_judged_def sample_ev_def has_backend_def)

lemma sample_live_store: "select_store \<lparr>ft_sqlite = True, ft_redis = False\<rparr> ''s.db'' = Inr (UseSqlite ''s.db'')"
  "store_of sample_live_ev (Some ''s.db'') = Some (UseSqlite ''s.db'')"
  by (simp_all add: store_of_def select_store_def starts_with_def ok_of_def)

definition sample_live_dbs :: sys where
  "sample_live_dbs = sample_live_sys\<lparr>sy_sqlite := (sy_sqlite sample_live_sys)(''s.db'' := \<lparr>db_version = 1, db_table = Some []\<rparr>)\<rparr>"

lemma sample_live_opened: "open_store sample_live_ev (UseSqlite ''s.db'') sample_live_sys = (Inr (), sample_live_dbs)"
  "sy_sqlite sample_live_dbs ''s.db'' = \<lparr>db_version = 1, db_table = Some []\<rparr>"
  by (simp_all add: open_store_def sample_live_dbs_def sample_live_sys_def sample_sys_def migrate_def)

lemma sample_live_reopened:
  "sy_sqlite y ''s.db'' = \<lparr>db_version = 1, db_table = Some []\<rparr> \<Longrightarrow> open_store sample_live_ev (UseSqlite ''s.db'') y = (Inr (), y)"
  by (simp add: open_store_def migrate_def fun_upd_idem)

lemma sample_live_starts:
  "\<exists>sd y' ck. serve_cmd sample_live_ev sample_bk sample_live sample_live_sys = (Inr sd, y')
    \<and> sd_fill sd = \<lparr>fl_pool = from_proxies [] (pool_config_of sample_live), fl_history = [], fl_find = None\<rparr>
    \<and> sd_serving sd = sv_init (from_proxies [] (pool_config_of sample_live)) 0 \<and> sd_watch sd = Some ''g''
    \<and> sd_recheck sd = Some (ck, UseSqlite ''s.db'', recheck_config_of sample_live) \<and> ck_dnsbl ck = [''z'']"
proof -
  have "\<exists>ck. build_checker (Broker.sample_world\<lparr>w_probe := Some\<rparr>) (serve_query sample_live) = Inr ck \<and> ck_dnsbl ck = [''z'']"
    by (simp add: build_checker_def Broker.sample_world_def serve_query_def builder_sets sample_live_def sample_finding_def sample_serve_def
      checker_new_def checker_config_of_def default_judges_def probe_all_def jp_empty_def map_filter_simps judge_parse_def types_from_def)
  then obtain ck where "build_checker (Broker.sample_world\<lparr>w_probe := Some\<rparr>) (serve_query sample_live) = Inr ck" "ck_dnsbl ck = [''z'']" by blast
  moreover have "read_ndjson sample_live_value [] = Some []" by (simp add: read_ndjson_def lines_def Let_def split_char_def)
  moreover have "sy_files sample_live_dbs ''g'' = Some []" by (simp add: sample_live_dbs_def sample_live_sys_def)
  moreover have "load_store sample_live_ev (UseSqlite ''s.db'') sample_live_dbs = (Inr [], sample_live_dbs)"
    by (simp add: load_store_def sample_live_opened sql_load_def)
  ultimately show ?thesis
    by (simp add: serve_cmd_def sample_host and_then_def open_state_cmd_def serve_fill_def cmd_simps recheck_store_cmd_def recheck_store_def union_dedup_def
        start_metrics_def start_recheck_def start_watch_def warn_features_def start_server_def serve_def serve_calls_def resolver_new_def load_ndjson_def read_file_def
        sample_live_store sample_live_opened sample_live_reopened)
qed

lemma sample_live_file: "reload sample_live_value (Some (write_ndjson sample_text [sample_checked])) = Some [kept sample_checked]"
proof -
  have "json_text_ok sample_text sample_live_value (serialize sample_checked)"
    using sample_texts_ok(1) by (simp add: json_text_ok_def sample_live_value_def sample_text_def serialize_def)
  with ndjson_back[of "[sample_checked]" sample_text sample_live_value] show ?thesis by (simp add: reload_def)
qed

lemma kept_addr [simp]: "p_addr (kept p) = p_addr p"
  by (simp add: kept_def)

lemma sample_live_runs:
  assumes "sd_fill sd = \<lparr>fl_pool = from_proxies [] (pool_config_of sample_live), fl_history = [], fl_find = None\<rparr>"
    "sd_serving sd = sv_init (from_proxies [] (pool_config_of sample_live)) 0" "sd_watch sd = Some ''g''"
    "sd_recheck sd = Some (ck, c, recheck_config_of sample_live)"
  shows "\<exists>p. proc_run (proc_env_of sample_live_ev sample_live w sd) sample_live_acts (proc_init 0 sd y) = Some p
    \<and> addrs (pool_of p) = {p_addr sample_checked} \<and> tracked (pr_sched p) = {p_addr sample_checked}
    \<and> sc_heap (pr_sched p) = [(60300000000, p_addr sample_checked)] \<and> sc_current (pr_sched p) = None \<and> sc_ewma (pr_sched p) = [p_addr sample_checked \<mapsto> 1]
    \<and> seen p = [] \<and> rechecked (proc_env_of sample_live_ev sample_live w sd) p = [] \<and> \<not> pr_upserted p \<and> sc_probes (pr_sched p) = 0
    \<and> writes (proc_env_of sample_live_ev sample_live w sd) sample_live_acts (proc_init 0 sd y) = []"
proof -
  let ?x = "proc_env_of sample_live_ev sample_live w sd"
  have x: "px_cmd ?x = sample_live_ev" "px_watch ?x = Some ''g''" "px_recheck ?x = Some (recheck_env w ck (recheck_config_of sample_live), c)"
    using assms(3,4) by (simp_all add: proc_env_of_def)
  have pl: "addrs (from_proxies [] cfg) = {}" for cfg by (simp add: addrs_def from_proxies_def)
  have name: "file_name ''g'' = Some ''g''" by (simp add: file_name_def split_char_def)
  have j: "jitter 0 60000000000 = Some 60000000000" by (simp add: jitter_def from_secs_f64_def as_secs_f64_def)
  have add: "addrs (pool_add (kept sample_checked) (from_proxies [] (pool_config_of sample_live))) = {p_addr sample_checked}"
    by (simp add: pool_add_def addrs_def from_proxies_def ready_entry_def)
  show ?thesis
    using x assms(1,2)
    by (simp add: sample_live_acts_def proc_init_def poll_step_def read_pool_def Let_def name touches_def debounce_def sample_live_file pool_of_def sv_init_def shared_init_def pl
        reconcile_acts_def reconcile_next_def serve_act_def set_pool_def notify_all_def recheck_step_def recheck_effect_def recheck_env_def sched_init_def
        enroll_one_def recheck_config_of_def secs_def j add tracked_def seen_def rechecked_def written_def)
qed


lemma writes_append: "proc_run x as p = Some q \<Longrightarrow> writes x (as @ bs) p = writes x as p @ writes x bs q"
  by (induction as arbitrary: p) (auto simp del: proc_exec.simps split: option.splits)

lemma sample_checked_addr: "p_addr sample_checked = (V4 9 9 9 9, 80)"
  using check_keeps by (simp add: sample_checked_def proxy_new_def)

lemma sample_listed:
  assumes "ck_dnsbl ck = [''z'']"
  shows "Checker.check (w_codec Broker.sample_world) (w_resolve Broker.sample_world) ck r cn (proxy_new (V4 9 9 9 9) 80 {})
    = (False, proxy_new (V4 9 9 9 9) 80 {})"
  using assms by (simp add: Checker.check_def in_dnsbl_def Broker.sample_world_def map_filter_simps proxy_new_def)

lemma sample_drop_runs:
  assumes "px_recheck x = Some (recheck_env Broker.sample_world ck (recheck_config_of sample_live), c)" "ck_dnsbl ck = [''z'']"
    "addrs (pool_of p) = {p_addr sample_checked}" "sc_heap (pr_sched p) = [(60300000000, p_addr sample_checked)]" "sc_current (pr_sched p) = None"
    "sc_ewma (pr_sched p) = [p_addr sample_checked \<mapsto> 1]" "seen p = []" "rechecked x p = []" "\<not> pr_upserted p" "sc_probes (pr_sched p) = 0"
  shows "\<exists>p'. proc_run x sample_drop_acts p = Some p' \<and> writes x sample_drop_acts p = [proxy_new (V4 9 9 9 9) 80 {}]"
proof -
  have t: "start_gap (recheck_config_of sample_live) = Some 200000000" "next_interval (7/10) (recheck_config_of sample_live) = Some 2538000000000"
    "jitter 0 60000000000 = Some 60000000000" "rc_min_interval (recheck_config_of sample_live) = 60000000000"
    by (simp_all add: start_gap_def next_interval_def recheck_config_of_def secs_def jitter_def clamp01_def as_secs_f64_def from_secs_f64_def)
  show ?thesis
    using assms sample_listed[OF assms(2)]
    by (simp add: sample_drop_acts_def recheck_step_def recheck_effect_def probed_def upsert_step_def Scheduler.start_def vec_remove_def t finish_def sample_checked_addr recheck_env_def ewma_next_def
        pool_of_def serve_act_def set_pool_def settle_def Let_def forget_def record_checks_def written_def seen_def rechecked_def)
qed

theorem process_remembers_witness:
  "\<exists>sd y' p h y2. serve_cmd sample_live_ev sample_bk sample_live sample_live_sys = (Inr sd, y')
    \<and> proc_run (proc_env_of sample_live_ev sample_live Broker.sample_world sd) (sample_live_acts @ sample_drop_acts) (proc_init 0 sd y') = Some p
    \<and> open_state_cmd sample_live_ev sample_bk (Some ''s.db'') (pr_sys p) = (Inr (opened sample_live_ev (Some ''s.db'') sample_bk, h), y2)
    \<and> p_addr ` set h = {p_addr sample_checked}"
proof -
  obtain sd y' ck where r: "serve_cmd sample_live_ev sample_bk sample_live sample_live_sys = (Inr sd, y')"
    "sd_fill sd = \<lparr>fl_pool = from_proxies [] (pool_config_of sample_live), fl_history = [], fl_find = None\<rparr>"
    "sd_serving sd = sv_init (from_proxies [] (pool_config_of sample_live)) 0" "sd_watch sd = Some ''g''"
    "sd_recheck sd = Some (ck, UseSqlite ''s.db'', recheck_config_of sample_live)" "ck_dnsbl ck = [''z'']" using sample_live_starts by blast
  define x where "x = proc_env_of sample_live_ev sample_live Broker.sample_world sd"
  have xr: "px_recheck x = Some (recheck_env Broker.sample_world ck (recheck_config_of sample_live), UseSqlite ''s.db'')"
    using r(5) by (simp add: x_def proc_env_of_def)
  from sample_live_runs[OF r(2-5), of Broker.sample_world y', folded x_def] obtain q where
    q: "proc_run x sample_live_acts (proc_init 0 sd y') = Some q" "addrs (pool_of q) = {p_addr sample_checked}"
      "sc_heap (pr_sched q) = [(60300000000, p_addr sample_checked)]" "sc_current (pr_sched q) = None" "sc_ewma (pr_sched q) = [p_addr sample_checked \<mapsto> 1]"
      "seen q = []" "rechecked x q = []" "\<not> pr_upserted q" "sc_probes (pr_sched q) = 0" "writes x sample_live_acts (proc_init 0 sd y') = []" by blast
  obtain p where p: "proc_run x (sample_live_acts @ sample_drop_acts) (proc_init 0 sd y') = Some p"
    "writes x (sample_live_acts @ sample_drop_acts) (proc_init 0 sd y') = [proxy_new (V4 9 9 9 9) 80 {}]"
    using sample_drop_runs[OF xr r(6) q(2-9)] q(1,10) by (auto simp: proc_run_append writes_append)
  have st: "store_of sample_live_ev (sa_state sample_live) = Some (UseSqlite ''s.db'')" by (simp add: sample_live_store)
  have ok: "store_ok (UseSqlite ''s.db'') sample_live_dbs" by (simp add: store_ok_def sample_live_opened sql_ok_def)
  have rc: "store_recall sample_live_ev (UseSqlite ''s.db'') sample_live_dbs = Map.empty"
    by (rule ext) (simp add: store_recall_def sample_live_opened sql_recall_def)
  have fit: "fit_all (text_fit (ev_to_string sample_live_ev) (ev_from_str sample_live_ev))
      (timed sample_live_ev 0 (writes x (sample_live_acts @ sample_drop_acts) (proc_init 0 sd y')))
      (store_recall sample_live_ev (UseSqlite ''s.db'') sample_live_dbs)"
    by (simp add: p(2) rc text_fit_def counts_fit_def types_text_ok_def types_to_json_def proxy_new_def type_entries_def type_keys_def sample_text_def sample_live_value_def)
  have "\<forall>i j. ev_engine sample_live_ev i j = None" by simp
  from process_remembers[OF r(1) x_def p(1) st sample_live_opened(1) ok this fit, of sample_bk]
  obtain h y2 where h: "open_state_cmd sample_live_ev sample_bk (sa_state sample_live) (pr_sys p) = (Inr (opened sample_live_ev (sa_state sample_live) sample_bk, h), y2)"
    "set h = {agg_proxy ad g | ad g. recall_all [(ev_clock sample_live_ev 0, proxy_new (V4 9 9 9 9) 80 {})] Map.empty ad = Some g}"
    unfolding p(2) rc by auto
  have "p_addr ` set h = {p_addr sample_checked}"
    unfolding h(2) by (auto simp: agg_step_def sample_checked_addr proxy_new_def agg_proxy_def split: if_splits)
  with r(1) p(1) h(1) show ?thesis unfolding x_def sample_live_simps by blast
qed

theorem reload_steps_witness:
  "\<exists>sd y' q p. serve_cmd sample_live_ev sample_bk sample_live sample_live_sys = (Inr sd, y')
    \<and> proc_run (proc_env_of sample_live_ev sample_live Broker.sample_world sd) (take 2 sample_live_acts) (proc_init 0 sd y') = Some q
    \<and> addrs (pool_of q) = {}
    \<and> proc_run (proc_env_of sample_live_ev sample_live Broker.sample_world sd) [Poll 250000000 [], ReadPool [], ReconcileNext] q = Some p
    \<and> addrs (pool_of p) = {p_addr sample_checked}"
proof -
  obtain sd y' ck where r: "serve_cmd sample_live_ev sample_bk sample_live sample_live_sys = (Inr sd, y')"
    "sd_fill sd = \<lparr>fl_pool = from_proxies [] (pool_config_of sample_live), fl_history = [], fl_find = None\<rparr>"
    "sd_serving sd = sv_init (from_proxies [] (pool_config_of sample_live)) 0" "sd_watch sd = Some ''g''" using sample_live_starts by blast
  define x where "x = proc_env_of sample_live_ev sample_live Broker.sample_world sd"
  have x: "px_watch x = Some ''g''" "px_cmd x = sample_live_ev" using r(4) by (simp_all add: x_def proc_env_of_def)
  have name: "file_name ''g'' = Some ''g''" by (simp add: file_name_def split_char_def)
  obtain q where q: "proc_run x (take 2 sample_live_acts) (proc_init 0 sd y') = Some q" "pr_todo q = []" "addrs (pool_of q) = {}" "pr_pending q = Some 0"
    "sy_files (pr_sys q) ''g'' = Some (write_ndjson sample_text [sample_checked])" "pr_loaded q = None"
    using x name by (simp add: sample_live_acts_def proc_init_def Let_def poll_step_def touches_def debounce_def pool_of_def r(2,3) sv_init_def shared_init_def
        addrs_def from_proxies_def)
  have "debounce \<le> 250000000 - 0" "\<not> touches (file_name ''g'') []" by (simp_all add: debounce_def touches_def)
  from reload_steps[OF x(1) q(6,2) _ _ q(4) this(2,1), of "[]"] q(3,5) x(2) sample_live_file
  obtain p where "proc_run x [Poll 250000000 [], ReadPool [], ReconcileNext] q = Some p" "addrs (pool_of p) = {p_addr sample_checked}"
    by (auto simp: reconcile_acts_def simp del: proc_run.simps proc_exec.simps)
  with r(1) q(1,3) show ?thesis unfolding x_def by blast
qed

end
