(* ===== verification/Spec2Isabelle.thy ===== *)
theory Spec2Isabelle
  imports Ip_Text Chain Process_Spec
begin

text \<open>
  A verification library for the proxy broker of \<^verbatim>\<open>src/src\<close>, a Rust crate that finds public proxies,
  checks them against judge pages, keeps the working ones in a pool and serves clients through them.

  \<^bold>\<open>The program.\<close> Providers are pages with addresses (\<^verbatim>\<open>provider.rs\<close>, \<^verbatim>\<open>parse.rs\<close>). The broker
  (\<^verbatim>\<open>broker.rs\<close>) scrapes them, attaches locations (\<^verbatim>\<open>geo.rs\<close>), and drives a concurrent pipeline in which
  the checker (\<^verbatim>\<open>checker.rs\<close>) connects through every proxy with the negotiations of \<^verbatim>\<open>negotiator.rs\<close>, asks
  a judge (\<^verbatim>\<open>judge.rs\<close>) and classifies the answer. Each proxy is a value with its statistics
  (\<^verbatim>\<open>proxy.rs\<close>). The server (\<^verbatim>\<open>server.rs\<close>) holds the pool: it parses client requests, leases a proxy,
  relays, retries with another one, and returns proxies to the pool, benched or evicted when they fail. The
  connector (\<^verbatim>\<open>connector.rs\<close>) gives library users the same rotation. Around the pool work the re-checker
  (\<^verbatim>\<open>scheduler.rs\<close>), the live reload (\<^verbatim>\<open>watch.rs\<close>), the MCP tools (\<^verbatim>\<open>mcp.rs\<close>), the dashboard
  (\<^verbatim>\<open>tui.rs\<close>) and the stores that remember proxies across runs (\<^verbatim>\<open>persist.rs\<close>). The binary
  (\<^verbatim>\<open>bin/proxybroker.rs\<close>) turns flags into queries and configurations, builds the broker, runs a command and
  writes the results.

  \<^bold>\<open>The theories and what they model.\<close>

  \<^item> \<open>Rust_Std\<close>, \<open>Rust_Str\<close> (the prelude): vectors, decimal rounding, durations, byte strings, UTF-8.
  \<^item> \<open>Types\<close>: \<^verbatim>\<open>types.rs\<close> and \<^verbatim>\<open>error.rs\<close>. \<open>Net_Addr\<close>, \<open>Ip_Text\<close>: the addresses of the standard library and
    the address helpers; every address, with the compressed forms of IPv6, is shown to read back.
  \<^item> \<open>Utils\<close>, \<open>Proxy\<close>, \<open>Proxy_Json\<close>, \<open>Stats\<close>: \<^verbatim>\<open>utils.rs\<close>, \<^verbatim>\<open>proxy.rs\<close> (the record \<open>proxy\<close>, its
    operations, the saved JSON lines) and \<^verbatim>\<open>stats.rs\<close>.
  \<^item> \<open>Pool\<close>, \<open>Pool_Facts\<close>, \<open>Pool_Spec\<close>: \<open>Pool\<close> of \<^verbatim>\<open>server.rs\<close>, one definition per method over the record
    \<open>pool\<close>; \<open>pool_step\<close> is the step relation of a pool with its leases outstanding.
  \<^item> \<open>Http_Head\<close>, \<open>Client_Request\<close>, \<open>Negotiator\<close>, \<open>Server\<close>, \<open>Chain\<close>: the rest of \<^verbatim>\<open>server.rs\<close> from the bytes
    of a client to the answer, over the negotiations of \<^verbatim>\<open>negotiator.rs\<close>; \<open>Connector\<close>: \<^verbatim>\<open>connector.rs\<close>.
  \<^item> \<open>Serving\<close>, \<open>Serving_Spec\<close>, \<open>Serving_Run\<close>: the running server, \<open>serve\<close>, \<open>Pool::spawn\<close>, \<open>Pool::get\<close> and
    \<open>handle_client\<close> of \<^verbatim>\<open>server.rs\<close> as steps. The record \<open>serving\<close> has the shared pool, the importer, the
    start-up gate, the accept loop and one program counter for each client (\<open>task_pc\<close>); \<open>sv_exec\<close> is a step
    of one of them, and a sleeping task is woken by the notification that the code sends.
  \<^item> \<open>Scan\<close>, \<open>Lookup\<close>: \<^verbatim>\<open>parse.rs\<close>, \<^verbatim>\<open>provider.rs\<close>, \<^verbatim>\<open>resolver.rs\<close>, \<^verbatim>\<open>geo.rs\<close>. \<open>Checker\<close>: \<^verbatim>\<open>judge.rs\<close>
    and \<^verbatim>\<open>checker.rs\<close>. \<open>Check_Stream\<close>, \<open>Broker\<close>: the pipeline and the queries of \<^verbatim>\<open>broker.rs\<close>.
  \<^item> \<open>Persist\<close>, \<open>Persist_Spec\<close>: the three stores of \<^verbatim>\<open>persist.rs\<close>. \<open>Scheduler\<close>: \<^verbatim>\<open>scheduler.rs\<close>. \<open>Watch\<close>:
    \<^verbatim>\<open>watch.rs\<close>. \<open>Mcp\<close>: \<^verbatim>\<open>mcp.rs\<close>. \<open>Dashboard\<close>: \<^verbatim>\<open>tui.rs\<close> and the metrics text.
  \<^item> \<open>Output\<close>, \<open>Cli\<close>, \<open>Commands\<close>, \<open>Commands_Spec\<close>: \<^verbatim>\<open>bin/proxybroker.rs\<close>. \<open>Cli\<close> has the flags and what is made of
    them; \<open>Commands\<close> has \<open>main\<close>, \<open>run\<close>, the builder of the broker and the six commands as functions of the
    record \<open>sys\<close> (the two output streams, the files, the databases), over the environment \<open>cmd_env\<close>.
  \<^item> \<open>Process\<close>, \<open>Process_Spec\<close>: the process that \<open>serve\<close> becomes. The record \<open>process\<close> has the states of all its
    tasks side by side (the pipeline with its observer, the importer, the server with its clients, the
    re-checker, the watcher, the metrics endpoint) over one pool and one store; \<open>proc_exec\<close> is a step of one
    of them, an edit of the watched file by somebody else, or the interrupt.

  \<^bold>\<open>The interfaces.\<close> \<open>lease_pool\<close> is the contract of checking a proxy out and putting it back, on which the
  balance of the relay and of the connector rests; \<open>addr_pool\<close> is the contract of a set of addresses with
  \<open>add\<close> and \<open>remove\<close>, on which the reload and the tools rest; \<open>proxy_store\<close> is the contract of a store
  against the abstract fold of the finished checks. Its interpretations on the three stores make them
  interchangeable, and its interpretation on the stores as the commands open and write them carries the
  contract to \<open>--state\<close>. All locales are interpreted on the definitions of the model.

  \<^bold>\<open>What is shown.\<close> Of the pool: in every sequence of operations each address is accounted for as pooled,
  leased, removed or evicted; leases are best, ready when one is ready, and come back; the last look always
  answers. Of the server: no unauthenticated request reaches a proxy, forwarded heads lose exactly the
  stripped headers, a retried attempt has sent nothing to the client, a refused status is not shown. Of the
  running server, over all interleavings of its clients, its importer and the users of the pool: it refines
  the abstract pool, no wake-up is lost, nobody is served before the pool is ready, every client is answered
  once the source is exhausted, and a client alone sees what the handler as one function computes. Of the
  pipeline, over all interleavings of its loop, its tasks and its consumer: at most \<open>max_conn\<close> checks at a
  time, never more than the limit, everything that should be delivered is, and the run ends. Of the checker:
  what a confirmed protocol and a high anonymity level rest on. Of the stores: agreement with the fold of the
  history and with each other. Of the re-checker, over all interleavings with other users of the pool: each
  address is scheduled once, starts keep their distance, failing proxies are given up. Of the tools around
  the pool: a reload, a report, the dashboard and the figures are exact. Of the files and texts: they read
  back. Of the commands from end to end: \<open>find\<close> returns, has printed, saved and summed up exactly what it was
  asked for, and what it saved or remembered is what \<open>check --load\<close>, \<open>serve --load\<close> and \<open>--state\<close> start from. Of the
  whole process of \<open>serve\<close>, over all interleavings of its tasks: a run of the process is for each task a run
  of that task, so what is shown of the tasks holds in the process; it pools, leases and re-checks only
  addresses from the store, the search or a version of its file; its store holds the fold of the checks of
  the search and of the re-checker; a reload in steps comes to what the atomic one gives. Some theorems state
  where the code falls short of its documentation.

  \<^bold>\<open>How things are modelled.\<close> Strings are lists of bytes; letter case, digits and white space are ASCII.
  Floating-point numbers are exact reals, and the decimal rounding that the program asks for is written out.
  Counters of the program are words that wrap (or saturate, as written). Panics are \<open>None\<close>. A connection is
  the bytes that will arrive and how it then ends. Time is an argument. Concurrency is an explicit list of
  steps, so that a theorem about all lists is one about all interleavings; each pool method is one step, as
  its mutex makes it. Random choices, the network, the file system, and third-party code (DNS, TLS, SOCKS and
  HTTP clients, regular expressions of users, compression, URL, JSON, YAML and MaxMind readers, the database
  engines, the terminal) are arguments, with what is relied on stated as a hypothesis where it is needed
  (\<open>json_text_ok\<close>, \<open>types_text_ok\<close>).

  \<^bold>\<open>Recursion and fuel.\<close> Loops are structural or have a measure. The UTF-8 decoder and the match iterator
  take the length of their input as fuel, which is enough because each round consumes at least one byte; the
  lease loop of the pool is bounded by the number of probes the code allows; the pipeline, the server and the
  re-checker have no bound of their own, and that the pipeline ends and that the clients come to an end are
  theorems about every run.

  \<^bold>\<open>Not modelled.\<close> Sockets and the bytes on them beyond the model of a connection, argument parsing, logging
  and its set-up, signals, the progress bar and terminal drawing, the transport of the tools, the
  registration of file watches, writes that fail half-way, the certificate verifier that accepts everything
  and the delegating stream adapters, and the re-exports of the crate: input, output and glue without logic
  of their own.
\<close>

end
